(* ===== verification/Prelude.thy ===== *)
theory Prelude
  imports Main "HOL-Library.Word"
begin

unbundle bit_operations_syntax

text \<open>
  Shared ground of the development: names for the C integer types, the result type of
  kernel code, byte-addressed memory with little-endian multi-byte access, and the generic
  lemmas on words, lists and memory that the component theories use.

  Kernel code is modelled by explicit state passing. A call returns \<open>Ret v s\<close> (it returns
  \<open>v\<close> in state \<open>s\<close>), \<open>Panic msg\<close> (it called \<open>panic(msg)\<close>, which never
  returns), \<open>Sleeps s\<close> (the calling process gave up the CPU in \<open>sched()\<close> in state
  \<open>s\<close> and returns only when another process or an interrupt wakes it), \<open>Spins\<close>
  (it spins on a lock that another CPU holds), or \<open>OutOfFuel\<close> (the model's bound on the
  recursion was reached; the theorems show that the bounds chosen are enough).
\<close>

section \<open>Types\<close>

type_synonym byte = "8 word"
type_synonym ushort = "16 word"
type_synonym uint = "32 word"
type_synonym uint64 = "64 word"
type_synonym mem = "uint64 \<Rightarrow> byte"
type_synonym cptr = "nat \<Rightarrow> byte"

named_theorems res_simps \<open>evaluation of results\<close>
named_theorems lock_simps \<open>what locking leaves unchanged\<close>
named_theorems mem_simps \<open>reads after writes\<close>

section \<open>Results of kernel code\<close>

datatype ('s, 'a) res = Ret 'a 's | Panic string | Sleeps 's | Spins | OutOfFuel

primrec res_bind :: "('s, 'a) res \<Rightarrow> ('a \<Rightarrow> 's \<Rightarrow> ('s, 'b) res) \<Rightarrow> ('s, 'b) res" where
  "res_bind (Ret v s) f = f v s"
| "res_bind (Panic msg) f = Panic msg"
| "res_bind (Sleeps s) f = Sleeps s"
| "res_bind Spins f = Spins"
| "res_bind OutOfFuel f = OutOfFuel"

text \<open>A \<open>for\<close> loop over the elements of a list.\<close>

primrec res_for :: "'b list \<Rightarrow> ('b \<Rightarrow> 's \<Rightarrow> ('s, unit) res) \<Rightarrow> 's \<Rightarrow> ('s, unit) res" where
  "res_for [] f s = Ret () s"
| "res_for (x # xs) f s = res_bind (f x s) (\<lambda>_ s. res_for xs f s)"

lemma res_bind_Ret_iff:
  "res_bind r f = Ret v s \<longleftrightarrow> (\<exists>w t. r = Ret w t \<and> f w t = Ret v s)"
  by (cases r) auto

lemma res_bind_assoc [res_simps]:
  "res_bind (res_bind r f) g = res_bind r (\<lambda>v s. res_bind (f v s) g)"
  by (cases r) auto

lemma res_bind_cong [fundef_cong]:
  assumes "r = r'" and "\<And>v s. r' = Ret v s \<Longrightarrow> f v s = g v s"
  shows "res_bind r f = res_bind r' g"
  using assms by (cases r') auto

lemma res_for_append [res_simps]:
  "res_for (xs @ ys) f s = res_bind (res_for xs f s) (\<lambda>_ s. res_for ys f s)"
  by (induction xs arbitrary: s) (simp_all add: res_simps)

lemma res_for_invariant:
  assumes "\<And>x s. x \<in> set xs \<Longrightarrow> P s \<Longrightarrow> \<exists>t. f x s = Ret () t \<and> P t" and "P s"
  shows "\<exists>t. res_for xs f s = Ret () t \<and> P t"
  using assms by (induction xs arbitrary: s) fastforce+

lemma res_bindE:
  assumes "res_bind r f = Ret v s"
  obtains w t where "r = Ret w t" and "f w t = Ret v s"
  using assms by (auto simp: res_bind_Ret_iff)

section \<open>Word arithmetic\<close>

lemma unat_lt_2_32: "unat (n :: uint) < 2 ^ 32"
  using unsigned_less [of n] by simp

lemma unat_lt_2_64: "unat (n :: uint64) < 2 ^ 64"
  using unsigned_less [of n] by simp

lemma unat_of_nat_64 [simp]: "k < 2 ^ 64 \<Longrightarrow> unat (of_nat k :: uint64) = k"
  by (simp add: unat_of_nat)

lemma unat_of_nat_32 [simp]: "k < 2 ^ 32 \<Longrightarrow> unat (of_nat k :: uint) = k"
  by (simp add: unat_of_nat)

lemma unat_ucast_32_64 [simp]: "unat (ucast (n :: uint) :: uint64) = unat n"
  using unat_lt_2_32 [of n] by (simp add: unsigned_ucast_eq take_bit_nat_eq_self)

lemma ucast_32_64_of_nat: "(ucast (n :: uint) :: uint64) = of_nat (unat n)"
  by (metis of_nat_unat unat_ucast_32_64)

lemma unat_add_64: "unat a + k < 2 ^ 64 \<Longrightarrow> unat ((a :: uint64) + of_nat k) = unat a + k"
  by (simp add: unat_word_ariths unat_of_nat)

lemma unat_add_no_wrap: "(a :: uint64) < a + b \<Longrightarrow> unat (a + b) = unat a + unat b"
  using unat_lt_2_64 [of a] unat_lt_2_64 [of b]
  by (auto simp: word_less_nat_alt unat_plus_if' split: if_splits)

lemma unat_ucast_64_32: "unat (ucast (x :: uint64) :: uint) = unat x mod 2 ^ 32"
  by (simp add: unsigned_ucast_eq take_bit_eq_mod)

lemma sint_32: "sint (w :: 32 word) = (if unat w < 2 ^ 31 then int (unat w) else int (unat w) - 2 ^ 32)"
proof -
  define n where "n = unat w"
  have n: "n < 2 ^ 32" using unat_lt_2_32 [of w] by (simp add: n_def)
  have un: "uint w = int n" by (simp add: n_def)
  have "n div 2 ^ 31 = (if n < 2 ^ 31 then 0 else 1)" using n by (auto intro: div_nat_eqI)
  then have "bit n 31 \<longleftrightarrow> \<not> n < 2 ^ 31" by (simp add: bit_iff_odd)
  then have "bit (int n) 31 \<longleftrightarrow> \<not> n < 2 ^ 31" by (simp add: bit_of_nat_iff)
  moreover have "sint w = take_bit 32 (uint w) - 2 ^ 32 * of_bool (bit (uint w) 31)"
    by (simp add: sint_uint signed_take_bit_eq_take_bit_minus)
  moreover have "take_bit 32 (int n) = int n" using n by (simp add: take_bit_int_eq_self)
  ultimately have "sint w = (if n < 2 ^ 31 then int n else int n - 2 ^ 32)" unfolding un by simp
  then show ?thesis unfolding n_def .
qed

lemma unat_diff_less: "0 < (n :: uint64) \<Longrightarrow> n \<le> k \<Longrightarrow> unat (k - n) < unat k"
  by (simp add: unat_sub word_less_nat_alt word_le_nat_alt)

lemma unat_diff_eq_iff:
  assumes "k < 2 ^ 64"
  shows "unat ((x :: uint64) - a) = k \<longleftrightarrow> x = a + of_nat k"
proof -
  have "unat (x - a) = k \<longleftrightarrow> x - a = of_nat k"
    using unat_of_nat_64 [OF assms] by auto
  then show ?thesis by (auto simp: diff_eq_eq add.commute)
qed

section \<open>Little-endian encoding\<close>

text \<open>The bytes of a word, least significant first, and back; RISC-V is little-endian.\<close>

definition le_bytes :: "nat \<Rightarrow> 'a::len word \<Rightarrow> byte list" where
  "le_bytes n w = map (\<lambda>i. ucast (drop_bit (8 * i) w)) [0..<n]"

primrec le_word :: "byte list \<Rightarrow> 'a::len word" where
  "le_word [] = 0"
| "le_word (b # bs) = (ucast b) OR (push_bit 8 (le_word bs))"

lemma length_le_bytes [simp]: "length (le_bytes n w) = n"
  by (simp add: le_bytes_def)

lemma nth_le_bytes [simp]: "i < n \<Longrightarrow> le_bytes n w ! i = ucast (drop_bit (8 * i) w)"
  by (simp add: le_bytes_def)

lemma bit_le_word:
  "bit (le_word bs :: 'a::len word) n \<longleftrightarrow>
     n < LENGTH('a) \<and> n div 8 < length bs \<and> bit (bs ! (n div 8)) (n mod 8)"
proof (induction bs arbitrary: n)
  case Nil
  then show ?case by simp
next
  case (Cons b bs)
  show ?case
  proof (cases "n < 8")
    case True
    then show ?thesis
      by (auto simp: bit_simps dest: bit_imp_le_length)
  next
    case False
    then obtain m where m: "n = m + 8" by (metis add.commute le_Suc_ex not_less)
    have nb: "\<not> bit b n" using False by (auto dest: bit_imp_le_length)
    have "(m + 8) div 8 = Suc (m div 8)" by simp
    then show ?thesis
      using nb by (auto simp: bit_simps Cons.IH m dest: bit_imp_le_length)
  qed
qed

lemma le_word_le_bytes:
  assumes "LENGTH('a) = 8 * n"
  shows "le_word (le_bytes n w) = (w :: 'a::len word)"
proof (rule bit_word_eqI)
  fix k assume k: "k < LENGTH('a)"
  then have "k div 8 < n" using assms by (simp add: div_less_iff_less_mult mult.commute)
  then show "bit (le_word (le_bytes n w) :: 'a word) k \<longleftrightarrow> bit w k"
    using k by (simp add: bit_le_word bit_simps)
qed

lemma le_bytes_le_word:
  assumes "LENGTH('a) = 8 * n" and "length bs = n"
  shows "le_bytes n (le_word bs :: 'a::len word) = bs"
proof (rule nth_equalityI)
  show "length (le_bytes n (le_word bs :: 'a word)) = length bs" using assms by simp
next
  fix i assume "i < length (le_bytes n (le_word bs :: 'a word))"
  then have i: "i < n" by simp
  show "le_bytes n (le_word bs :: 'a word) ! i = bs ! i"
  proof (rule bit_word_eqI)
    fix k assume k: "k < LENGTH(8)"
    then have "(8 * i + k) div 8 = i" "(8 * i + k) mod 8 = k" "8 * i + k < LENGTH('a)"
      using i assms by auto
    then show "bit (le_bytes n (le_word bs :: 'a word) ! i) k \<longleftrightarrow> bit (bs ! i) k"
      using i assms k by (simp add: bit_simps bit_le_word)
  qed
qed

section \<open>Byte-addressed memory\<close>

text \<open>Overwriting a C array of bytes from an index on.\<close>

definition write_at :: "cptr \<Rightarrow> nat \<Rightarrow> byte list \<Rightarrow> cptr" where
  "write_at d k bs = (\<lambda>j. if k \<le> j \<and> j < k + length bs then bs ! (j - k) else d j)"

definition get :: "mem \<Rightarrow> uint64 \<Rightarrow> nat \<Rightarrow> byte list" where
  "get m a n = map (\<lambda>i. m (a + of_nat i)) [0..<n]"

definition put :: "mem \<Rightarrow> uint64 \<Rightarrow> byte list \<Rightarrow> mem" where
  "put m a bs = (\<lambda>x. if unat (x - a) < length bs then bs ! unat (x - a) else m x)"

definition load64 :: "mem \<Rightarrow> uint64 \<Rightarrow> uint64" where
  "load64 m a = le_word (get m a 8)"

definition store64 :: "mem \<Rightarrow> uint64 \<Rightarrow> uint64 \<Rightarrow> mem" where
  "store64 m a v = put m a (le_bytes 8 v)"

lemma length_get [simp]: "length (get m a n) = n"
  by (simp add: get_def)

lemma nth_get [simp]: "i < n \<Longrightarrow> get m a n ! i = m (a + of_nat i)"
  by (simp add: get_def)

lemma get_0 [simp]: "get m a 0 = []"
  by (simp add: get_def)

lemma put_Nil [simp]: "put m a [] = m"
  by (simp add: put_def)

lemma get_cong: "(\<And>i. i < n \<Longrightarrow> m (a + of_nat i) = m' (a' + of_nat i)) \<Longrightarrow> get m a n = get m' a' n"
  by (simp add: get_def)

lemma get_put_same [mem_simps]:
  assumes "length bs = n" and "n \<le> 2 ^ 64"
  shows "get (put m a bs) a n = bs"
proof (rule nth_equalityI)
  show "length (get (put m a bs) a n) = length bs" using assms by simp
next
  fix i assume "i < length (get (put m a bs) a n)"
  then have i: "i < n" by simp
  have "unat (of_nat i :: uint64) = i"
    using i assms(2) by (simp add: unat_of_nat)
  then show "get (put m a bs) a n ! i = bs ! i"
    using i assms(1) by (simp add: put_def)
qed

text \<open>Two address ranges do not meet.\<close>

definition disjoint_ranges :: "uint64 \<Rightarrow> nat \<Rightarrow> uint64 \<Rightarrow> nat \<Rightarrow> bool" where
  "disjoint_ranges a n b k \<longleftrightarrow> (\<forall>i<n. k \<le> unat (a + of_nat i - b))"

lemma get_put_disjoint:
  "disjoint_ranges a n b (length bs) \<Longrightarrow> get (put m b bs) a n = get m a n"
  by (rule get_cong) (auto simp: put_def disjoint_ranges_def not_less)

lemma put_outside: "length bs \<le> unat (x - a) \<Longrightarrow> put m a bs x = m x"
  by (simp add: put_def)

lemma disjoint_rangesI:
  assumes "unat a + n \<le> unat b \<or> unat b + k \<le> unat a"
    and "unat a + n \<le> 2 ^ 64" and "unat b + k \<le> 2 ^ 64"
  shows "disjoint_ranges a n b k"
  unfolding disjoint_ranges_def
proof (intro allI impI)
  fix i assume i: "i < n"
  have ai: "unat (a + of_nat i) = unat a + i"
    using i assms(2) by (simp add: unat_word_ariths unat_of_nat)
  show "k \<le> unat (a + of_nat i - b)"
  proof (cases "unat b \<le> unat a + i")
    case True
    then have "unat (a + of_nat i - b) = unat a + i - unat b"
      by (subst unat_sub) (simp_all add: word_le_nat_alt ai)
    then show ?thesis using assms(1) i True by auto
  next
    case False
    then have "unat (a + of_nat i - b) = unat a + i + 2 ^ 64 - unat b"
      by (simp add: unat_sub_if' word_le_nat_alt ai)
    then show ?thesis using assms(3) False by auto
  qed
qed

lemma load64_store64_same [mem_simps]: "load64 (store64 m a v) a = v"
  by (simp add: load64_def store64_def get_put_same le_word_le_bytes)

lemma load64_store64_other:
  "disjoint_ranges a 8 b 8 \<Longrightarrow> load64 (store64 m b v) a = load64 m a"
  by (simp add: load64_def store64_def get_put_disjoint)

lemma load64_put_other:
  "disjoint_ranges a 8 b (length bs) \<Longrightarrow> load64 (put m b bs) a = load64 m a"
  by (simp add: load64_def get_put_disjoint)

lemma le_word_zeros [simp]: "le_word (replicate n 0) = 0"
  by (induction n) simp_all

lemma load64_zero [simp]: "load64 (\<lambda>_. 0) a = 0"
  by (simp add: load64_def get_def map_replicate_const)

end
