(* ===== verification/Cstring.thy ===== *)
theory Cstring
  imports Prelude
begin

text \<open>
  The kernel's string library, \<open>kernel/string.c\<close>. The writers \<open>memset\<close> and
  \<open>memmove\<close> act on memory at addresses, since overlap of the two regions is what
  \<open>memmove\<close> is about; the functions that only read, and the two string copies whose
  callers pass separate arrays, act on arrays seen as functions from an offset to a byte, so
  that \<open>p++\<close> is the shifted function.
\<close>

section \<open>Definitions\<close>

definition memset :: "mem \<Rightarrow> uint64 \<Rightarrow> byte \<Rightarrow> uint \<Rightarrow> mem" where
  "memset m dst c n = fold (\<lambda>i m. m(dst + of_nat i := c)) [0..<unat n] m"

primrec memcmp_loop :: "nat \<Rightarrow> cptr \<Rightarrow> cptr \<Rightarrow> int" where
  "memcmp_loop 0 s1 s2 = 0"
| "memcmp_loop (Suc n) s1 s2 =
     (if s1 0 \<noteq> s2 0 then uint (s1 0) - uint (s2 0)
      else memcmp_loop n (\<lambda>i. s1 (Suc i)) (\<lambda>i. s2 (Suc i)))"

definition memcmp :: "cptr \<Rightarrow> cptr \<Rightarrow> uint \<Rightarrow> int" where
  "memcmp v1 v2 n = memcmp_loop (unat n) v1 v2"

primrec copy_down :: "nat \<Rightarrow> uint64 \<Rightarrow> uint64 \<Rightarrow> mem \<Rightarrow> mem" where
  "copy_down 0 d s m = m"
| "copy_down (Suc n) d s m = copy_down n (d - 1) (s - 1) (m(d - 1 := m (s - 1)))"

primrec copy_up :: "nat \<Rightarrow> uint64 \<Rightarrow> uint64 \<Rightarrow> mem \<Rightarrow> mem" where
  "copy_up 0 d s m = m"
| "copy_up (Suc n) d s m = copy_up n (d + 1) (s + 1) (m(d := m s))"

definition memmove :: "mem \<Rightarrow> uint64 \<Rightarrow> uint64 \<Rightarrow> uint \<Rightarrow> mem" where
  "memmove m dst src n =
     (if src < dst \<and> dst < src + ucast n
      then copy_down (unat n) (dst + ucast n) (src + ucast n) m
      else copy_up (unat n) dst src m)"

definition memcpy :: "mem \<Rightarrow> uint64 \<Rightarrow> uint64 \<Rightarrow> uint \<Rightarrow> mem" where
  "memcpy m dst src n = memmove m dst src n"

primrec strncmp_loop :: "nat \<Rightarrow> cptr \<Rightarrow> cptr \<Rightarrow> int" where
  "strncmp_loop 0 p q = 0"
| "strncmp_loop (Suc n) p q =
     (if p 0 \<noteq> 0 \<and> p 0 = q 0 then strncmp_loop n (\<lambda>i. p (Suc i)) (\<lambda>i. q (Suc i))
      else uint (p 0) - uint (q 0))"

definition strncmp :: "cptr \<Rightarrow> cptr \<Rightarrow> uint \<Rightarrow> int" where
  "strncmp p q n = strncmp_loop (unat n) p q"

primrec zero_fill :: "nat \<Rightarrow> nat \<Rightarrow> cptr \<Rightarrow> cptr" where
  "zero_fill 0 i s = s"
| "zero_fill (Suc n) i s = zero_fill n (Suc i) (s(i := 0))"

primrec strncpy_loop :: "nat \<Rightarrow> nat \<Rightarrow> cptr \<Rightarrow> cptr \<Rightarrow> cptr" where
  "strncpy_loop 0 i s t = s"
| "strncpy_loop (Suc n) i s t =
     (if t i \<noteq> 0 then strncpy_loop n (Suc i) (s(i := t i)) t
      else zero_fill n (Suc i) (s(i := t i)))"

definition strncpy :: "cptr \<Rightarrow> cptr \<Rightarrow> int \<Rightarrow> cptr" where
  "strncpy s t n = strncpy_loop (nat n) 0 s t"

primrec safestrcpy_loop :: "nat \<Rightarrow> nat \<Rightarrow> cptr \<Rightarrow> cptr \<Rightarrow> cptr" where
  "safestrcpy_loop 0 i s t = s(i := 0)"
| "safestrcpy_loop (Suc n) i s t =
     (if t i \<noteq> 0 then safestrcpy_loop n (Suc i) (s(i := t i)) t
      else s(i := t i, Suc i := 0))"

definition safestrcpy :: "cptr \<Rightarrow> cptr \<Rightarrow> int \<Rightarrow> cptr" where
  "safestrcpy s t n = (if n \<le> 0 then s else safestrcpy_loop (nat n - 1) 0 s t)"

partial_function (option) strlen_from :: "cptr \<Rightarrow> nat \<Rightarrow> nat option" where
  "strlen_from s n = (if s n = 0 then Some n else strlen_from s (Suc n))"

definition strlen :: "cptr \<Rightarrow> nat option" where
  "strlen s = strlen_from s 0"

text \<open>
  A byte list seen as an array, and the C string an array holds within its first \<open>n\<close>
  bytes.
\<close>

definition arr :: "byte list \<Rightarrow> cptr" where
  "arr bs = (\<lambda>i. if i < length bs then bs ! i else 0)"

definition cstr :: "nat \<Rightarrow> cptr \<Rightarrow> byte list" where
  "cstr n p = takeWhile (\<lambda>b. b \<noteq> 0) (map p [0..<n])"

section \<open>Memory writers\<close>

lemma fold_upd_offsets:
  "k \<le> 2 ^ 64 \<Longrightarrow>
   fold (\<lambda>i m. m((a::uint64) + of_nat i := c)) [0..<k] m = put m a (replicate k c)"
proof (induction k)
  case 0
  then show ?case by simp
next
  case (Suc k)
  have e: "unat (x - a) = k \<longleftrightarrow> x = a + of_nat k" for x
    using Suc.prems by (simp add: unat_diff_eq_iff)
  show ?case
    using Suc by (auto simp: put_def fun_eq_iff e less_Suc_eq nth_append nth_Cons')
qed

lemma memset_put: "memset m dst c n = put m dst (replicate (unat n) c)"
proof -
  have "unat n \<le> 2 ^ 64" using unat_lt_2_32 [of n] by simp
  then show ?thesis by (simp add: memset_def fold_upd_offsets)
qed

lemma copy_down_put:
  assumes "unat s + n < 2 ^ 64" and "unat d + n < 2 ^ 64" and "s \<le> d"
  shows "copy_down n (d + of_nat n) (s + of_nat n) m = put m d (get m s n)"
  using assms
proof (induction n arbitrary: m)
  case 0
  then show ?case by simp
next
  case (Suc n)
  let ?m = "m(d + of_nat n := m (s + of_nat n))"
  have sn: "unat (s + of_nat i) = unat s + i" if "i \<le> n" for i
    using Suc.prems that by (simp add: unat_word_ariths unat_of_nat)
  have dn: "unat (d + of_nat i) = unat d + i" if "i \<le> n" for i
    using Suc.prems that by (simp add: unat_word_ariths unat_of_nat)
  have g: "get ?m s n = get m s n"
  proof (rule get_cong)
    fix i assume i: "i < n"
    have "unat (s + of_nat i) < unat (d + of_nat n)"
      using i Suc.prems by (simp add: sn dn word_le_nat_alt)
    then show "?m (s + of_nat i) = m (s + of_nat i)" by auto
  qed
  have e: "unat (x - d) = n \<longleftrightarrow> x = d + of_nat n" for x
    using Suc.prems by (simp add: unat_diff_eq_iff)
  have "copy_down (Suc n) (d + of_nat (Suc n)) (s + of_nat (Suc n)) m =
          copy_down n (d + of_nat n) (s + of_nat n) ?m"
    by (simp add: algebra_simps)
  also have "\<dots> = put ?m d (get m s n)"
    using Suc by (simp add: g)
  also have "\<dots> = put m d (get m s (Suc n))"
    by (auto simp: put_def fun_eq_iff e less_Suc_eq)
  finally show ?case .
qed

lemma copy_up_put:
  assumes "unat s + n \<le> 2 ^ 64" and "unat d + n \<le> 2 ^ 64"
    and "d \<le> s \<or> unat s + n \<le> unat d"
  shows "copy_up n d s m = put m d (get m s n)"
  using assms
proof (induction n arbitrary: m d s)
  case 0
  then show ?case by simp
next
  case (Suc n)
  let ?m = "m(d := m s)"
  show ?case
  proof (cases "n = 0")
    case True
    have "unat (x - d) = 0 \<longleftrightarrow> x = d" for x
      by (metis diff_eq_eq unat_eq_zero add.left_neutral)
    then show ?thesis using True by (auto simp: put_def fun_eq_iff)
  next
    case False
    have s1: "unat (s + 1) = unat s + 1" and d1: "unat (d + 1) = unat d + 1"
      using Suc.prems False by (simp_all add: unat_word_ariths)
    have IH: "copy_up n (d + 1) (s + 1) ?m = put ?m (d + 1) (get ?m (s + 1) n)"
      using Suc.prems by (intro Suc.IH) (auto simp: s1 d1 word_le_nat_alt)
    have g: "get ?m (s + 1) n = get m (s + 1) n"
    proof (rule get_cong)
      fix i assume i: "i < n"
      have "unat (s + 1 + of_nat i) = unat s + 1 + i"
        using i Suc.prems s1 by (simp add: unat_word_ariths unat_of_nat)
      then have "s + 1 + of_nat i \<noteq> d"
        using i Suc.prems(3) by (auto simp: word_le_nat_alt)
      then show "?m (s + 1 + of_nat i) = m (s + 1 + of_nat i)" by simp
    qed
    have gs: "get m s (Suc n) = m s # get m (s + 1) n"
      by (simp add: get_def upt_conv_Cons map_Suc_upt [symmetric] algebra_simps
          del: upt_Suc)
    have d': "unat (x - d) = Suc (unat (x - (d + 1)))" if "x \<noteq> d" for x
    proof -
      have "x - d \<noteq> 0" using that by simp
      then have "unat (x - d - 1) = unat (x - d) - 1" by (rule unat_minus_one)
      moreover have "0 < unat (x - d)" using \<open>x - d \<noteq> 0\<close> by (simp add: unat_gt_0)
      ultimately show ?thesis by (simp add: algebra_simps)
    qed
    have w: "unat (d - (d + 1)) \<ge> n"
    proof -
      have "unat (- 1 :: uint64) = 2 ^ 64 - 1"
        by (simp add: unsigned_minus_1_eq_mask mask_eq_exp_minus_1)
      then show ?thesis using Suc.prems by simp
    qed
    have "put ?m (d + 1) (get m (s + 1) n) = put m d (get m s (Suc n))"
    proof
      fix x
      show "put ?m (d + 1) (get m (s + 1) n) x = put m d (get m s (Suc n)) x"
        using w d' [of x] by (cases "x = d") (auto simp: put_def gs)
    qed
    then show ?thesis by (simp add: IH g)
  qed
qed

text \<open>
  C29. \<open>memmove\<close> copies correctly whatever the overlap: after it, the destination
  holds the bytes the source range held before, and no other byte of memory has changed. The
  two ranges must not run past the end of the address space.
\<close>

theorem memmove_copies:
  assumes "unat src + unat n < 2 ^ 64" and "unat dst + unat n < 2 ^ 64"
  shows "memmove m dst src n = put m dst (get m src (unat n))"
proof -
  have su: "unat (src + ucast n) = unat src + unat n"
    using assms by (simp add: unat_word_ariths)
  show ?thesis
  proof (cases "src < dst \<and> dst < src + ucast n")
    case True
    then show ?thesis
      using assms copy_down_put [of src "unat n" dst m]
      by (simp add: memmove_def less_imp_le)
  next
    case False
    then have "dst \<le> src \<or> unat src + unat n \<le> unat dst"
      by (auto simp: word_less_nat_alt word_le_nat_alt su)
    then show ?thesis
      using False assms copy_up_put [of src "unat n" dst m] by (auto simp: memmove_def)
  qed
qed

theorem memmove_copies_witness:
  "get (memmove (\<lambda>a. ucast a) 101 100 3) 101 3 = [100, 101, 102]"
proof -
  have "memmove (\<lambda>a. ucast a) 101 100 3 = put (\<lambda>a. ucast a) 101 (get (\<lambda>a. ucast a) 100 (unat (3::uint)))"
    by (rule memmove_copies) simp_all
  then show ?thesis by (simp add: get_put_same) (simp add: get_def upt_rec)
qed

lemma memcpy_eq_memmove: "memcpy = memmove"
  by (simp add: fun_eq_iff memcpy_def)

section \<open>Comparison\<close>

lemma memcmp_loop_0_iff: "memcmp_loop n s t = 0 \<longleftrightarrow> (\<forall>i<n. s i = t i)"
proof (induction n arbitrary: s t)
  case 0
  then show ?case by simp
next
  case (Suc n)
  show ?case
    by (cases "s 0 = t 0") (auto simp: Suc.IH All_less_Suc2 word_uint_eq_iff [symmetric])
qed

lemma memcmp_loop_first_difference:
  assumes "\<forall>j<i. s j = t j" and "s i \<noteq> t i" and "i < n"
  shows "memcmp_loop n s t = uint (s i) - uint (t i)"
  using assms
proof (induction n arbitrary: s t i)
  case 0
  then show ?case by simp
next
  case (Suc n)
  show ?case
  proof (cases i)
    case 0
    then show ?thesis using Suc.prems by simp
  next
    case (Suc k)
    have "s 0 = t 0" using Suc.prems \<open>i = Suc k\<close> by blast
    moreover have "memcmp_loop n (\<lambda>i. s (Suc i)) (\<lambda>i. t (Suc i)) = uint (s (Suc k)) - uint (t (Suc k))"
      using Suc.prems Suc by (intro Suc.IH) auto
    ultimately show ?thesis using Suc by simp
  qed
qed

lemma cstr_0 [simp]: "cstr 0 p = []"
  by (simp add: cstr_def)

lemma cstr_Suc:
  "cstr (Suc n) p = (if p 0 = 0 then [] else p 0 # cstr n (\<lambda>i. p (Suc i)))"
  by (simp add: cstr_def upt_conv_Cons map_Suc_upt [symmetric] comp_def del: upt_Suc)

text \<open>
  C31. \<open>strncmp\<close> returns 0 exactly when the two arrays hold the same C string within
  their first \<open>n\<close> bytes; this is the equality of file names that \<open>namecmp\<close> uses.
\<close>

theorem strncmp_eq_0_iff:
  "strncmp p q n = 0 \<longleftrightarrow> cstr (unat n) p = cstr (unat n) q"
proof -
  have "strncmp_loop k p q = 0 \<longleftrightarrow> cstr k p = cstr k q" for k
  proof (induction k arbitrary: p q)
    case 0
    then show ?case by simp
  next
    case (Suc k)
    then show ?case by (auto simp: cstr_Suc word_uint_eq_iff [symmetric] uint_0_iff)
  qed
  then show ?thesis by (simp add: strncmp_def)
qed

section \<open>String copies\<close>

lemma zero_fill_eq: "zero_fill n i s = (\<lambda>j. if i \<le> j \<and> j < i + n then 0 else s j)"
proof (induction n arbitrary: i s)
  case 0
  then show ?case by (auto simp: fun_eq_iff)
next
  case (Suc n)
  then show ?case by (auto simp: fun_eq_iff)
qed

lemma strncpy_loop_eq:
  "strncpy_loop n i s t =
     (\<lambda>j. if i \<le> j \<and> j < i + n then (if \<exists>k. i \<le> k \<and> k < j \<and> t k = 0 then 0 else t j) else s j)"
proof (induction n arbitrary: i s)
  case 0
  then show ?case by (auto simp: fun_eq_iff)
next
  case (Suc n)
  show ?case
  proof (cases "t i = 0")
    case True
    then show ?thesis by (auto simp: zero_fill_eq fun_eq_iff)
  next
    case False
    have "(\<exists>k. Suc i \<le> k \<and> k < j \<and> t k = 0) \<longleftrightarrow> (\<exists>k. i \<le> k \<and> k < j \<and> t k = 0)" for j
      using False by (metis Suc_leD le_antisym not_less_eq_eq)
    then show ?thesis using False by (auto simp: Suc.IH fun_eq_iff)
  qed
qed

text \<open>
  C30. \<open>strncpy\<close> writes exactly the first \<open>n\<close> bytes: the string up to its NUL,
  then zeros. A copied name therefore holds the same string within \<open>n\<close> bytes, which is
  what a later \<open>strncmp\<close> compares.
\<close>

theorem strncpy_spec:
  "strncpy s t n =
     (\<lambda>j. if j < nat n then (if \<exists>k<j. t k = 0 then 0 else t j) else s j)
   \<and> cstr (nat n) (strncpy s t n) = cstr (nat n) t"
proof
  show e: "strncpy s t n = (\<lambda>j. if j < nat n then (if \<exists>k<j. t k = 0 then 0 else t j) else s j)"
    by (auto simp: strncpy_def strncpy_loop_eq fun_eq_iff)
  have "cstr k (\<lambda>j. if j < m then (if \<exists>k<j. t k = 0 then 0 else t j) else s j) = cstr k t"
    if "k \<le> m" for k m and s t :: cptr
    using that
  proof (induction k arbitrary: m s t)
    case 0
    then show ?case by simp
  next
    case (Suc k)
    then obtain m' where m: "m = Suc m'" "k \<le> m'" by (cases m) auto
    show ?case
    proof (cases "t 0 = 0")
      case True
      then show ?thesis using m by (simp add: cstr_Suc)
    next
      case False
      have "(\<exists>k<Suc i. t k = 0) \<longleftrightarrow> (\<exists>k<i. t (Suc k) = 0)" for i
        using False by (simp add: Ex_less_Suc2)
      then show ?thesis
        using False m Suc.IH [of m' "\<lambda>i. t (Suc i)" "\<lambda>i. s (Suc i)"]
        by (simp add: cstr_Suc cong: if_cong)
    qed
  qed
  then show "cstr (nat n) (strncpy s t n) = cstr (nat n) t"
    unfolding e by blast
qed

lemma safestrcpy_loop_eq:
  "cstr (Suc n) (\<lambda>j. safestrcpy_loop n i s t (i + j)) = cstr n (\<lambda>j. t (i + j))
   \<and> (\<exists>j\<le>n. safestrcpy_loop n i s t (i + j) = 0)
   \<and> (\<forall>j. j < i \<or> i + n < j \<longrightarrow> safestrcpy_loop n i s t j = s j)"
proof (induction n arbitrary: i s)
  case 0
  then show ?case by (simp add: cstr_Suc)
next
  case (Suc n)
  show ?case
  proof (cases "t i = 0")
    case True
    then show ?thesis by (auto simp: cstr_Suc)
  next
    case False
    let ?r = "safestrcpy_loop n (Suc i) (s(i := t i)) t"
    have IH: "cstr (Suc n) (\<lambda>j. ?r (Suc i + j)) = cstr n (\<lambda>j. t (Suc i + j))"
        "\<exists>j\<le>n. ?r (Suc i + j) = 0" "\<And>j. j < Suc i \<or> Suc i + n < j \<Longrightarrow> ?r j = (s(i := t i)) j"
      using Suc.IH [of "Suc i" "s(i := t i)"] by blast+
    have ri: "?r i = t i" using IH(3) [of i] by simp
    have "cstr (Suc (Suc n)) (\<lambda>j. ?r (i + j)) = cstr (Suc n) (\<lambda>j. t (i + j))"
      using IH(1) False by (simp add: cstr_Suc [of "Suc n"] cstr_Suc [of n "\<lambda>j. t (i + j)"] ri)
    moreover have "\<exists>j\<le>Suc n. ?r (i + j) = 0" using IH(2) by (metis Suc_le_mono add_Suc_shift)
    moreover have "\<forall>j. j < i \<or> i + Suc n < j \<longrightarrow> ?r j = s j"
    proof (intro allI impI)
      fix j assume j: "j < i \<or> i + Suc n < j"
      then have "?r j = (s(i := t i)) j" by (intro IH(3)) auto
      then show "?r j = s j" using j by auto
    qed
    ultimately show ?thesis using False by simp
  qed
qed

text \<open>
  C32. \<open>safestrcpy\<close> always NUL-terminates: for a positive \<open>n\<close> the destination
  holds a terminated string, the source string cut to \<open>n - 1\<close> bytes, and nothing past
  its first \<open>n\<close> bytes is written.
\<close>

theorem safestrcpy_terminates:
  assumes "0 < n"
  shows "(\<exists>j<nat n. safestrcpy s t n j = 0)
    \<and> cstr (nat n) (safestrcpy s t n) = cstr (nat n - 1) t
    \<and> (\<forall>j\<ge>nat n. safestrcpy s t n j = s j)"
proof -
  obtain k where k: "nat n = Suc k" using assms by (cases "nat n") auto
  then have "safestrcpy s t n = safestrcpy_loop k 0 s t" using assms by (simp add: safestrcpy_def)
  then show ?thesis
    using safestrcpy_loop_eq [of k 0 s t] k by (auto simp: less_Suc_eq_le)
qed

theorem safestrcpy_terminates_witness:
  "\<exists>j<nat 4. safestrcpy (\<lambda>_. 9) (arr [65, 66, 67, 68, 69]) 4 j = 0"
  using safestrcpy_terminates [of 4 "\<lambda>_. 9" "arr [65, 66, 67, 68, 69]"] by simp

section \<open>Length\<close>

lemma strlen_from_first_nul:
  "s (n + k) = 0 \<Longrightarrow> \<forall>j<k. s (n + j) \<noteq> 0 \<Longrightarrow> strlen_from s n = Some (n + k)"
proof (induction k arbitrary: n)
  case 0
  then show ?case by (subst strlen_from.simps) simp
next
  case (Suc k)
  have "s n \<noteq> 0" using Suc.prems(2) by (metis add.right_neutral zero_less_Suc)
  moreover have "strlen_from s (Suc n) = Some (Suc n + k)"
    using Suc.prems by (intro Suc.IH) auto
  ultimately show ?case by (subst strlen_from.simps) simp
qed

lemma strlen_eq: "k < n \<Longrightarrow> s k = 0 \<Longrightarrow> strlen s = Some (length (cstr n s))"
proof -
  assume k: "k < n" "s k = 0"
  define l where "l = (LEAST i. s i = 0)"
  have l: "s l = 0" "l \<le> k" and less: "\<And>j. j < l \<Longrightarrow> s j \<noteq> 0"
    using k by (auto simp: l_def intro: LeastI Least_le dest: not_less_Least)
  have "cstr n s = map s [0..<l]"
  proof -
    have "map s [0..<n] = map s [0..<l] @ s l # map s [Suc l..<n]"
      using l(2) k(1) by (metis (no_types, lifting) le_less_trans list.simps(9) map_append upt_add_eq_append
          upt_conv_Cons le0 less_imp_le le_add_diff_inverse add.commute)
    moreover have "takeWhile (\<lambda>b. b \<noteq> 0) (map s [0..<l] @ ys) = map s [0..<l] @ takeWhile (\<lambda>b. b \<noteq> 0) ys" for ys
      using less by (intro takeWhile_append2) auto
    ultimately show ?thesis using l(1) by (simp add: cstr_def)
  qed
  then show ?thesis
    using strlen_from_first_nul [of s 0 l] l less by (simp add: strlen_def)
qed

end
