(* ===== verification/Spinlock.thy ===== *)
theory Spinlock
  imports Prelude
begin

text \<open>
  Spin locks and interrupt nesting, \<open>kernel/spinlock.c\<close>, with the per-CPU state of
  \<open>kernel/proc.h\<close>. First the operations as one CPU runs them with no other CPU moving
  (what every other theory calls), then the same code split at its atomic instructions and
  interleaved over all CPUs, for which mutual exclusion is proved.

  \<open>struct cpu *\<close> is the index of the CPU, as \<open>mycpu()\<close> computes it from
  \<open>tp\<close>; the null pointer is \<open>None\<close>. Each lock of the kernel has a name of the
  type \<open>lockid\<close>, one constructor per \<open>struct spinlock\<close> variable or field.
\<close>

section \<open>State\<close>

datatype slid = BufLock nat | InodeLock nat

datatype lockid =
    Kmem | Pid_lock | Wait_lock | Proc_lock nat | Bcache_lock | Log_lock | Itable_lock
  | Ftable_lock | Pipe_lock uint64 | Cons_lock | Uart_tx_lock | Tickslock | Vdisk_lock
  | Sleep_lk slid | Pr_lock

record spinlock =
  locked :: bool
  lk_name :: string
  lk_cpu :: "nat option"

record cpu =
  c_proc :: "nat option"
  noff :: int
  intena :: bool

record mach =
  hart :: nat
  sie :: "nat \<Rightarrow> bool"
  cpus :: "nat \<Rightarrow> cpu"
  locks :: "lockid \<Rightarrow> spinlock"

section \<open>Operations\<close>

definition intr_get :: "'a mach_scheme \<Rightarrow> bool" where
  "intr_get s = sie s (hart s)"

definition intr_on :: "'a mach_scheme \<Rightarrow> 'a mach_scheme" where
  "intr_on s = s\<lparr>sie := (sie s)(hart s := True)\<rparr>"

definition intr_off :: "'a mach_scheme \<Rightarrow> 'a mach_scheme" where
  "intr_off s = s\<lparr>sie := (sie s)(hart s := False)\<rparr>"

definition cpuid :: "'a mach_scheme \<Rightarrow> nat" where
  "cpuid s = hart s"

definition mycpu :: "'a mach_scheme \<Rightarrow> cpu" where
  "mycpu s = cpus s (cpuid s)"

definition upd_cpu :: "(cpu \<Rightarrow> cpu) \<Rightarrow> 'a mach_scheme \<Rightarrow> 'a mach_scheme" where
  "upd_cpu f s = s\<lparr>cpus := (cpus s)(cpuid s := f (mycpu s))\<rparr>"

definition upd_lock :: "lockid \<Rightarrow> (spinlock \<Rightarrow> spinlock) \<Rightarrow> 'a mach_scheme \<Rightarrow> 'a mach_scheme" where
  "upd_lock lk f s = s\<lparr>locks := (locks s)(lk := f (locks s lk))\<rparr>"

definition initlock :: "lockid \<Rightarrow> string \<Rightarrow> 'a mach_scheme \<Rightarrow> 'a mach_scheme" where
  "initlock lk nm s = upd_lock lk (\<lambda>_. \<lparr>locked = False, lk_name = nm, lk_cpu = None\<rparr>) s"

definition holding :: "lockid \<Rightarrow> 'a mach_scheme \<Rightarrow> bool" where
  "holding lk s \<longleftrightarrow> locked (locks s lk) \<and> lk_cpu (locks s lk) = Some (cpuid s)"

definition push_off :: "'a mach_scheme \<Rightarrow> 'a mach_scheme" where
  "push_off s =
     (let old = intr_get s;
          s = intr_off s;
          s = (if noff (mycpu s) = 0 then upd_cpu (\<lambda>c. c\<lparr>intena := old\<rparr>) s else s)
      in upd_cpu (\<lambda>c. c\<lparr>noff := noff c + 1\<rparr>) s)"

definition pop_off :: "'a mach_scheme \<Rightarrow> ('a mach_scheme, unit) res" where
  "pop_off s =
     (if intr_get s then Panic ''pop_off - interruptible''
      else if noff (mycpu s) < 1 then Panic ''pop_off''
      else
        let s = upd_cpu (\<lambda>c. c\<lparr>noff := noff c - 1\<rparr>) s
        in Ret () (if noff (mycpu s) = 0 \<and> intena (mycpu s) then intr_on s else s))"

text \<open>
  \<open>__sync_lock_test_and_set\<close> and \<open>__sync_lock_release\<close>: the atomic swaps.
\<close>

definition test_and_set :: "lockid \<Rightarrow> 'a mach_scheme \<Rightarrow> bool \<times> 'a mach_scheme" where
  "test_and_set lk s = (locked (locks s lk), upd_lock lk (\<lambda>l. l\<lparr>locked := True\<rparr>) s)"

definition lock_release :: "lockid \<Rightarrow> 'a mach_scheme \<Rightarrow> 'a mach_scheme" where
  "lock_release lk s = upd_lock lk (\<lambda>l. l\<lparr>locked := False\<rparr>) s"

definition acquire :: "lockid \<Rightarrow> 'a mach_scheme \<Rightarrow> ('a mach_scheme, unit) res" where
  "acquire lk s =
     (let s = push_off s
      in if holding lk s then Panic ''acquire''
         else case test_and_set lk s of (old, s) \<Rightarrow>
           if old then Spins
           else Ret () (upd_lock lk (\<lambda>l. l\<lparr>lk_cpu := Some (cpuid s)\<rparr>) s))"

definition release :: "lockid \<Rightarrow> 'a mach_scheme \<Rightarrow> ('a mach_scheme, unit) res" where
  "release lk s =
     (if \<not> holding lk s then Panic ''release''
      else pop_off (lock_release lk (upd_lock lk (\<lambda>l. l\<lparr>lk_cpu := None\<rparr>) s)))"

section \<open>Critical sections as one CPU runs them\<close>

text \<open>
  What the operations do to the machine fields, as functions of those fields alone: then the
  lemmas below apply to the state of every component, whatever it adds to the machine.
\<close>

definition cpus_ok :: "nat \<Rightarrow> (nat \<Rightarrow> bool) \<Rightarrow> (nat \<Rightarrow> cpu) \<Rightarrow> bool" where
  "cpus_ok h e c \<longleftrightarrow> 0 \<le> noff (c h) \<and> (0 < noff (c h) \<longrightarrow> \<not> e h)"

definition free_lock :: "lockid \<Rightarrow> (lockid \<Rightarrow> spinlock) \<Rightarrow> bool" where
  "free_lock lk L \<longleftrightarrow> \<not> locked (L lk) \<and> lk_cpu (L lk) = None"

definition enter_cpus :: "nat \<Rightarrow> (nat \<Rightarrow> bool) \<Rightarrow> (nat \<Rightarrow> cpu) \<Rightarrow> nat \<Rightarrow> cpu" where
  "enter_cpus h e c =
     c(h := (c h)\<lparr>intena := if noff (c h) = 0 then e h else intena (c h), noff := noff (c h) + 1\<rparr>)"

definition leave_cpus :: "nat \<Rightarrow> (nat \<Rightarrow> cpu) \<Rightarrow> nat \<Rightarrow> cpu" where
  "leave_cpus h c = c(h := (c h)\<lparr>noff := noff (c h) - 1\<rparr>)"

definition leave_sie :: "nat \<Rightarrow> (nat \<Rightarrow> bool) \<Rightarrow> (nat \<Rightarrow> cpu) \<Rightarrow> nat \<Rightarrow> bool" where
  "leave_sie h e c = (if noff (c h) = 1 \<and> intena (c h) then e(h := True) else e)"

definition settle_cpus :: "nat \<Rightarrow> (nat \<Rightarrow> bool) \<Rightarrow> (nat \<Rightarrow> cpu) \<Rightarrow> nat \<Rightarrow> cpu" where
  "settle_cpus h e c = (if noff (c h) = 0 then c(h := (c h)\<lparr>intena := e h\<rparr>) else c)"

definition take_lock :: "lockid \<Rightarrow> nat \<Rightarrow> (lockid \<Rightarrow> spinlock) \<Rightarrow> lockid \<Rightarrow> spinlock" where
  "take_lock lk h L = L(lk := (L lk)\<lparr>locked := True, lk_cpu := Some h\<rparr>)"

definition drop_lock :: "lockid \<Rightarrow> (lockid \<Rightarrow> spinlock) \<Rightarrow> lockid \<Rightarrow> spinlock" where
  "drop_lock lk L = L(lk := (L lk)\<lparr>lk_cpu := None, locked := False\<rparr>)"

abbreviation cpu_ok :: "'a mach_scheme \<Rightarrow> bool" where
  "cpu_ok s \<equiv> cpus_ok (hart s) (sie s) (cpus s)"

abbreviation lock_free :: "lockid \<Rightarrow> 'a mach_scheme \<Rightarrow> bool" where
  "lock_free lk s \<equiv> free_lock lk (locks s)"

text \<open>
  The trace that a balanced acquire and release leaves: at depth 0 the CPU has recorded its
  interrupt flag in \<open>intena\<close>.
\<close>

abbreviation settle :: "'a mach_scheme \<Rightarrow> 'a mach_scheme" where
  "settle s \<equiv> s\<lparr>cpus := settle_cpus (hart s) (sie s) (cpus s)\<rparr>"

lemmas mach_defs = intr_get_def intr_on_def intr_off_def cpuid_def mycpu_def upd_cpu_def upd_lock_def

lemma push_off_eq:
  "push_off s = s\<lparr>sie := (sie s)(hart s := False), cpus := enter_cpus (hart s) (sie s) (cpus s)\<rparr>"
  by (simp add: push_off_def mach_defs enter_cpus_def Let_def)

lemma pop_off_ok:
  "\<not> sie s (hart s) \<Longrightarrow> 1 \<le> noff (cpus s (hart s)) \<Longrightarrow>
   pop_off s = Ret () (s\<lparr>sie := leave_sie (hart s) (sie s) (cpus s), cpus := leave_cpus (hart s) (cpus s)\<rparr>)"
  by (simp add: pop_off_def mach_defs leave_sie_def leave_cpus_def Let_def)

lemma acquire_free [lock_simps]:
  "free_lock lk (locks s) \<Longrightarrow> acquire lk s =
     Ret () (s\<lparr>sie := (sie s)(hart s := False), cpus := enter_cpus (hart s) (sie s) (cpus s),
               locks := take_lock lk (hart s) (locks s)\<rparr>)"
  by (simp add: acquire_def push_off_eq free_lock_def holding_def test_and_set_def take_lock_def
      mach_defs)

lemma acquire_held_here: "holding lk s \<Longrightarrow> acquire lk s = Panic ''acquire''"
  by (simp add: acquire_def push_off_eq holding_def mach_defs)

lemma acquire_held_elsewhere:
  "locked (locks s lk) \<Longrightarrow> lk_cpu (locks s lk) \<noteq> Some (hart s) \<Longrightarrow> acquire lk s = Spins"
  by (simp add: acquire_def push_off_eq holding_def test_and_set_def mach_defs)

lemma release_held [lock_simps]:
  "locked (locks s lk) \<Longrightarrow> lk_cpu (locks s lk) = Some (hart s) \<Longrightarrow>
   \<not> sie s (hart s) \<Longrightarrow> 1 \<le> noff (cpus s (hart s)) \<Longrightarrow> release lk s =
     Ret () (s\<lparr>sie := leave_sie (hart s) (sie s) (cpus s), cpus := leave_cpus (hart s) (cpus s),
               locks := drop_lock lk (locks s)\<rparr>)"
  by (simp add: release_def holding_def lock_release_def pop_off_def leave_sie_def leave_cpus_def
      drop_lock_def mach_defs Let_def)

lemma release_not_held: "\<not> holding lk s \<Longrightarrow> release lk s = Panic ''release''"
  by (simp add: release_def)

lemma locked_take_lock [lock_simps]: "locked (take_lock lk h L lk') \<longleftrightarrow> lk' = lk \<or> locked (L lk')"
  by (simp add: take_lock_def)

lemma lk_cpu_take_lock [lock_simps]: "lk_cpu (take_lock lk h L lk') = (if lk' = lk then Some h else lk_cpu (L lk'))"
  by (simp add: take_lock_def)

lemma free_take_lock [lock_simps]: "free_lock l (take_lock lk h L) \<longleftrightarrow> l \<noteq> lk \<and> free_lock l L"
  by (auto simp: take_lock_def free_lock_def)

lemma drop_take_lock [lock_simps]: "free_lock lk L \<Longrightarrow> drop_lock lk (take_lock lk h L) = L"
  by (auto simp: take_lock_def drop_lock_def free_lock_def fun_eq_iff)

lemma drop_take_lock_other [lock_simps]:
  "l \<noteq> lk \<Longrightarrow> drop_lock l (take_lock lk h (take_lock l h L)) = take_lock lk h (drop_lock l (take_lock l h L))"
  by (auto simp: take_lock_def drop_lock_def fun_eq_iff)

lemma free_drop_lock [lock_simps]: "free_lock l (drop_lock lk L) \<longleftrightarrow> l = lk \<or> free_lock l L"
  by (auto simp: drop_lock_def free_lock_def)

lemma noff_enter [lock_simps]: "noff (enter_cpus h e c i) = (if i = h then noff (c i) + 1 else noff (c i))"
  by (simp add: enter_cpus_def)

lemma noff_leave [lock_simps]: "noff (leave_cpus h c i) = (if i = h then noff (c i) - 1 else noff (c i))"
  by (simp add: leave_cpus_def)

lemma leave_sie_apply:
  "leave_sie h e c i \<longleftrightarrow> (if i = h then noff (c h) = 1 \<and> intena (c h) \<or> e h else e i)"
  by (auto simp: leave_sie_def)

lemma noff_settle [lock_simps]: "noff (settle_cpus h e c i) = noff (c i)"
  by (simp add: settle_cpus_def)

lemma c_proc_lock_simps [lock_simps]:
  "c_proc (enter_cpus h e c i) = c_proc (c i)"
  "c_proc (leave_cpus h c i) = c_proc (c i)"
  "c_proc (settle_cpus h e c i) = c_proc (c i)"
  by (simp_all add: enter_cpus_def leave_cpus_def settle_cpus_def)

lemma leave_enter_cpus [lock_simps]: "leave_cpus h (enter_cpus h e c) = settle_cpus h e c"
  by (auto simp: leave_cpus_def enter_cpus_def settle_cpus_def fun_eq_iff)

lemma leave_sie_enter [lock_simps]:
  "cpus_ok h e c \<Longrightarrow> leave_sie h (e(h := False)) (enter_cpus h e c) = e"
  by (auto simp: leave_sie_def enter_cpus_def cpus_ok_def fun_eq_iff)

lemma cpus_ok_enter [lock_simps]: "cpus_ok h e c \<Longrightarrow> cpus_ok h (e(h := False)) (enter_cpus h e c)"
  by (auto simp: cpus_ok_def enter_cpus_def)

lemma cpus_ok_settle [lock_simps]: "cpus_ok h e (settle_cpus h e c) = cpus_ok h e c"
  by (auto simp: cpus_ok_def settle_cpus_def)

lemma settle_settle [lock_simps]: "settle_cpus h e (settle_cpus h e c) = settle_cpus h e c"
  by (auto simp: settle_cpus_def)

lemma settle_enter [lock_simps]: "cpus_ok h e c \<Longrightarrow> settle_cpus h e' (enter_cpus h e c) = enter_cpus h e c"
  by (auto simp: settle_cpus_def enter_cpus_def cpus_ok_def)

lemma enter_settle [lock_simps]: "enter_cpus h e (settle_cpus h e c) = enter_cpus h e c"
  by (auto simp: settle_cpus_def enter_cpus_def fun_eq_iff)

lemma cpus_okD [lock_simps]: "cpus_ok h e c \<Longrightarrow> 0 \<le> noff (c h)"
  by (simp add: cpus_ok_def)


definition boot_mach :: mach where
  "boot_mach =
     \<lparr>hart = 0, sie = (\<lambda>_. True), cpus = (\<lambda>_. \<lparr>c_proc = None, noff = 0, intena = False\<rparr>),
      locks = (\<lambda>_. \<lparr>locked = False, lk_name = [], lk_cpu = None\<rparr>)\<rparr>"


section \<open>All CPUs interleaved\<close>

text \<open>
  Where a CPU is in \<open>acquire\<close> or \<open>release\<close>, between two accesses to the shared
  lock word: spinning on the atomic swap; past the swap and before \<open>lk->cpu = mycpu()\<close>;
  past \<open>lk->cpu = 0\<close> and before the releasing swap; past that swap and before
  \<open>pop_off()\<close>; or in other kernel code.
\<close>

datatype lkpc = Run | Spin lockid | Took lockid | Cleared lockid | Unlocked

text \<open>
  The machine with the position of every CPU and two ghosts: the locks each CPU is in the
  critical section of (its \<open>acquire\<close> returned and its \<open>release\<close> has not begun), and
  how many bare \<open>push_off\<close> calls it has pending.
\<close>

record smp = mach +
  pcs :: "nat \<Rightarrow> lkpc"
  held :: "nat \<Rightarrow> lockid set"
  pushed :: "nat \<Rightarrow> nat"

inductive smp_step :: "smp \<Rightarrow> smp \<Rightarrow> bool" where
  acquire_begin: "pcs s h = Run \<Longrightarrow> t = push_off (s\<lparr>hart := h\<rparr>) \<Longrightarrow> \<not> holding lk t \<Longrightarrow>
    smp_step s (t\<lparr>pcs := (pcs s)(h := Spin lk)\<rparr>)"
| acquire_spin: "pcs s h = Spin lk \<Longrightarrow> test_and_set lk (s\<lparr>hart := h\<rparr>) = (True, t) \<Longrightarrow> smp_step s t"
| acquire_take: "pcs s h = Spin lk \<Longrightarrow> test_and_set lk (s\<lparr>hart := h\<rparr>) = (False, t) \<Longrightarrow>
    smp_step s (t\<lparr>pcs := (pcs s)(h := Took lk)\<rparr>)"
| acquire_end: "pcs s h = Took lk \<Longrightarrow> t = upd_lock lk (\<lambda>l. l\<lparr>lk_cpu := Some h\<rparr>) (s\<lparr>hart := h\<rparr>) \<Longrightarrow>
    smp_step s (t\<lparr>pcs := (pcs s)(h := Run), held := (held s)(h := insert lk (held s h))\<rparr>)"
| release_begin: "pcs s h = Run \<Longrightarrow> holding lk (s\<lparr>hart := h\<rparr>) \<Longrightarrow>
    t = upd_lock lk (\<lambda>l. l\<lparr>lk_cpu := None\<rparr>) (s\<lparr>hart := h\<rparr>) \<Longrightarrow>
    smp_step s (t\<lparr>pcs := (pcs s)(h := Cleared lk), held := (held s)(h := held s h - {lk})\<rparr>)"
| release_swap: "pcs s h = Cleared lk \<Longrightarrow> t = lock_release lk (s\<lparr>hart := h\<rparr>) \<Longrightarrow>
    smp_step s (t\<lparr>pcs := (pcs s)(h := Unlocked)\<rparr>)"
| release_end: "pcs s h = Unlocked \<Longrightarrow> pop_off (s\<lparr>hart := h\<rparr>) = Ret () t \<Longrightarrow>
    smp_step s (t\<lparr>pcs := (pcs s)(h := Run)\<rparr>)"
| push: "pcs s h = Run \<Longrightarrow> t = push_off (s\<lparr>hart := h\<rparr>) \<Longrightarrow>
    smp_step s (t\<lparr>pushed := (pushed s)(h := pushed s h + 1)\<rparr>)"
| pop: "pcs s h = Run \<Longrightarrow> 0 < pushed s h \<Longrightarrow> pop_off (s\<lparr>hart := h\<rparr>) = Ret () t \<Longrightarrow>
    smp_step s (t\<lparr>pushed := (pushed s)(h := pushed s h - 1)\<rparr>)"
| interrupts_on: "pcs s h = Run \<Longrightarrow> noff (cpus s h) = 0 \<Longrightarrow> smp_step s (intr_on (s\<lparr>hart := h\<rparr>))"
| interrupts_off: "pcs s h = Run \<Longrightarrow> noff (cpus s h) = 0 \<Longrightarrow> smp_step s (intr_off (s\<lparr>hart := h\<rparr>))"

definition smp_boot :: smp where
  "smp_boot = \<lparr>hart = 0, sie = (\<lambda>_. False), cpus = (\<lambda>_. \<lparr>c_proc = None, noff = 0, intena = False\<rparr>),
     locks = (\<lambda>_. \<lparr>locked = False, lk_name = [], lk_cpu = None\<rparr>),
     pcs = (\<lambda>_. Run), held = (\<lambda>_. {}), pushed = (\<lambda>_. 0)\<rparr>"

inductive smp_reachable :: "smp \<Rightarrow> bool" where
  boot: "smp_reachable smp_boot"
| step: "smp_reachable s \<Longrightarrow> smp_step s t \<Longrightarrow> smp_reachable t"

text \<open>
  The invariant: the lock words agree with the positions of the CPUs, and the nesting depth
  counts exactly the critical sections, pending pushes and the lock routine in progress.
\<close>

definition owner_inv :: "smp \<Rightarrow> bool" where
  "owner_inv s \<longleftrightarrow> (\<forall>h lk. lk \<in> held s h \<longleftrightarrow> locked (locks s lk) \<and> lk_cpu (locks s lk) = Some h)"

fun transit :: "lkpc \<Rightarrow> lockid option" where
  "transit (Took lk) = Some lk"
| "transit (Cleared lk) = Some lk"
| "transit _ = None"

definition transit_inv :: "smp \<Rightarrow> bool" where
  "transit_inv s \<longleftrightarrow> (\<forall>h lk. transit (pcs s h) = Some lk \<longrightarrow>
     locked (locks s lk) \<and> lk_cpu (locks s lk) = None
     \<and> (\<forall>h'. transit (pcs s h') = Some lk \<longrightarrow> h' = h))"

definition unlocked_inv :: "smp \<Rightarrow> bool" where
  "unlocked_inv s \<longleftrightarrow> (\<forall>lk. \<not> locked (locks s lk) \<longrightarrow> lk_cpu (locks s lk) = None)"

definition depth_inv :: "smp \<Rightarrow> bool" where
  "depth_inv s \<longleftrightarrow> (\<forall>h. finite (held s h)
     \<and> noff (cpus s h) = int (card (held s h)) + int (pushed s h) + (if pcs s h = Run then 0 else 1)
     \<and> (0 < noff (cpus s h) \<longrightarrow> \<not> sie s h))"

definition smp_inv :: "smp \<Rightarrow> bool" where
  "smp_inv s \<longleftrightarrow> owner_inv s \<and> transit_inv s \<and> unlocked_inv s \<and> depth_inv s"

lemmas smp_defs = holding_def test_and_set_def lock_release_def mach_defs push_off_eq

lemma pop_off_RetD:
  "pop_off s = Ret () t \<Longrightarrow> t = s\<lparr>sie := leave_sie (hart s) (sie s) (cpus s), cpus := leave_cpus (hart s) (cpus s)\<rparr>"
  by (auto simp: pop_off_def mach_defs leave_sie_def leave_cpus_def Let_def split: if_splits)

lemma smp_inv_boot: "smp_inv smp_boot"
  by (simp add: smp_inv_def owner_inv_def transit_inv_def unlocked_inv_def depth_inv_def smp_boot_def)

lemma owner_inv_step:
  assumes "smp_step s t" and "smp_inv s"
  shows "owner_inv t"
proof -
  have O: "lk \<in> held s h \<longleftrightarrow> locked (locks s lk) \<and> lk_cpu (locks s lk) = Some h" for h lk
    using assms(2) by (simp add: smp_inv_def owner_inv_def)
  have T: "transit (pcs s h) = Some lk \<Longrightarrow> locked (locks s lk) \<and> lk_cpu (locks s lk) = None" for h lk
    using assms(2) unfolding smp_inv_def transit_inv_def by blast
  have T1: "pcs s h = Took lk \<Longrightarrow> locked (locks s lk) \<and> lk_cpu (locks s lk) = None"
      "pcs s h = Cleared lk \<Longrightarrow> locked (locks s lk) \<and> lk_cpu (locks s lk) = None" for h lk
    using T [of h lk] by simp_all
  have U: "\<not> locked (locks s lk) \<Longrightarrow> lk_cpu (locks s lk) = None" for lk
    using assms(2) by (simp add: smp_inv_def unlocked_inv_def)
  show ?thesis
    using assms(1) by cases (auto simp: owner_inv_def smp_defs O dest!: pop_off_RetD dest: T1 U split: if_splits)
qed

lemma transit_inv_step:
  assumes "smp_step s t" and "smp_inv s"
  shows "transit_inv t"
proof -
  have T: "transit (pcs s h) = Some lk \<Longrightarrow> locked (locks s lk) \<and> lk_cpu (locks s lk) = None" for h lk
    using assms(2) unfolding smp_inv_def transit_inv_def by blast
  have T2: "transit (pcs s h) = Some lk \<Longrightarrow> transit (pcs s h') = Some lk \<Longrightarrow> h' = h" for h h' lk
    using assms(2) unfolding smp_inv_def transit_inv_def by blast
  have T1: "pcs s h = Took lk \<Longrightarrow> locked (locks s lk) \<and> lk_cpu (locks s lk) = None"
      "pcs s h = Cleared lk \<Longrightarrow> locked (locks s lk) \<and> lk_cpu (locks s lk) = None" for h lk
    using T [of h lk] by simp_all
  have U: "\<not> locked (locks s lk) \<Longrightarrow> lk_cpu (locks s lk) = None" for lk
    using assms(2) by (simp add: smp_inv_def unlocked_inv_def)
  have T3: "pcs s h = Took lk \<Longrightarrow> transit (pcs s h') = Some lk \<Longrightarrow> h' = h"
      "pcs s h = Cleared lk \<Longrightarrow> transit (pcs s h') = Some lk \<Longrightarrow> h' = h" for h h' lk
    using T2 [of h lk h'] by simp_all
  show ?thesis
    using assms(1) by cases (auto simp: transit_inv_def smp_defs dest!: pop_off_RetD dest: T T1 T2 T3 U split: if_splits)
qed

lemma unlocked_inv_step:
  assumes "smp_step s t" and "smp_inv s"
  shows "unlocked_inv t"
proof -
  have T: "transit (pcs s h) = Some lk \<Longrightarrow> locked (locks s lk) \<and> lk_cpu (locks s lk) = None" for h lk
    using assms(2) unfolding smp_inv_def transit_inv_def by blast
  have T1: "pcs s h = Took lk \<Longrightarrow> locked (locks s lk) \<and> lk_cpu (locks s lk) = None"
      "pcs s h = Cleared lk \<Longrightarrow> locked (locks s lk) \<and> lk_cpu (locks s lk) = None" for h lk
    using T [of h lk] by simp_all
  have U: "\<not> locked (locks s lk) \<Longrightarrow> lk_cpu (locks s lk) = None" for lk
    using assms(2) by (simp add: smp_inv_def unlocked_inv_def)
  show ?thesis
    using assms(1) by cases (auto simp: unlocked_inv_def smp_defs dest!: pop_off_RetD dest: T1 U split: if_splits)
qed

lemma depth_inv_step: "smp_step s t \<Longrightarrow> smp_inv s \<Longrightarrow> depth_inv t"
proof (induction rule: smp_step.induct)
  case (acquire_end s h lk t)
  then have "transit (pcs s h) = Some lk" by simp
  then have "lk_cpu (locks s lk) = None"
    using acquire_end.prems unfolding smp_inv_def transit_inv_def by blast
  then have "lk \<notin> held s h" using acquire_end.prems by (simp add: smp_inv_def owner_inv_def)
  with acquire_end show ?case by (auto simp: smp_inv_def depth_inv_def smp_defs)
next
  case (release_begin s h lk t)
  then have "lk \<in> held s h" by (auto simp: smp_inv_def owner_inv_def smp_defs)
  moreover from this have "0 < card (held s h)" using release_begin
    by (auto simp: smp_inv_def depth_inv_def card_gt_0_iff)
  ultimately show ?case using release_begin
    by (auto simp: smp_inv_def depth_inv_def smp_defs of_nat_diff)
qed (auto simp: smp_inv_def depth_inv_def smp_defs lock_simps leave_sie_apply dest!: pop_off_RetD)

lemma smp_reachable_inv: "smp_reachable s \<Longrightarrow> smp_inv s"
proof (induction rule: smp_reachable.induct)
  case boot
  show ?case by (rule smp_inv_boot)
next
  case (step s t)
  then show ?case
    unfolding smp_inv_def [of t]
    by (intro conjI owner_inv_step transit_inv_step unlocked_inv_step depth_inv_step)
qed

text \<open>
  C3. Mutual exclusion: in every interleaving of the atomic steps of \<open>acquire\<close> and
  \<open>release\<close> by any number of CPUs, no two CPUs are in the critical section of the same
  lock; and the CPU that is in one has its interrupts off, so no interrupt handler can run there
  and deadlock on the lock.
\<close>

theorem spinlock_mutual_exclusion:
  assumes "smp_reachable s" and "lk \<in> held s h"
  shows "(\<forall>h'. lk \<in> held s h' \<longrightarrow> h' = h) \<and> \<not> sie s h"
proof -
  have inv: "smp_inv s" using assms(1) by (rule smp_reachable_inv)
  then have "finite (held s h)" "held s h \<noteq> {}" using assms(2) by (auto simp: smp_inv_def depth_inv_def)
  then have "0 < card (held s h)" by (simp add: card_gt_0_iff)
  then have "0 < noff (cpus s h)" using inv by (simp add: smp_inv_def depth_inv_def)
  then show ?thesis using inv assms(2) by (auto simp: smp_inv_def owner_inv_def depth_inv_def)
qed

lemma smp_acquired:
  "smp_reachable (smp_boot\<lparr>sie := (\<lambda>_. False)(1 := False),
     cpus := enter_cpus 1 (\<lambda>_. False) (cpus smp_boot), locks := take_lock Kmem 1 (locks smp_boot),
     hart := 1, held := (\<lambda>_. {})(1 := {Kmem})\<rparr>)"
proof -
  let ?a = "(push_off (smp_boot\<lparr>hart := 1\<rparr>))\<lparr>pcs := (pcs smp_boot)(1 := Spin Kmem)\<rparr>"
  let ?b = "(snd (test_and_set Kmem (?a\<lparr>hart := 1\<rparr>)))\<lparr>pcs := (pcs ?a)(1 := Took Kmem)\<rparr>"
  let ?c = "(upd_lock Kmem (\<lambda>l. l\<lparr>lk_cpu := Some 1\<rparr>) (?b\<lparr>hart := 1\<rparr>))\<lparr>pcs := (pcs ?b)(1 := Run),
      held := (held ?b)(1 := insert Kmem (held ?b 1))\<rparr>"
  have "smp_step smp_boot ?a" by (rule acquire_begin) (auto simp: smp_boot_def smp_defs)
  then have a: "smp_reachable ?a" by (rule smp_reachable.step [OF smp_reachable.boot])
  have "smp_step ?a ?b" by (rule acquire_take) (auto simp: smp_boot_def smp_defs)
  with a have b: "smp_reachable ?b" by (rule smp_reachable.step)
  have "smp_step ?b ?c" by (rule acquire_end) (auto simp: smp_boot_def smp_defs)
  with b have "smp_reachable ?c" by (rule smp_reachable.step)
  then show ?thesis by (simp add: smp_boot_def smp_defs take_lock_def fun_upd_def cong: if_cong)
qed

theorem spinlock_mutual_exclusion_witness:
  "\<exists>s. smp_reachable s \<and> Kmem \<in> held s 1 \<and> Kmem \<notin> held s 0 \<and> \<not> sie s 1"
  using spinlock_mutual_exclusion [OF smp_acquired, of Kmem 1] smp_acquired by fastforce

text \<open>
  The lock routines never hit their panics: in every reachable state, a CPU that reached
  the \<open>pop_off\<close> of \<open>release\<close> returns from it.
\<close>

lemma release_pop_off_returns:
  assumes "smp_reachable s" and "pcs s h = Unlocked"
  shows "\<exists>t. pop_off (s\<lparr>hart := h\<rparr>) = Ret () t"
proof -
  have "1 \<le> noff (cpus s h)" "\<not> sie s h"
    using smp_reachable_inv [OF assms(1)] assms(2) by (auto simp: smp_inv_def depth_inv_def)
  then show ?thesis by (simp add: pop_off_def mach_defs Let_def)
qed

end
