(* ===== verification/Riscv.thy ===== *)
theory Riscv
  imports Prelude
begin

text \<open>
  Constants and address arithmetic of \<open>kernel/riscv.h\<close>, \<open>kernel/memlayout.h\<close> and
  \<open>kernel/param.h\<close>: page rounding, page-table entries, the Sv39 index fields and the
  physical memory layout. The bit manipulations of the macros are kept, and the lemmas say what
  they compute.
\<close>

section \<open>Layout\<close>

definition PGSIZE :: uint64 where "PGSIZE = 4096"
definition PGSHIFT :: nat where "PGSHIFT = 12"
definition KERNBASE :: uint64 where "KERNBASE = 0x80000000"
definition UART0 :: uint64 where "UART0 = 0x10000000"
definition VIRTIO0 :: uint64 where "VIRTIO0 = 0x10001000"
definition PLIC :: uint64 where "PLIC = 0x0c000000"
definition NPROC :: nat where "NPROC = 64"
definition PHYSTOP :: uint64 where "PHYSTOP = KERNBASE + 128 * 1024 * 1024"
definition MAXVA :: uint64 where "MAXVA = push_bit (9 + 9 + 9 + 12 - 1) 1"
definition TRAMPOLINE :: uint64 where "TRAMPOLINE = MAXVA - PGSIZE"
definition TRAPFRAME :: uint64 where "TRAPFRAME = TRAMPOLINE - PGSIZE"

definition KSTACK :: "uint64 \<Rightarrow> uint64" where
  "KSTACK p = TRAMPOLINE - (p + 1) * 2 * PGSIZE"

definition PGROUNDUP :: "uint64 \<Rightarrow> uint64" where
  "PGROUNDUP sz = (sz + PGSIZE - 1) AND NOT (PGSIZE - 1)"

definition PGROUNDDOWN :: "uint64 \<Rightarrow> uint64" where
  "PGROUNDDOWN a = a AND NOT (PGSIZE - 1)"

section \<open>Page-table entries\<close>

definition PTE_V :: uint64 where "PTE_V = push_bit 0 1"
definition PTE_R :: uint64 where "PTE_R = push_bit 1 1"
definition PTE_W :: uint64 where "PTE_W = push_bit 2 1"
definition PTE_X :: uint64 where "PTE_X = push_bit 3 1"
definition PTE_U :: uint64 where "PTE_U = push_bit 4 1"

definition PA2PTE :: "uint64 \<Rightarrow> uint64" where
  "PA2PTE pa = push_bit 10 (drop_bit 12 pa)"

definition PTE2PA :: "uint64 \<Rightarrow> uint64" where
  "PTE2PA pte = push_bit 12 (drop_bit 10 pte)"

definition PTE_FLAGS :: "uint64 \<Rightarrow> uint64" where
  "PTE_FLAGS pte = pte AND 0x3FF"

definition PXMASK :: uint64 where "PXMASK = 0x1FF"

definition PXSHIFT :: "nat \<Rightarrow> nat" where
  "PXSHIFT level = PGSHIFT + 9 * level"

definition PX :: "nat \<Rightarrow> uint64 \<Rightarrow> uint64" where
  "PX level va = drop_bit (PXSHIFT level) va AND PXMASK"

section \<open>Rounding\<close>

lemma PGSIZE_mask: "PGSIZE - 1 = mask 12"
  by (simp add: PGSIZE_def mask_eq_decr_exp)

lemma unat_drop_bit: "unat (drop_bit k (a :: uint64)) = unat a div 2 ^ k"
  unfolding unsigned_drop_bit_eq using unat_lt_2_64 [of a]
  by (simp add: take_bit_nat_eq_self drop_bit_eq_div)

lemma unat_and_not_mask:
  assumes "k < 64"
  shows "unat (a AND NOT (mask k) :: uint64) = unat a div 2 ^ k * 2 ^ k"
proof -
  have e: "a AND NOT (mask k) = drop_bit k a * 2 ^ k"
    unfolding push_bit_eq_mult [symmetric] by (rule bit_word_eqI) (auto simp: bit_simps)
  have "(2::nat) ^ k < 2 ^ 64" using assms by (intro power_strict_increasing) auto
  then have p: "unat (2 ^ k :: uint64) = 2 ^ k" using unat_of_nat_64 [of "2 ^ k"] by simp
  have "unat a div 2 ^ k * 2 ^ k \<le> unat a" by simp
  then have "unat a div 2 ^ k * 2 ^ k < 2 ^ 64" using unat_lt_2_64 [of a] by linarith
  then show ?thesis
    unfolding e by (simp add: unat_word_ariths(2) p unat_drop_bit)
qed

lemma unat_PGROUNDDOWN: "unat (PGROUNDDOWN a) = unat a div 4096 * 4096"
  by (simp add: PGROUNDDOWN_def PGSIZE_mask unat_and_not_mask)

lemma unat_PGROUNDUP:
  assumes "unat sz + 4095 < 2 ^ 64"
  shows "unat (PGROUNDUP sz) = (unat sz + 4095) div 4096 * 4096"
proof -
  have "unat (sz + PGSIZE - 1) = unat sz + 4095"
    using assms by (simp add: PGSIZE_def unat_word_ariths)
  then show ?thesis
    by (simp add: PGROUNDUP_def PGSIZE_mask unat_and_not_mask)
qed

text \<open>Page alignment.\<close>

definition aligned :: "uint64 \<Rightarrow> bool" where
  "aligned a \<longleftrightarrow> a mod PGSIZE = 0"

lemma aligned_iff: "aligned a \<longleftrightarrow> unat a mod 4096 = 0"
  by (simp add: aligned_def PGSIZE_def unat_mod_distrib flip: unat_0_iff)

lemma aligned_obtain:
  assumes "aligned a"
  obtains k where "unat a = 4096 * k" and "k < 2 ^ 52"
proof -
  have "unat a = 4096 * (unat a div 4096)" 
    using assms mult_div_mod_eq [of 4096 "unat a"] by (simp add: aligned_iff)
  moreover have "unat a div 4096 < 2 ^ 52"
    using unat_lt_2_64 [of a] by (simp add: div_less_iff_less_mult)
  ultimately show ?thesis by (rule that)
qed

lemma aligned_PGROUNDDOWN [simp]: "aligned (PGROUNDDOWN a)"
  by (simp add: aligned_iff unat_PGROUNDDOWN)

lemma aligned_PGROUNDUP [simp]: "aligned (PGROUNDUP a)"
  by (simp add: aligned_iff PGROUNDUP_def PGSIZE_mask unat_and_not_mask)

lemma not_bit_aligned: "aligned a \<Longrightarrow> i < 12 \<Longrightarrow> \<not> bit a i"
proof -
  assume a: "aligned a" and i: "i < 12"
  have "take_bit 12 a = 0" using a by (simp add: aligned_def PGSIZE_def take_bit_eq_mod)
  then have "\<not> bit (take_bit 12 a) i" by simp
  then show ?thesis using i by (simp add: bit_simps)
qed

lemma alignedI: "(\<And>i. i < 12 \<Longrightarrow> \<not> bit a i) \<Longrightarrow> aligned a"
proof -
  assume "\<And>i. i < 12 \<Longrightarrow> \<not> bit a i"
  then have "take_bit 12 a = 0" by (intro bit_word_eqI) (auto simp: bit_simps)
  then show ?thesis by (simp add: aligned_def PGSIZE_def take_bit_eq_mod)
qed

lemma PGROUNDDOWN_aligned [simp]: "aligned a \<Longrightarrow> PGROUNDDOWN a = a"
  unfolding PGROUNDDOWN_def PGSIZE_mask
  by (rule bit_word_eqI) (auto simp: bit_simps dest: not_bit_aligned)

text \<open>Distinct pages do not overlap.\<close>

lemma disjoint_pages:
  assumes "aligned p" and "aligned q" and "p \<noteq> q" and "i + n \<le> 4096" and "k \<le> 4096"
  shows "disjoint_ranges (q + of_nat i) n p k"
proof -
  obtain a where a: "unat p = 4096 * a" "a < 2 ^ 52" using assms(1) by (rule aligned_obtain)
  obtain b where b: "unat q = 4096 * b" "b < 2 ^ 52" using assms(2) by (rule aligned_obtain)
  have ab: "a \<noteq> b" using a b assms(3) by (auto simp: word_unat_eq_iff)
  show ?thesis
  proof (cases "n = 0")
    case True
    then show ?thesis by (simp add: disjoint_ranges_def)
  next
    case False
    have "unat (q + of_nat i) = 4096 * b + i"
      using b assms(4) False by (subst unat_add_64) auto
    then show ?thesis using a b ab assms(4,5) by (intro disjoint_rangesI) auto
  qed
qed

section \<open>Encoding of page-table entries\<close>

lemma bit_flags: "take_bit 10 f = f \<Longrightarrow> 10 \<le> i \<Longrightarrow> \<not> bit (f :: uint64) i"
  by (metis bit_take_bit_iff not_less)

lemma bit_flags_less: "take_bit 10 f = f \<Longrightarrow> bit (f :: uint64) i \<Longrightarrow> i < 10"
  by (metis bit_take_bit_iff)

lemma PTE2PA_PA2PTE:
  assumes "aligned pa" and "take_bit 10 f = f"
  shows "PTE2PA (PA2PTE pa OR f) = pa"
proof (rule bit_word_eqI)
  fix i assume i: "i < LENGTH(64)"
  have "12 \<le> i" if "bit pa i" using that not_bit_aligned [OF assms(1), of i] by (meson not_less)
  then show "bit (PTE2PA (PA2PTE pa OR f)) i = bit pa i"
    using i bit_flags [OF assms(2), of "10 + (i - 12)"]
    by (auto simp: PTE2PA_def PA2PTE_def bit_simps)
qed

lemma PTE_FLAGS_PA2PTE:
  assumes "take_bit 10 f = f"
  shows "PTE_FLAGS (PA2PTE pa OR f) = f"
proof -
  have m: "(0x3FF :: uint64) = mask 10" by (simp add: mask_eq_decr_exp)
  show ?thesis
    unfolding PTE_FLAGS_def PA2PTE_def m
    by (rule bit_word_eqI) (auto simp: bit_simps dest: bit_flags_less [OF assms])
qed

lemma aligned_PTE2PA [simp]: "aligned (PTE2PA pte)"
  by (rule alignedI) (simp add: PTE2PA_def bit_simps)

lemma and_flag_pte:
  "take_bit 10 g = g \<Longrightarrow> (PA2PTE pa OR f) AND g = f AND g"
  unfolding PA2PTE_def by (rule bit_word_eqI) (auto simp: bit_simps dest: bit_flags_less)

lemma PX_take_bit: "PX l va = take_bit 9 (drop_bit (12 + 9 * l) va)"
proof -
  have "PXMASK = mask 9" by (simp add: PXMASK_def mask_eq_decr_exp)
  then show ?thesis by (simp add: PX_def PXSHIFT_def PGSHIFT_def take_bit_eq_mask)
qed

lemma PX_bound: "unat (PX l va) < 512"
  by (simp add: PX_take_bit unsigned_take_bit_eq take_bit_nat_def)

text \<open>
  The three index fields determine the page of an address below \<open>MAXVA\<close>: two such
  addresses with equal indices lie in the same page.
\<close>

lemma MAXVA_eq: "MAXVA = 2 ^ 38"
  by (simp add: MAXVA_def push_bit_eq_mult)

lemma not_bit_below_MAXVA: "va < MAXVA \<Longrightarrow> 38 \<le> i \<Longrightarrow> \<not> bit va i"
proof -
  assume v: "va < MAXVA" and i: "38 \<le> i"
  have "take_bit 38 va = va"
    using v by (simp add: take_bit_eq_mod MAXVA_eq word_unat_eq_iff unat_mod_distrib word_less_nat_alt)
  then show ?thesis using i by (metis bit_take_bit_iff not_less)
qed

lemma PX_inj:
  assumes "va < MAXVA" and "vb < MAXVA"
    and "PX 0 va = PX 0 vb" and "PX 1 va = PX 1 vb" and "PX 2 va = PX 2 vb"
  shows "PGROUNDDOWN va = PGROUNDDOWN vb"
  unfolding PGROUNDDOWN_def PGSIZE_mask
proof (rule bit_word_eqI)
  fix i assume "i < LENGTH(64)"
  have f: "bit va (12 + 9 * l + j) = bit vb (12 + 9 * l + j)" if "PX l va = PX l vb" "j < 9" for l j
  proof -
    have "bit (PX l va) j = bit (PX l vb) j" using that by simp
    then show ?thesis using that(2) by (simp add: PX_take_bit bit_simps)
  qed
  consider "i < 12" | "12 \<le> i" "i < 21" | "21 \<le> i" "i < 30" | "30 \<le> i" "i < 39" | "39 \<le> i"
    by linarith
  then have "12 \<le> i \<Longrightarrow> bit va i = bit vb i"
  proof cases
    case 2
    then show ?thesis using f [of 0 "i - 12"] assms(3) by simp
  next
    case 3
    then show ?thesis using f [of 1 "i - 21"] assms(4) by simp
  next
    case 4
    then show ?thesis using f [of 2 "i - 30"] assms(5) by simp
  next
    case 5
    then show ?thesis using not_bit_below_MAXVA [OF assms(1)] not_bit_below_MAXVA [OF assms(2)] by simp
  qed simp
  then show "bit (va AND NOT (mask 12)) i = bit (vb AND NOT (mask 12)) i"
    by (auto simp: bit_simps)
qed

lemma PX_PGROUNDDOWN [simp]: "PX l (PGROUNDDOWN va) = PX l va"
  unfolding PGROUNDDOWN_def PGSIZE_mask PX_take_bit
  by (rule bit_word_eqI) (auto simp: bit_simps dest: bit_imp_le_length)

end
