(* ===== verification/Kalloc.thy ===== *)
theory Kalloc
  imports Cstring Spinlock Riscv "HOL-Library.Multiset"
begin

text \<open>
  The physical page allocator, \<open>kernel/kalloc.c\<close>. The free list lives in the free pages
  themselves: the first 8 bytes of a free page hold the address of the next one. The state adds
  physical memory, \<open>kmem.freelist\<close> and the linker symbol \<open>end\<close> (the first address
  after the kernel) to the machine.
\<close>

section \<open>State and operations\<close>

record kmem_state = mach +
  mem :: mem
  freelist :: uint64
  kernel_end :: uint64

definition kfree :: "uint64 \<Rightarrow> 'a kmem_state_scheme \<Rightarrow> ('a kmem_state_scheme, unit) res" where
  "kfree pa s =
     (if pa mod PGSIZE \<noteq> 0 \<or> pa < kernel_end s \<or> PHYSTOP \<le> pa then Panic ''kfree''
      else
        let s = s\<lparr>mem := memset (mem s) pa 1 4096\<rparr>
        in res_bind (acquire Kmem s) (\<lambda>_ s.
           let s = s\<lparr>mem := store64 (mem s) pa (freelist s)\<rparr>;
               s = s\<lparr>freelist := pa\<rparr>
           in release Kmem s))"

definition kalloc :: "'a kmem_state_scheme \<Rightarrow> ('a kmem_state_scheme, uint64) res" where
  "kalloc s =
     res_bind (acquire Kmem s) (\<lambda>_ s.
     let r = freelist s;
         s = (if r \<noteq> 0 then s\<lparr>freelist := load64 (mem s) r\<rparr> else s)
     in res_bind (release Kmem s) (\<lambda>_ s.
        Ret r (if r \<noteq> 0 then s\<lparr>mem := memset (mem s) r 5 4096\<rparr> else s)))"

text \<open>
  The loop of \<open>freerange\<close>. Pointer arithmetic in C does not wrap, which is the second
  conjunct of the guard.
\<close>

function freerange_loop :: "uint64 \<Rightarrow> uint64 \<Rightarrow> 'a kmem_state_scheme \<Rightarrow> ('a kmem_state_scheme, unit) res" where
  "freerange_loop p pa_end s =
     (if p + PGSIZE \<le> pa_end \<and> p < p + PGSIZE
      then res_bind (kfree p s) (\<lambda>_ s. freerange_loop (p + PGSIZE) pa_end s)
      else Ret () s)"
  by pat_completeness auto
termination
  by (relation "measure (\<lambda>(p, e, s). unat e - unat p)") (auto simp: word_less_nat_alt word_le_nat_alt)

declare freerange_loop.simps [simp del]

definition freerange :: "uint64 \<Rightarrow> uint64 \<Rightarrow> 'a kmem_state_scheme \<Rightarrow> ('a kmem_state_scheme, unit) res" where
  "freerange pa_start pa_end s = freerange_loop (PGROUNDUP pa_start) pa_end s"

definition kinit :: "'a kmem_state_scheme \<Rightarrow> ('a kmem_state_scheme, unit) res" where
  "kinit s = freerange (kernel_end s) PHYSTOP (initlock Kmem ''kmem'' s)"

section \<open>The free list as a list of pages\<close>

primrec flist :: "mem \<Rightarrow> uint64 \<Rightarrow> uint64 list \<Rightarrow> bool" where
  "flist m p [] \<longleftrightarrow> p = 0"
| "flist m p (a # as) \<longleftrightarrow> p = a \<and> a \<noteq> 0 \<and> flist m (load64 m a) as"

definition page_ok :: "uint64 \<Rightarrow> uint64 \<Rightarrow> bool" where
  "page_ok e p \<longleftrightarrow> aligned p \<and> e \<le> p \<and> p < PHYSTOP"

text \<open>
  The allocator's invariant, with the free pages in the order of the list: the list in memory
  is well-formed, holds no page twice, and every page on it is one that \<open>kfree\<close> accepts.
\<close>

definition kmem_inv :: "'a kmem_state_scheme \<Rightarrow> uint64 list \<Rightarrow> bool" where
  "kmem_inv s ps \<longleftrightarrow> 0 < kernel_end s \<and> flist (mem s) (freelist s) ps \<and> distinct ps
     \<and> (\<forall>p\<in>set ps. page_ok (kernel_end s) p)"

text \<open>The machine is ready to enter the allocator: its lock is free, the CPU is consistent.\<close>

definition kready :: "'a mach_scheme \<Rightarrow> bool" where
  "kready s \<longleftrightarrow> cpu_ok s \<and> lock_free Kmem s"

lemma page_ok_nonzero: "page_ok e p \<Longrightarrow> 0 < e \<Longrightarrow> p \<noteq> 0"
  by (auto simp: page_ok_def)

lemma flist_cong:
  assumes "\<And>p. p \<in> set ps \<Longrightarrow> load64 m' p = load64 m p"
  shows "flist m' p ps = flist m p ps"
  using assms by (induction ps arbitrary: p) auto

lemma load64_other_page:
  assumes "aligned p" and "aligned q" and "p \<noteq> q" and "length bs \<le> 4096"
  shows "load64 (put m p bs) q = load64 m q"
  using assms disjoint_pages [of p q 0 8 "length bs"] by (simp add: load64_put_other)

lemma load64_store64_other_page:
  assumes "aligned p" and "aligned q" and "p \<noteq> q"
  shows "load64 (store64 m p v) q = load64 m q"
  using assms disjoint_pages [of p q 0 8 8] by (simp add: load64_store64_other)

lemma kalloc_Nil:
  "kready s \<Longrightarrow> kmem_inv s [] \<Longrightarrow> kalloc s = Ret 0 (settle s)"
  by (auto simp: kready_def kmem_inv_def kalloc_def lock_simps Let_def)

lemma kalloc_Cons:
  assumes "kready s" and "kmem_inv s (p # ps)"
  shows "kalloc s = Ret p (settle s\<lparr>freelist := load64 (mem s) p, mem := put (mem s) p (replicate 4096 5)\<rparr>)"
  using assms by (auto simp: kready_def kmem_inv_def kalloc_def lock_simps Let_def memset_put)

lemma kmem_inv_alloc:
  assumes "kmem_inv s (p # ps)"
  shows "kmem_inv (settle s\<lparr>freelist := load64 (mem s) p, mem := put (mem s) p (replicate 4096 5)\<rparr>) ps"
proof -
  have "flist (put (mem s) p (replicate 4096 5)) (load64 (mem s) p) ps = flist (mem s) (load64 (mem s) p) ps"
    using assms by (intro flist_cong load64_other_page) (auto simp: kmem_inv_def page_ok_def)
  then show ?thesis using assms by (simp add: kmem_inv_def)
qed

lemma kfree_ok:
  assumes "kready s" and "page_ok (kernel_end s) p"
  shows "kfree p s = Ret () (settle s\<lparr>mem := store64 (put (mem s) p (replicate 4096 1)) p (freelist s),
    freelist := p\<rparr>)"
  using assms
  by (auto simp: kready_def kfree_def page_ok_def aligned_def lock_simps Let_def memset_put)

lemma kfree_panics: "\<not> page_ok (kernel_end s) p \<Longrightarrow> kfree p s = Panic ''kfree''"
  by (auto simp: kfree_def page_ok_def aligned_def not_le not_less)

lemma kmem_inv_free:
  assumes "kmem_inv s ps" and "page_ok (kernel_end s) p" and "p \<notin> set ps"
  shows "kmem_inv (settle s\<lparr>mem := store64 (put (mem s) p (replicate 4096 1)) p (freelist s), freelist := p\<rparr>) (p # ps)"
proof -
  let ?m = "store64 (put (mem s) p (replicate 4096 1)) p (freelist s)"
  have "load64 ?m q = load64 (mem s) q" if "q \<in> set ps" for q
  proof -
    have "aligned p" "aligned q" "p \<noteq> q" using assms that by (auto simp: kmem_inv_def page_ok_def)
    then show ?thesis by (simp add: load64_store64_other_page load64_other_page)
  qed
  then have "flist ?m (freelist s) ps = flist (mem s) (freelist s) ps" by (rule flist_cong)
  then show ?thesis
    using assms by (auto simp: kmem_inv_def mem_simps dest: page_ok_nonzero)
qed

section \<open>The allocator as its clients see it\<close>

text \<open>
  A client's calls: allocate a page, or free the \<open>i\<close>-th of the pages it holds. The client
  keeps the pages that allocation returned.
\<close>

datatype kop = Alloc | Free nat

fun run_ops :: "('s \<Rightarrow> ('s, uint64) res) \<Rightarrow> (uint64 \<Rightarrow> 's \<Rightarrow> ('s, unit) res) \<Rightarrow> kop list \<Rightarrow>
    uint64 list \<Rightarrow> 's \<Rightarrow> ('s, uint64 list) res" where
  "run_ops al fr [] own s = Ret own s"
| "run_ops al fr (Alloc # ops) own s =
     res_bind (al s) (\<lambda>p s. run_ops al fr ops (if p = 0 then own else p # own) s)"
| "run_ops al fr (Free i # ops) own s =
     (if i < length own
      then res_bind (fr (own ! i) s) (\<lambda>_ s. run_ops al fr ops (take i own @ drop (Suc i) own) s)
      else run_ops al fr ops own s)"

lemma mset_remove_nth: "i < length xs \<Longrightarrow> mset xs = add_mset (xs ! i) (mset (take i xs @ drop (Suc i) xs))"
  by (subst id_take_nth_drop [of i xs]) simp_all

locale page_allocator =
  fixes alloc :: "'s \<Rightarrow> ('s, uint64) res"
    and free :: "uint64 \<Rightarrow> 's \<Rightarrow> ('s, unit) res"
    and inv :: "'s \<Rightarrow> uint64 list \<Rightarrow> bool"
    and valid :: "'s \<Rightarrow> uint64 \<Rightarrow> bool"
  assumes alloc_empty: "inv s [] \<Longrightarrow> \<exists>t. alloc s = Ret 0 t \<and> inv t [] \<and> valid t = valid s"
    and alloc_page: "inv s (p # ps) \<Longrightarrow> \<exists>t. alloc s = Ret p t \<and> inv t ps \<and> valid t = valid s"
    and free_page: "inv s ps \<Longrightarrow> valid s p \<Longrightarrow> p \<notin> set ps \<Longrightarrow>
      \<exists>t. free p s = Ret () t \<and> inv t (p # ps) \<and> valid t = valid s"
    and inv_pages: "inv s ps \<Longrightarrow> distinct ps \<and> (\<forall>p\<in>set ps. valid s p \<and> p \<noteq> 0)"
begin

lemma run_conserves:
  assumes "inv s ps" and "distinct (own @ ps)" and "\<forall>p\<in>set own. valid s p"
  shows "\<exists>own' ps' t. run_ops alloc free ops own s = Ret own' t \<and> inv t ps'
    \<and> mset own' + mset ps' = mset own + mset ps"
  using assms
proof (induction ops arbitrary: own s ps)
  case Nil
  then show ?case by auto
next
  case (Cons op ops)
  show ?case
  proof (cases op)
    case Alloc
    show ?thesis
    proof (cases ps)
      case Nil
      then obtain t where "alloc s = Ret 0 t" "inv t []" "valid t = valid s"
        using alloc_empty [of s] Cons.prems(1) by auto
      then show ?thesis using Cons.IH [of t "[]" own] Cons.prems Nil by (simp add: Alloc)
    next
      case (Cons p qs)
      then obtain t where "alloc s = Ret p t" "inv t qs" "valid t = valid s"
        using alloc_page [of s p qs] Cons.prems(1) by auto
      moreover have "valid s p" "p \<noteq> 0" using inv_pages [OF Cons.prems(1)] Cons by auto
      ultimately show ?thesis
        using Cons.IH [of t qs "p # own"] Cons.prems Cons by (simp add: Alloc)
    qed
  next
    case (Free i)
    show ?thesis
    proof (cases "i < length own")
      case True
      let ?own = "take i own @ drop (Suc i) own"
      have m: "mset own = add_mset (own ! i) (mset ?own)" using True by (rule mset_remove_nth)
      have "distinct (own ! i # ?own @ ps)"
        using Cons.prems(2) m mset_eq_imp_distinct_iff [of "own @ ps" "own ! i # ?own @ ps"] by simp
      moreover obtain t where t: "free (own ! i) s = Ret () t" "inv t (own ! i # ps)" "valid t = valid s"
        using free_page [OF Cons.prems(1), of "own ! i"] Cons.prems(2,3) True
        by (auto simp: disjoint_iff)
      moreover have "\<forall>p\<in>set ?own. valid t p"
        using Cons.prems(3) t(3) by (auto dest: in_set_takeD in_set_dropD)
      ultimately have "\<exists>own' ps' u. run_ops alloc free ops ?own t = Ret own' u \<and> inv u ps'
          \<and> mset own' + mset ps' = mset ?own + mset (own ! i # ps)"
        by (intro Cons.IH) auto
      then show ?thesis using t(1) m True by (simp add: Free)
    qed (use Cons in \<open>simp add: Free\<close>)
  qed
qed

end

text \<open>The laws hold of \<open>kalloc\<close> and \<open>kfree\<close>.\<close>

interpretation ka: page_allocator kalloc kfree
  "\<lambda>s :: 'a kmem_state_scheme. \<lambda>ps. kready s \<and> kmem_inv s ps"
  "\<lambda>s :: 'a kmem_state_scheme. page_ok (kernel_end s)"
proof unfold_locales
  fix s :: "'a kmem_state_scheme" and p ps
  show "kready s \<and> kmem_inv s [] \<Longrightarrow>
    \<exists>t. kalloc s = Ret 0 t \<and> (kready t \<and> kmem_inv t []) \<and> page_ok (kernel_end t) = page_ok (kernel_end s)"
    by (auto simp: kalloc_Nil kready_def kmem_inv_def lock_simps)
  show "kready s \<and> kmem_inv s (p # ps) \<Longrightarrow>
    \<exists>t. kalloc s = Ret p t \<and> (kready t \<and> kmem_inv t ps) \<and> page_ok (kernel_end t) = page_ok (kernel_end s)"
    using kalloc_Cons [of s p ps] kmem_inv_alloc [of s p ps] by (auto simp: kready_def lock_simps)
  show "kready s \<and> kmem_inv s ps \<Longrightarrow> page_ok (kernel_end s) p \<Longrightarrow> p \<notin> set ps \<Longrightarrow>
    \<exists>t. kfree p s = Ret () t \<and> (kready t \<and> kmem_inv t (p # ps)) \<and> page_ok (kernel_end t) = page_ok (kernel_end s)"
    using kfree_ok [of s p] kmem_inv_free [of s ps p] by (auto simp: kready_def lock_simps)
  show "kready s \<and> kmem_inv s ps \<Longrightarrow> distinct ps \<and> (\<forall>p\<in>set ps. page_ok (kernel_end s) p \<and> p \<noteq> 0)"
    by (auto simp: kmem_inv_def dest: page_ok_nonzero)
qed

section \<open>Properties\<close>

text \<open>
  C4. Pages are conserved. Started with pages \<open>own\<close> in use and \<open>ps\<close> free, all
  distinct, any sequence of \<open>kalloc\<close> calls and of \<open>kfree\<close> calls on pages in use
  returns without a panic; afterwards the pages in use and the free pages are again the same
  pages, none lost and none handed out twice, and the free list in memory is well-formed.
\<close>

theorem kalloc_kfree_conserve:
  assumes "kready s" and "kmem_inv s ps"
    and "distinct (own @ ps)" and "\<forall>p\<in>set own. page_ok (kernel_end s) p"
  shows "\<exists>own' ps' t. run_ops kalloc kfree ops own s = Ret own' t \<and> kready t \<and> kmem_inv t ps'
    \<and> mset own' + mset ps' = mset own + mset ps \<and> distinct (own' @ ps')"
proof -
  obtain own' ps' t where r: "run_ops kalloc kfree ops own s = Ret own' t" "kready t" "kmem_inv t ps'"
      "mset own' + mset ps' = mset own + mset ps"
    using ka.run_conserves [of s ps own ops] assms by auto
  then have "distinct (own' @ ps')"
    using assms(3) mset_eq_imp_distinct_iff [of "own' @ ps'" "own @ ps"] by simp
  then show ?thesis using r by blast
qed

definition boot_kmem :: kmem_state where
  "boot_kmem = mach.extend boot_mach \<lparr>mem = (\<lambda>_. 0), freelist = 0, kernel_end = 0x80020000\<rparr>"

lemmas boot_kmem_simps = boot_kmem_def mach.defs boot_mach_def kready_def kmem_inv_def cpus_ok_def
  free_lock_def page_ok_def aligned_def PGSIZE_def PHYSTOP_def KERNBASE_def

theorem kalloc_kfree_conserve_witness:
  "\<exists>own' ps' t. run_ops kalloc kfree [Alloc, Free 0, Alloc, Free 1] [0x80021000, 0x80025000] boot_kmem = Ret own' t
    \<and> kmem_inv t ps' \<and> mset own' + mset ps' = mset [0x80021000, 0x80025000] \<and> distinct (own' @ ps')"
  using kalloc_kfree_conserve [of boot_kmem "[]" "[0x80021000, 0x80025000]" "[Alloc, Free 0, Alloc, Free 1]"]
  by (simp add: boot_kmem_simps) blast

text \<open>
  C20. A page that \<open>kalloc\<close> returns is the caller's alone: it is page-aligned, lies between
  the end of the kernel and the end of RAM, is filled with the junk byte 5, is no longer on the
  free list, and no other byte of memory has changed. On an empty list the result is 0.
\<close>

theorem kalloc_fresh_page:
  assumes "kready s" and "kmem_inv s ps" and "kalloc s = Ret p t"
  shows "if ps = [] then p = 0 \<and> mem t = mem s
    else page_ok (kernel_end s) p \<and> kmem_inv t (tl ps) \<and> p \<notin> set (tl ps)
      \<and> get (mem t) p 4096 = replicate 4096 5
      \<and> (\<forall>a. 4096 \<le> unat (a - p) \<longrightarrow> mem t a = mem s a)"
proof (cases ps)
  case Nil
  then show ?thesis using assms kalloc_Nil [of s] by auto
next
  case (Cons q qs)
  then have "p = q" and t: "t = settle s\<lparr>freelist := load64 (mem s) q, mem := put (mem s) q (replicate 4096 5)\<rparr>"
    using assms kalloc_Cons [of s q qs] by auto
  then show ?thesis
    using Cons assms(2) kmem_inv_alloc [of s q qs]
    by (auto simp: mem_simps put_outside kmem_inv_def)
qed

text \<open>
  C35. \<open>kfree\<close> refuses exactly the addresses that are not pages of the allocator: with its
  lock free it panics if the address is unaligned, below the end of the kernel or beyond RAM,
  and otherwise returns with the page filled with 1s (but for the link) and in front of the
  list.
\<close>

theorem kfree_checks_address:
  assumes "kready s" and "kmem_inv s ps" and "pa \<notin> set ps"
  shows "(kfree pa s = Panic ''kfree'' \<longleftrightarrow> \<not> page_ok (kernel_end s) pa)
    \<and> (page_ok (kernel_end s) pa \<longrightarrow>
        (\<exists>t. kfree pa s = Ret () t \<and> kmem_inv t (pa # ps)
           \<and> (\<forall>i. 8 \<le> i \<and> i < 4096 \<longrightarrow> mem t (pa + of_nat i) = 1)))"
proof (cases "page_ok (kernel_end s) pa")
  case True
  let ?t = "settle s\<lparr>mem := store64 (put (mem s) pa (replicate 4096 1)) pa (freelist s), freelist := pa\<rparr>"
  have "mem ?t (pa + of_nat i) = 1" if "8 \<le> i \<and> i < 4096" for i
    using that by (simp add: store64_def put_def)
  then show ?thesis
    using True kfree_ok [OF assms(1) True] kmem_inv_free [OF assms(2) True assms(3)] by auto
next
  case False
  then show ?thesis by (simp add: kfree_panics)
qed

section \<open>Booting the allocator\<close>

lemma aligned_add_PGSIZE [simp]: "aligned p \<Longrightarrow> aligned (p + PGSIZE)"
proof -
  assume "aligned p"
  then have "unat p mod 4096 = 0" by (simp add: aligned_iff)
  then have "(unat p + 4096) mod 2 ^ 64 mod 4096 = 0"
    by (subst mod_mod_cancel) (auto simp: mod_add_eq)
  then show ?thesis by (simp add: aligned_iff PGSIZE_def unat_word_ariths)
qed

lemma next_page:
  assumes "aligned p" and "aligned q" and "p < p + PGSIZE"
  shows "q < p + PGSIZE \<longleftrightarrow> q < p \<or> q = p"
proof -
  obtain a where a: "unat p = 4096 * a" using assms(1) by (rule aligned_obtain)
  obtain b where b: "unat q = 4096 * b" using assms(2) by (rule aligned_obtain)
  have "unat (p + PGSIZE) = unat p + 4096"
    using assms(3) unat_add_no_wrap [of p PGSIZE] by (simp add: PGSIZE_def)
  then show ?thesis using a b by (auto simp: word_less_nat_alt word_unat_eq_iff)
qed

lemma next_page':
  assumes "aligned p" and "aligned e" and "p \<le> e" and "\<not> (p + PGSIZE \<le> e \<and> p < p + PGSIZE)"
  shows "p = e"
proof (rule ccontr)
  assume "p \<noteq> e"
  obtain a where a: "unat p = 4096 * a" using assms(1) by (rule aligned_obtain)
  obtain b where b: "unat e = 4096 * b" "b < 2 ^ 52" using assms(2) by (rule aligned_obtain)
  have "a < b" using a b \<open>p \<noteq> e\<close> assms(3) by (auto simp: word_le_nat_alt word_unat_eq_iff)
  then have "unat (p + of_nat 4096) = unat p + 4096" using a b by (intro unat_add_64) auto
  then show False using assms(4) a b \<open>a < b\<close> by (simp add: PGSIZE_def word_less_nat_alt word_le_nat_alt)
qed

lemma kready_step: "kready s \<Longrightarrow> kready (settle s\<lparr>mem := m, freelist := f\<rparr>)"
  by (simp add: kready_def lock_simps)

lemma freerange_loop_collects:
  assumes "kready s" and "kmem_inv s ps" and "aligned p" and "kernel_end s \<le> p"
    and "aligned e" and "e \<le> PHYSTOP" and "p \<le> e"
    and "set ps = {q. page_ok (kernel_end s) q \<and> q < p}"
  shows "\<exists>t qs. freerange_loop p e s = Ret () t \<and> kready t \<and> kmem_inv t qs
    \<and> kernel_end t = kernel_end s \<and> set qs = {q. page_ok (kernel_end s) q \<and> q < e}"
  using assms
proof (induction p e s arbitrary: ps rule: freerange_loop.induct)
  case (1 p e s)
  show ?case
  proof (cases "p + PGSIZE \<le> e \<and> p < p + PGSIZE")
    case True
    let ?s = "settle s\<lparr>mem := store64 (put (mem s) p (replicate 4096 1)) p (freelist s), freelist := p\<rparr>"
    have ok: "page_ok (kernel_end s) p" using 1(4,5,7) True by (auto simp: page_ok_def)
    have p: "p \<notin> set ps" using 1(9) by simp
    have k: "kfree p s = Ret () ?s" by (rule kfree_ok [OF 1(2) ok])
    have "set (p # ps) = {q. page_ok (kernel_end s) q \<and> q < p + PGSIZE}"
      using 1(9) ok next_page [OF 1(4)] True by (auto simp: page_ok_def)
    then have q: "set (p # ps) = {q. page_ok (kernel_end ?s) q \<and> q < p + PGSIZE}" by simp
    have "kready ?s" by (rule kready_step [OF 1(2)])
    moreover have "kmem_inv ?s (p # ps)" by (rule kmem_inv_free [OF 1(3) ok p])
    moreover have "kernel_end ?s \<le> p + PGSIZE" using 1(5) True by (simp add: order.trans [OF _ less_imp_le])
    moreover have "aligned (p + PGSIZE)" "p + PGSIZE \<le> e" using 1(4) True by auto
    ultimately have "\<exists>t qs. freerange_loop (p + PGSIZE) e ?s = Ret () t \<and> kready t \<and> kmem_inv t qs
        \<and> kernel_end t = kernel_end ?s \<and> set qs = {q. page_ok (kernel_end ?s) q \<and> q < e}"
      using 1(1) [OF True k] 1(6,7) q by blast
    then show ?thesis using True k by (subst freerange_loop.simps) simp
  next
    case False
    then have "p = e" using 1(4,6,8) next_page' by blast
    then show ?thesis using 1(2,3,9) False by (subst freerange_loop.simps) auto
  qed
qed

lemma kready_initlock: "cpu_ok s \<Longrightarrow> kready (initlock Kmem n s)"
  by (simp add: kready_def initlock_def upd_lock_def free_lock_def)

text \<open>
  C19. Booting: from an empty list, with the kernel ending below the top of RAM, \<open>kinit\<close>
  returns with every whole page between the end of the kernel and \<open>PHYSTOP\<close> on the free
  list, each once.
\<close>

theorem kinit_collects_ram:
  assumes "cpu_ok s" and "freelist s = 0" and "0 < kernel_end s" and "kernel_end s \<le> PHYSTOP"
  shows "\<exists>t ps. kinit s = Ret () t \<and> kready t \<and> kmem_inv t ps \<and> distinct ps
    \<and> set ps = {p. aligned p \<and> kernel_end s \<le> p \<and> p < PHYSTOP}"
proof -
  let ?s = "initlock Kmem ''kmem'' s"
  let ?p = "PGROUNDUP (kernel_end s)"
  have s [simp]: "mem ?s = mem s" "freelist ?s = 0" "kernel_end ?s = kernel_end s"
    using assms by (simp_all add: initlock_def upd_lock_def)
  have k: "unat (kernel_end s) \<le> 2281701376"
    using assms(4) by (simp add: word_le_nat_alt PHYSTOP_def KERNBASE_def)
  have u: "unat ?p = (unat (kernel_end s) + 4095) div 4096 * 4096"
    by (rule unat_PGROUNDUP) (use k in simp)
  have "?p \<le> PHYSTOP" "kernel_end s \<le> ?p"
    using k by (simp_all add: word_le_nat_alt u PHYSTOP_def KERNBASE_def)
  moreover have "aligned PHYSTOP" by (simp add: aligned_def PHYSTOP_def KERNBASE_def PGSIZE_def)
  moreover have "\<not> (page_ok (kernel_end s) q \<and> q < ?p)" for q
  proof
    assume "page_ok (kernel_end s) q \<and> q < ?p"
    then have q: "aligned q" "unat (kernel_end s) \<le> unat q" "unat q < unat ?p"
      by (simp_all add: page_ok_def word_le_nat_alt word_less_nat_alt)
    obtain b where "unat q = 4096 * b" using q(1) by (rule aligned_obtain)
    then show False using q(2,3) unfolding u by (simp add: less_mult_imp_div_less)
  qed
  ultimately have "\<exists>t qs. freerange_loop ?p PHYSTOP ?s = Ret () t \<and> kready t \<and> kmem_inv t qs
      \<and> kernel_end t = kernel_end ?s \<and> set qs = {q. page_ok (kernel_end ?s) q \<and> q < PHYSTOP}"
    using assms(1,3)
    by (intro freerange_loop_collects [where ps = "[]"] kready_initlock) (auto simp: kmem_inv_def)
  then show ?thesis
    by (auto simp: kinit_def freerange_def kmem_inv_def page_ok_def Collect_conj_eq)
qed

theorem kinit_collects_ram_witness:
  "\<exists>t ps. kinit boot_kmem = Ret () t \<and> kmem_inv t ps
    \<and> set ps = {p. aligned p \<and> 0x80020000 \<le> p \<and> p < PHYSTOP}"
  using kinit_collects_ram [of boot_kmem]
  by (fastforce simp: boot_kmem_def mach.defs boot_mach_def cpus_ok_def PHYSTOP_def KERNBASE_def)

theorem kalloc_fresh_page_witness:
  "\<exists>t. kalloc (boot_kmem\<lparr>freelist := 0x80021000\<rparr>) = Ret 0x80021000 t
    \<and> get (mem t) 0x80021000 4096 = replicate 4096 5"
proof -
  let ?s = "boot_kmem\<lparr>freelist := 0x80021000\<rparr>"
  have k: "kready ?s" "kmem_inv ?s [0x80021000]" by (simp_all add: boot_kmem_simps)
  then obtain t where t: "kalloc ?s = Ret 0x80021000 t" using kalloc_Cons by blast
  show ?thesis
    by (intro exI [of _ t] conjI t) (use kalloc_fresh_page [OF k t] in simp)
qed

theorem kfree_checks_address_witness:
  "\<exists>t. kfree 0x80021000 boot_kmem = Ret () t \<and> kmem_inv t [0x80021000]"
  using kfree_checks_address [of boot_kmem "[]" "0x80021000"] by (auto simp: boot_kmem_simps)

end
