(* ===== verification/Vm.thy ===== *)
theory Vm
  imports Kalloc
begin

text \<open>
  Page tables and user memory, \<open>kernel/vm.c\<close>. A page table is a tree of pages in physical
  memory. The model's walk reads and writes the entries there, as the code does. Kernel objects
  other than pages (stack buffers, cached blocks, pipe data) are not part of the model's memory,
  so \<open>copyout\<close> reads its source, and \<open>copyin\<close> writes its destination, as a C array
  seen from the pointer on.
\<close>

section \<open>Walking and mapping\<close>

primrec walk_loop :: "nat \<Rightarrow> uint64 \<Rightarrow> uint64 \<Rightarrow> bool \<Rightarrow> 'a kmem_state_scheme \<Rightarrow> ('a kmem_state_scheme, uint64) res" where
  "walk_loop 0 pagetable va alloc s = Ret (pagetable + 8 * PX 0 va) s"
| "walk_loop (Suc level) pagetable va alloc s =
     (let pte = pagetable + 8 * PX (Suc level) va
      in if load64 (mem s) pte AND PTE_V \<noteq> 0
         then walk_loop level (PTE2PA (load64 (mem s) pte)) va alloc s
         else if \<not> alloc then Ret 0 s
         else res_bind (kalloc s) (\<lambda>pagetable s.
           if pagetable = 0 then Ret 0 s
           else
             let s = s\<lparr>mem := memset (mem s) pagetable 0 4096\<rparr>;
                 s = s\<lparr>mem := store64 (mem s) pte (PA2PTE pagetable OR PTE_V)\<rparr>
             in walk_loop level pagetable va alloc s))"

definition walk :: "uint64 \<Rightarrow> uint64 \<Rightarrow> bool \<Rightarrow> 'a kmem_state_scheme \<Rightarrow> ('a kmem_state_scheme, uint64) res" where
  "walk pagetable va alloc s =
     (if MAXVA \<le> va then Panic ''walk'' else walk_loop 2 pagetable va alloc s)"

definition walkaddr :: "uint64 \<Rightarrow> uint64 \<Rightarrow> 'a kmem_state_scheme \<Rightarrow> ('a kmem_state_scheme, uint64) res" where
  "walkaddr pagetable va s =
     (if MAXVA \<le> va then Ret 0 s
      else res_bind (walk pagetable va False s) (\<lambda>pte s.
        if pte = 0 then Ret 0 s
        else if load64 (mem s) pte AND PTE_V = 0 then Ret 0 s
        else if load64 (mem s) pte AND PTE_U = 0 then Ret 0 s
        else Ret (PTE2PA (load64 (mem s) pte)) s))"

lemma walk_RetD: "walk pt va al s = Ret p t \<Longrightarrow> va < MAXVA"
  by (simp add: walk_def split: if_splits)

text \<open>
  The loop of \<open>mappages\<close> ends because \<open>walk\<close> panics at the end of the address space.
\<close>

function mappages_loop :: "uint64 \<Rightarrow> uint64 \<Rightarrow> uint64 \<Rightarrow> uint64 \<Rightarrow> uint64 \<Rightarrow> 'a kmem_state_scheme \<Rightarrow>
    ('a kmem_state_scheme, int) res" where
  "mappages_loop pagetable a last_va pa perm s =
     res_bind (walk pagetable a True s) (\<lambda>pte s.
       if pte = 0 then Ret (-1) s
       else if load64 (mem s) pte AND PTE_V \<noteq> 0 then Panic ''remap''
       else
         let s = s\<lparr>mem := store64 (mem s) pte (PA2PTE pa OR perm OR PTE_V)\<rparr>
         in if a = last_va then Ret 0 s
            else mappages_loop pagetable (a + PGSIZE) last_va (pa + PGSIZE) perm s)"
  by pat_completeness auto
termination
  by (relation "measure (\<lambda>(pt, a, last_va, pa, perm, s). unat MAXVA - unat a)")
    (auto dest!: walk_RetD simp: MAXVA_eq PGSIZE_def word_less_nat_alt unat_word_ariths)

declare mappages_loop.simps [simp del]

definition mappages :: "uint64 \<Rightarrow> uint64 \<Rightarrow> uint64 \<Rightarrow> uint64 \<Rightarrow> uint64 \<Rightarrow> 'a kmem_state_scheme \<Rightarrow>
    ('a kmem_state_scheme, int) res" where
  "mappages pagetable va sz pa perm s =
     mappages_loop pagetable (PGROUNDDOWN va) (PGROUNDDOWN (va + sz - 1)) pa perm s"

definition kvmmap :: "uint64 \<Rightarrow> uint64 \<Rightarrow> uint64 \<Rightarrow> uint64 \<Rightarrow> uint64 \<Rightarrow> 'a kmem_state_scheme \<Rightarrow>
    ('a kmem_state_scheme, unit) res" where
  "kvmmap kpgtbl va pa sz perm s =
     res_bind (mappages kpgtbl va sz pa perm s) (\<lambda>r s. if r \<noteq> 0 then Panic ''kvmmap'' else Ret () s)"

function uvmunmap_loop :: "uint64 \<Rightarrow> uint64 \<Rightarrow> uint64 \<Rightarrow> bool \<Rightarrow> 'a kmem_state_scheme \<Rightarrow> ('a kmem_state_scheme, unit) res" where
  "uvmunmap_loop pagetable a last_va do_free s =
     (if a < last_va then
        res_bind (walk pagetable a False s) (\<lambda>pte s.
          if pte = 0 then Panic ''uvmunmap: walk''
          else if load64 (mem s) pte AND PTE_V = 0 then Panic ''uvmunmap: not mapped''
          else if PTE_FLAGS (load64 (mem s) pte) = PTE_V then Panic ''uvmunmap: not a leaf''
          else
            res_bind (if do_free then kfree (PTE2PA (load64 (mem s) pte)) s else Ret () s) (\<lambda>_ s.
              uvmunmap_loop pagetable (a + PGSIZE) last_va do_free (s\<lparr>mem := store64 (mem s) pte 0\<rparr>)))
      else Ret () s)"
  by pat_completeness auto
termination
  by (relation "measure (\<lambda>(pt, a, last_va, f, s). unat MAXVA - unat a)")
    (auto dest!: walk_RetD simp: MAXVA_eq PGSIZE_def word_less_nat_alt unat_word_ariths)

declare uvmunmap_loop.simps [simp del]

definition uvmunmap :: "uint64 \<Rightarrow> uint64 \<Rightarrow> uint64 \<Rightarrow> bool \<Rightarrow> 'a kmem_state_scheme \<Rightarrow> ('a kmem_state_scheme, unit) res" where
  "uvmunmap pagetable va npages do_free s =
     (if va mod PGSIZE \<noteq> 0 then Panic ''uvmunmap: not aligned''
      else uvmunmap_loop pagetable va (va + npages * PGSIZE) do_free s)"

section \<open>User memory\<close>

definition uvmcreate :: "'a kmem_state_scheme \<Rightarrow> ('a kmem_state_scheme, uint64) res" where
  "uvmcreate s =
     res_bind (kalloc s) (\<lambda>pagetable s.
       if pagetable = 0 then Ret 0 s
       else Ret pagetable (s\<lparr>mem := memset (mem s) pagetable 0 4096\<rparr>))"

definition uvminit :: "uint64 \<Rightarrow> cptr \<Rightarrow> uint \<Rightarrow> 'a kmem_state_scheme \<Rightarrow> ('a kmem_state_scheme, unit) res" where
  "uvminit pagetable src sz s =
     (if 4096 \<le> sz then Panic ''inituvm: more than a page''
      else res_bind (kalloc s) (\<lambda>p s.
        let s = s\<lparr>mem := memset (mem s) p 0 4096\<rparr>
        in res_bind (mappages pagetable 0 PGSIZE p (PTE_W OR PTE_R OR PTE_X OR PTE_U) s) (\<lambda>_ s.
           Ret () (s\<lparr>mem := put (mem s) p (map src [0..<unat sz])\<rparr>))))"

definition uvmdealloc :: "uint64 \<Rightarrow> uint64 \<Rightarrow> uint64 \<Rightarrow> 'a kmem_state_scheme \<Rightarrow> ('a kmem_state_scheme, uint64) res" where
  "uvmdealloc pagetable oldsz newsz s =
     (if oldsz \<le> newsz then Ret oldsz s
      else if PGROUNDUP newsz < PGROUNDUP oldsz then
        let npages = (ucast ((PGROUNDUP oldsz - PGROUNDUP newsz) div PGSIZE) :: 32 word)
        in res_bind (uvmunmap pagetable (PGROUNDUP newsz) (scast npages) True s) (\<lambda>_ s. Ret newsz s)
      else Ret newsz s)"

lemma mappages_RetD: "mappages pt a n p perm s = Ret v t \<Longrightarrow> PGROUNDDOWN a < MAXVA"
  by (auto simp: mappages_def mappages_loop.simps [of pt "PGROUNDDOWN a"] res_bind_Ret_iff dest!: walk_RetD)

lemma PGROUNDDOWN_less_MAXVA: "PGROUNDDOWN a < MAXVA \<Longrightarrow> a < MAXVA"
  by (simp add: word_less_nat_alt unat_PGROUNDDOWN MAXVA_eq)

function uvmalloc_loop :: "uint64 \<Rightarrow> uint64 \<Rightarrow> uint64 \<Rightarrow> uint64 \<Rightarrow> 'a kmem_state_scheme \<Rightarrow>
    ('a kmem_state_scheme, uint64) res" where
  "uvmalloc_loop pagetable a oldsz newsz s =
     (if a < newsz then
        res_bind (kalloc s) (\<lambda>p s.
          if p = 0 then res_bind (uvmdealloc pagetable a oldsz s) (\<lambda>_ s. Ret 0 s)
          else
            let s = s\<lparr>mem := memset (mem s) p 0 4096\<rparr>
            in res_bind (mappages pagetable a PGSIZE p (PTE_W OR PTE_X OR PTE_R OR PTE_U) s) (\<lambda>r s.
               if r \<noteq> 0 then
                 res_bind (kfree p s) (\<lambda>_ s.
                 res_bind (uvmdealloc pagetable a oldsz s) (\<lambda>_ s. Ret 0 s))
               else uvmalloc_loop pagetable (a + PGSIZE) oldsz newsz s))
      else Ret newsz s)"
  by pat_completeness auto
termination
  by (relation "measure (\<lambda>(pt, a, old, new, s). unat MAXVA - unat a)")
    (auto dest!: mappages_RetD PGROUNDDOWN_less_MAXVA
      simp: MAXVA_eq PGSIZE_def word_less_nat_alt unat_word_ariths)

declare uvmalloc_loop.simps [simp del]

definition uvmalloc :: "uint64 \<Rightarrow> uint64 \<Rightarrow> uint64 \<Rightarrow> 'a kmem_state_scheme \<Rightarrow> ('a kmem_state_scheme, uint64) res" where
  "uvmalloc pagetable oldsz newsz s =
     (if newsz < oldsz then Ret oldsz s
      else uvmalloc_loop pagetable (PGROUNDUP oldsz) (PGROUNDUP oldsz) newsz s)"

text \<open>
  The recursion of \<open>freewalk\<close> is bounded by the depth of the tree, which is the first
  argument; a page table of the kernel has three levels.
\<close>

primrec freewalk :: "nat \<Rightarrow> uint64 \<Rightarrow> 'a kmem_state_scheme \<Rightarrow> ('a kmem_state_scheme, unit) res" where
  "freewalk 0 pagetable s = OutOfFuel"
| "freewalk (Suc depth) pagetable s =
     res_bind (res_for [0..<512] (\<lambda>i s.
       let pte = load64 (mem s) (pagetable + 8 * of_nat i)
       in if pte AND PTE_V \<noteq> 0 \<and> pte AND (PTE_R OR PTE_W OR PTE_X) = 0 then
            res_bind (freewalk depth (PTE2PA pte) s) (\<lambda>_ s.
              Ret () (s\<lparr>mem := store64 (mem s) (pagetable + 8 * of_nat i) 0\<rparr>))
          else if pte AND PTE_V \<noteq> 0 then Panic ''freewalk: leaf''
          else Ret () s) s) (\<lambda>_ s.
     kfree pagetable s)"

definition uvmfree :: "uint64 \<Rightarrow> uint64 \<Rightarrow> 'a kmem_state_scheme \<Rightarrow> ('a kmem_state_scheme, unit) res" where
  "uvmfree pagetable sz s =
     res_bind (if 0 < sz then uvmunmap pagetable 0 (PGROUNDUP sz div PGSIZE) True s else Ret () s)
       (\<lambda>_ s. freewalk 3 pagetable s)"

function uvmcopy_loop :: "uint64 \<Rightarrow> uint64 \<Rightarrow> uint64 \<Rightarrow> uint64 \<Rightarrow> 'a kmem_state_scheme \<Rightarrow>
    ('a kmem_state_scheme, int) res" where
  "uvmcopy_loop old new i sz s =
     (if i < sz then
        res_bind (walk old i False s) (\<lambda>pte s.
          if pte = 0 then Panic ''uvmcopy: pte should exist''
          else if load64 (mem s) pte AND PTE_V = 0 then Panic ''uvmcopy: page not present''
          else
            let pa = PTE2PA (load64 (mem s) pte);
                flags = PTE_FLAGS (load64 (mem s) pte)
            in res_bind (kalloc s) (\<lambda>p s.
               if p = 0 then res_bind (uvmunmap new 0 (i div PGSIZE) True s) (\<lambda>_ s. Ret (-1) s)
               else
                 let s = s\<lparr>mem := memmove (mem s) p pa 4096\<rparr>
                 in res_bind (mappages new i PGSIZE p flags s) (\<lambda>r s.
                    if r \<noteq> 0 then
                      res_bind (kfree p s) (\<lambda>_ s.
                      res_bind (uvmunmap new 0 (i div PGSIZE) True s) (\<lambda>_ s. Ret (-1) s))
                    else uvmcopy_loop old new (i + PGSIZE) sz s)))
      else Ret 0 s)"
  by pat_completeness auto
termination
  by (relation "measure (\<lambda>(old, new, i, sz, s). unat MAXVA - unat i)")
    (auto dest!: walk_RetD simp: MAXVA_eq PGSIZE_def word_less_nat_alt unat_word_ariths)

declare uvmcopy_loop.simps [simp del]

definition uvmcopy :: "uint64 \<Rightarrow> uint64 \<Rightarrow> uint64 \<Rightarrow> 'a kmem_state_scheme \<Rightarrow> ('a kmem_state_scheme, int) res" where
  "uvmcopy old new sz s = uvmcopy_loop old new 0 sz s"

definition uvmclear :: "uint64 \<Rightarrow> uint64 \<Rightarrow> 'a kmem_state_scheme \<Rightarrow> ('a kmem_state_scheme, unit) res" where
  "uvmclear pagetable va s =
     res_bind (walk pagetable va False s) (\<lambda>pte s.
       if pte = 0 then Panic ''uvmclear''
       else Ret () (s\<lparr>mem := store64 (mem s) pte (load64 (mem s) pte AND NOT PTE_U)\<rparr>))"

section \<open>Copying between kernel and user\<close>

lemma page_offset_less: "unat (va - PGROUNDDOWN va) < 4096"
proof -
  have "unat (va - PGROUNDDOWN va) = unat va mod 4096"
    by (simp add: unat_sub_if' word_le_nat_alt unat_PGROUNDDOWN modulo_nat_def mult.commute)
  then show ?thesis by simp
qed

lemma page_rest_pos: "0 < PGSIZE - (va - PGROUNDDOWN va)"
  using page_offset_less [of va] by (simp add: PGSIZE_def word_less_nat_alt unat_sub_if' word_neq_0_conv [symmetric])

function copyout :: "uint64 \<Rightarrow> uint64 \<Rightarrow> cptr \<Rightarrow> uint64 \<Rightarrow> 'a kmem_state_scheme \<Rightarrow> ('a kmem_state_scheme, int) res" where
  "copyout pagetable dstva src len s =
     (if 0 < len then
        let va0 = PGROUNDDOWN dstva
        in res_bind (walkaddr pagetable va0 s) (\<lambda>pa0 s.
           if pa0 = 0 then Ret (-1) s
           else
             let n = PGSIZE - (dstva - va0);
                 n = (if len < n then len else n);
                 s = s\<lparr>mem := put (mem s) (pa0 + (dstva - va0)) (map src [0..<unat n])\<rparr>
             in copyout pagetable (va0 + PGSIZE) (\<lambda>i. src (unat n + i)) (len - n) s)
      else Ret 0 s)"
  by pat_completeness auto
termination
  by (relation "measure (\<lambda>(pt, va, src, len, s). unat len)")
    (auto simp: Let_def page_rest_pos not_less unat_gt_0 intro!: unat_diff_less)

function copyin :: "uint64 \<Rightarrow> cptr \<Rightarrow> nat \<Rightarrow> uint64 \<Rightarrow> uint64 \<Rightarrow> 'a kmem_state_scheme \<Rightarrow>
    ('a kmem_state_scheme, int \<times> cptr) res" where
  "copyin pagetable dst k srcva len s =
     (if 0 < len then
        let va0 = PGROUNDDOWN srcva
        in res_bind (walkaddr pagetable va0 s) (\<lambda>pa0 s.
           if pa0 = 0 then Ret (-1, dst) s
           else
             let n = PGSIZE - (srcva - va0);
                 n = (if len < n then len else n);
                 dst = write_at dst k (get (mem s) (pa0 + (srcva - va0)) (unat n))
             in copyin pagetable dst (k + unat n) (va0 + PGSIZE) (len - n) s)
      else Ret (0, dst) s)"
  by pat_completeness auto
termination
  by (relation "measure (\<lambda>(pt, d, k, va, len, s). unat len)")
    (auto simp: Let_def page_rest_pos not_less unat_gt_0 intro!: unat_diff_less)

declare copyout.simps [simp del] copyin.simps [simp del]

text \<open>
  The inner loop of \<open>copyinstr\<close> copies at most \<open>n\<close> bytes from one page: it returns
  whether it met the terminator, the destination, and the number of bytes it moved on.
\<close>

primrec copyinstr_page :: "nat \<Rightarrow> mem \<Rightarrow> uint64 \<Rightarrow> cptr \<Rightarrow> nat \<Rightarrow> nat \<Rightarrow> bool \<times> cptr \<times> nat" where
  "copyinstr_page 0 m p dst k moved = (False, dst, moved)"
| "copyinstr_page (Suc n) m p dst k moved =
     (if m p = 0 then (True, dst(k := 0), moved)
      else copyinstr_page n m (p + 1) (dst(k := m p)) (k + 1) (moved + 1))"

lemma copyinstr_page_moved:
  "copyinstr_page n m p dst k moved = (False, d, j) \<Longrightarrow> j = moved + n"
  by (induction n arbitrary: p dst k moved) (fastforce split: if_splits)+

function copyinstr :: "uint64 \<Rightarrow> cptr \<Rightarrow> nat \<Rightarrow> uint64 \<Rightarrow> uint64 \<Rightarrow> 'a kmem_state_scheme \<Rightarrow>
    ('a kmem_state_scheme, int \<times> cptr) res" where
  "copyinstr pagetable dst k srcva mx s =
     (if 0 < mx then
        let va0 = PGROUNDDOWN srcva
        in res_bind (walkaddr pagetable va0 s) (\<lambda>pa0 s.
           if pa0 = 0 then Ret (-1, dst) s
           else
             let n = PGSIZE - (srcva - va0);
                 n = (if mx < n then mx else n)
             in case copyinstr_page (unat n) (mem s) (pa0 + (srcva - va0)) dst k 0 of
                  (got_null, dst, moved) \<Rightarrow>
                    if got_null then Ret (0, dst) s
                    else copyinstr pagetable dst (k + moved) (va0 + PGSIZE) (mx - of_nat moved) s)
      else Ret (-1, dst) s)"
  by pat_completeness auto
termination
  by (relation "measure (\<lambda>(pt, d, k, va, mx, s). unat mx)")
    (auto simp: Let_def page_rest_pos not_less unat_gt_0 dest!: copyinstr_page_moved [OF sym]
      intro!: unat_diff_less)

declare copyinstr.simps [simp del]

section \<open>The kernel page table\<close>

record vm_state = kmem_state +
  kernel_pagetable :: uint64
  satp :: "nat \<Rightarrow> uint64"

definition SATP_SV39 :: uint64 where "SATP_SV39 = push_bit 60 8"

definition MAKE_SATP :: "uint64 \<Rightarrow> uint64" where
  "MAKE_SATP pagetable = SATP_SV39 OR drop_bit 12 pagetable"

definition proc_mapstacks :: "uint64 \<Rightarrow> 'a kmem_state_scheme \<Rightarrow> ('a kmem_state_scheme, unit) res" where
  "proc_mapstacks kpgtbl s =
     res_for [0..<NPROC] (\<lambda>p s.
       res_bind (kalloc s) (\<lambda>pa s.
         if pa = 0 then Panic ''kalloc''
         else kvmmap kpgtbl (KSTACK (of_nat p)) pa PGSIZE (PTE_R OR PTE_W) s)) s"

text \<open>The linker symbols \<open>etext\<close> and \<open>trampoline\<close> are parameters.\<close>

definition kvmmake :: "uint64 \<Rightarrow> uint64 \<Rightarrow> 'a kmem_state_scheme \<Rightarrow> ('a kmem_state_scheme, uint64) res" where
  "kvmmake etext trampoline s =
     res_bind (kalloc s) (\<lambda>kpgtbl s.
     let s = s\<lparr>mem := memset (mem s) kpgtbl 0 4096\<rparr> in
     res_bind (kvmmap kpgtbl UART0 UART0 PGSIZE (PTE_R OR PTE_W) s) (\<lambda>_ s.
     res_bind (kvmmap kpgtbl VIRTIO0 VIRTIO0 PGSIZE (PTE_R OR PTE_W) s) (\<lambda>_ s.
     res_bind (kvmmap kpgtbl PLIC PLIC 0x400000 (PTE_R OR PTE_W) s) (\<lambda>_ s.
     res_bind (kvmmap kpgtbl KERNBASE KERNBASE (etext - KERNBASE) (PTE_R OR PTE_X) s) (\<lambda>_ s.
     res_bind (kvmmap kpgtbl etext etext (PHYSTOP - etext) (PTE_R OR PTE_W) s) (\<lambda>_ s.
     res_bind (kvmmap kpgtbl TRAMPOLINE trampoline PGSIZE (PTE_R OR PTE_X) s) (\<lambda>_ s.
     res_bind (proc_mapstacks kpgtbl s) (\<lambda>_ s.
     Ret kpgtbl s))))))))"

definition kvminit :: "uint64 \<Rightarrow> uint64 \<Rightarrow> 'a vm_state_scheme \<Rightarrow> ('a vm_state_scheme, unit) res" where
  "kvminit etext trampoline s =
     res_bind (kvmmake etext trampoline s) (\<lambda>pt s. Ret () (s\<lparr>kernel_pagetable := pt\<rparr>))"

definition kvminithart :: "'a vm_state_scheme \<Rightarrow> 'a vm_state_scheme" where
  "kvminithart s = s\<lparr>satp := (satp s)(hart s := MAKE_SATP (kernel_pagetable s))\<rparr>"

end
