(* ===== verification/Proc.thy ===== *)
theory Proc
  imports Vm
begin

text \<open>
  Processes, \<open>kernel/proc.h\<close> and the part of \<open>kernel/proc.c\<close> that does not call the
  file system: the process table, allocation and freeing of processes, sleep and wakeup,
  kill, the context switch as seen from both sides, and copying to and from the current
  process. A \<open>struct proc *\<close> is the index into the table. A wait channel is an address of a
  kernel object; the channels the kernel uses are the constructors of \<open>chan\<close>, among them the
  null pointer, on which no process sleeps.
\<close>

section \<open>State\<close>

datatype procstate = UNUSED | USED | SLEEPING | RUNNABLE | RUNNING | ZOMBIE

datatype chan =
    Chan_proc nat | Chan_ticks | Chan_log | Chan_sleeplock slid | Chan_nread uint64 | Chan_nwrite uint64
  | Chan_cons | Chan_uart_tx | Chan_buf nat | Chan_disk_free | Chan_null

record proc_context =
  ctx_ra :: uint64
  ctx_sp :: uint64
  ctx_saved :: "uint64 list"

record proc =
  p_state :: procstate
  p_chan :: "chan option"
  p_killed :: int
  p_xstate :: "32 word"
  p_pid :: "32 word"
  p_parent :: "nat option"
  p_kstack :: uint64
  p_sz :: uint64
  p_pagetable :: uint64
  p_trapframe :: uint64
  p_context :: proc_context
  p_ofile :: "nat option list"
  p_cwd :: "nat option"
  p_name :: "byte list"

text \<open>
  The globals of \<open>proc.c\<close>; \<open>trampoline\<close> and the address of \<open>forkret\<close> come from the
  linker.
\<close>

record proc_state = vm_state +
  proc :: "nat \<Rightarrow> proc"
  nextpid :: "32 word"
  initproc :: "nat option"
  trampoline :: uint64
  forkret_addr :: uint64

definition upd_proc :: "nat \<Rightarrow> (proc \<Rightarrow> proc) \<Rightarrow> 'a proc_state_scheme \<Rightarrow> 'a proc_state_scheme" where
  "upd_proc p f s = s\<lparr>proc := (proc s)(p := f (proc s p))\<rparr>"

definition set_cproc :: "nat option \<Rightarrow> 'a mach_scheme \<Rightarrow> 'a mach_scheme" where
  "set_cproc p s = upd_cpu (\<lambda>c. c\<lparr>c_proc := p\<rparr>) s"

text \<open>
  \<open>struct trapframe\<close>: its fields in order, each a \<open>uint64\<close>; the frame itself is in the
  page that \<open>p_trapframe\<close> points to.
\<close>

definition trapframe :: "string list" where
  "trapframe = [''kernel_satp'', ''kernel_sp'', ''kernel_trap'', ''epc'', ''kernel_hartid'',
     ''ra'', ''sp'', ''gp'', ''tp'', ''t0'', ''t1'', ''t2'', ''s0'', ''s1'',
     ''a0'', ''a1'', ''a2'', ''a3'', ''a4'', ''a5'', ''a6'', ''a7'',
     ''s2'', ''s3'', ''s4'', ''s5'', ''s6'', ''s7'', ''s8'', ''s9'', ''s10'', ''s11'',
     ''t3'', ''t4'', ''t5'', ''t6'']"

definition tf :: "string \<Rightarrow> uint64" where
  "tf field = of_nat (8 * length (takeWhile (\<lambda>f. f \<noteq> field) trapframe))"

definition TF_size :: nat where "TF_size = 8 * length trapframe"

definition get_tf :: "nat \<Rightarrow> string \<Rightarrow> 'a proc_state_scheme \<Rightarrow> uint64" where
  "get_tf p field s = load64 (mem s) (p_trapframe (proc s p) + tf field)"

definition set_tf :: "nat \<Rightarrow> string \<Rightarrow> uint64 \<Rightarrow> 'a proc_state_scheme \<Rightarrow> 'a proc_state_scheme" where
  "set_tf p field v s = s\<lparr>mem := store64 (mem s) (p_trapframe (proc s p) + tf field) v\<rparr>"

section \<open>The current process and process ids\<close>

definition procinit :: "'a proc_state_scheme \<Rightarrow> 'a proc_state_scheme" where
  "procinit s =
     fold (\<lambda>p s. upd_proc p (\<lambda>q. q\<lparr>p_kstack := KSTACK (of_nat p)\<rparr>) (initlock (Proc_lock p) ''proc'' s)) [0..<NPROC]
       (initlock Wait_lock ''wait_lock'' (initlock Pid_lock ''nextpid'' s))"

definition myproc :: "'a mach_scheme \<Rightarrow> ('a mach_scheme, nat option) res" where
  "myproc s =
     (let s = push_off s;
          p = c_proc (mycpu s)
      in res_bind (pop_off s) (\<lambda>_ s. Ret p s))"

definition allocpid :: "'a proc_state_scheme \<Rightarrow> ('a proc_state_scheme, 32 word) res" where
  "allocpid s =
     res_bind (acquire Pid_lock s) (\<lambda>_ s.
     let pid = nextpid s;
         s = s\<lparr>nextpid := nextpid s + 1\<rparr>
     in res_bind (release Pid_lock s) (\<lambda>_ s. Ret pid s))"

section \<open>Page tables of processes\<close>

definition proc_pagetable :: "nat \<Rightarrow> 'a proc_state_scheme \<Rightarrow> ('a proc_state_scheme, uint64) res" where
  "proc_pagetable p s =
     res_bind (uvmcreate s) (\<lambda>pagetable s.
     if pagetable = 0 then Ret 0 s
     else
       res_bind (mappages pagetable TRAMPOLINE PGSIZE (trampoline s) (PTE_R OR PTE_X) s) (\<lambda>r s.
       if r < 0 then res_bind (uvmfree pagetable 0 s) (\<lambda>_ s. Ret 0 s)
       else
         res_bind (mappages pagetable TRAPFRAME PGSIZE (p_trapframe (proc s p)) (PTE_R OR PTE_W) s) (\<lambda>r s.
         if r < 0 then
           res_bind (uvmunmap pagetable TRAMPOLINE 1 False s) (\<lambda>_ s.
           res_bind (uvmfree pagetable 0 s) (\<lambda>_ s. Ret 0 s))
         else Ret pagetable s)))"

definition proc_freepagetable :: "uint64 \<Rightarrow> uint64 \<Rightarrow> 'a proc_state_scheme \<Rightarrow> ('a proc_state_scheme, unit) res" where
  "proc_freepagetable pagetable sz s =
     res_bind (uvmunmap pagetable TRAMPOLINE 1 False s) (\<lambda>_ s.
     res_bind (uvmunmap pagetable TRAPFRAME 1 False s) (\<lambda>_ s.
     uvmfree pagetable sz s))"

section \<open>Allocating and freeing\<close>

definition freeproc :: "nat \<Rightarrow> 'a proc_state_scheme \<Rightarrow> ('a proc_state_scheme, unit) res" where
  "freeproc p s =
     res_bind (if p_trapframe (proc s p) \<noteq> 0 then kfree (p_trapframe (proc s p)) s else Ret () s) (\<lambda>_ s.
     let s = upd_proc p (\<lambda>q. q\<lparr>p_trapframe := 0\<rparr>) s in
     res_bind (if p_pagetable (proc s p) \<noteq> 0 then proc_freepagetable (p_pagetable (proc s p)) (p_sz (proc s p)) s
               else Ret () s) (\<lambda>_ s.
     Ret () (upd_proc p (\<lambda>q. q\<lparr>p_pagetable := 0, p_sz := 0, p_pid := 0, p_parent := None,
       p_name := (p_name q)[0 := 0], p_chan := None, p_killed := 0, p_xstate := 0, p_state := UNUSED\<rparr>) s)))"

primrec allocproc_scan :: "nat list \<Rightarrow> 'a proc_state_scheme \<Rightarrow> ('a proc_state_scheme, nat option) res" where
  "allocproc_scan [] s = Ret None s"
| "allocproc_scan (p # ps) s =
     res_bind (acquire (Proc_lock p) s) (\<lambda>_ s.
     if p_state (proc s p) = UNUSED then Ret (Some p) s
     else res_bind (release (Proc_lock p) s) (\<lambda>_ s. allocproc_scan ps s))"

definition allocproc :: "'a proc_state_scheme \<Rightarrow> ('a proc_state_scheme, nat option) res" where
  "allocproc s =
     res_bind (allocproc_scan [0..<NPROC] s) (\<lambda>found s.
     case found of None \<Rightarrow> Ret None s
     | Some p \<Rightarrow>
         res_bind (allocpid s) (\<lambda>pid s.
         let s = upd_proc p (\<lambda>q. q\<lparr>p_pid := pid, p_state := USED\<rparr>) s in
         res_bind (kalloc s) (\<lambda>frame s.
         let s = upd_proc p (\<lambda>q. q\<lparr>p_trapframe := frame\<rparr>) s in
         if frame = 0 then
           res_bind (freeproc p s) (\<lambda>_ s. res_bind (release (Proc_lock p) s) (\<lambda>_ s. Ret None s))
         else
           res_bind (proc_pagetable p s) (\<lambda>pt s.
           let s = upd_proc p (\<lambda>q. q\<lparr>p_pagetable := pt\<rparr>) s in
           if pt = 0 then
             res_bind (freeproc p s) (\<lambda>_ s. res_bind (release (Proc_lock p) s) (\<lambda>_ s. Ret None s))
           else
             Ret (Some p) (upd_proc p (\<lambda>q. q\<lparr>p_context :=
               \<lparr>ctx_ra = forkret_addr s, ctx_sp = p_kstack q + PGSIZE, ctx_saved = replicate 12 0\<rparr>\<rparr>) s)))))"

text \<open>
  \<open>growproc\<close> computes the size in an unsigned 32-bit variable: \<open>sz + n\<close> wraps at
  \<open>2^32\<close> and is widened again for the call.
\<close>

definition growproc :: "32 word \<Rightarrow> 'a proc_state_scheme \<Rightarrow> ('a proc_state_scheme, int) res" where
  "growproc n s =
     res_bind (myproc s) (\<lambda>cur s.
     let p = the cur;
         sz = (ucast (p_sz (proc s p)) :: uint)
     in if 0 <s n then
          res_bind (uvmalloc (p_pagetable (proc s p)) (ucast sz) (ucast (sz + n)) s) (\<lambda>r s.
          let sz = (ucast r :: uint)
          in if sz = 0 then Ret (-1) s
             else Ret 0 (upd_proc p (\<lambda>q. q\<lparr>p_sz := ucast sz\<rparr>) s))
        else if n <s 0 then
          res_bind (uvmdealloc (p_pagetable (proc s p)) (ucast sz) (ucast (sz + n)) s) (\<lambda>r s.
          let sz = (ucast r :: uint)
          in Ret 0 (upd_proc p (\<lambda>q. q\<lparr>p_sz := ucast sz\<rparr>) s))
        else Ret 0 (upd_proc p (\<lambda>q. q\<lparr>p_sz := ucast sz\<rparr>) s))"

section \<open>Switching, sleeping and waking\<close>

text \<open>
  \<open>sched\<close> saves \<open>intena\<close> and switches to the scheduler: the process leaves the CPU in
  this state. \<open>sched_back\<close> is what remains to be done when the scheduler switches back.
\<close>

definition sched :: "'a proc_state_scheme \<Rightarrow> ('a proc_state_scheme, 'b) res" where
  "sched s =
     res_bind (myproc s) (\<lambda>cur s.
     let p = the cur
     in if \<not> holding (Proc_lock p) s then Panic ''sched p->lock''
        else if noff (mycpu s) \<noteq> 1 then Panic ''sched locks''
        else if p_state (proc s p) = RUNNING then Panic ''sched running''
        else if intr_get s then Panic ''sched interruptible''
        else Sleeps s)"

definition sched_back :: "bool \<Rightarrow> 'a mach_scheme \<Rightarrow> 'a mach_scheme" where
  "sched_back ie s = upd_cpu (\<lambda>c. c\<lparr>intena := ie\<rparr>) s"

definition yield :: "'a proc_state_scheme \<Rightarrow> ('a proc_state_scheme, unit) res" where
  "yield s =
     res_bind (myproc s) (\<lambda>cur s.
     let p = the cur in
     res_bind (acquire (Proc_lock p) s) (\<lambda>_ s.
     sched (upd_proc p (\<lambda>q. q\<lparr>p_state := RUNNABLE\<rparr>) s)))"

definition yield_back :: "bool \<Rightarrow> nat \<Rightarrow> 'a proc_state_scheme \<Rightarrow> ('a proc_state_scheme, unit) res" where
  "yield_back ie p s = release (Proc_lock p) (sched_back ie s)"

definition sleep :: "chan \<Rightarrow> lockid \<Rightarrow> 'a proc_state_scheme \<Rightarrow> ('a proc_state_scheme, 'b) res" where
  "sleep ch lk s =
     res_bind (myproc s) (\<lambda>cur s.
     let p = the cur in
     res_bind (acquire (Proc_lock p) s) (\<lambda>_ s.
     res_bind (release lk s) (\<lambda>_ s.
     sched (upd_proc p (\<lambda>q. q\<lparr>p_chan := Some ch, p_state := SLEEPING\<rparr>) s))))"

definition sleep_back :: "bool \<Rightarrow> nat \<Rightarrow> lockid \<Rightarrow> 'a proc_state_scheme \<Rightarrow> ('a proc_state_scheme, unit) res" where
  "sleep_back ie p lk s =
     res_bind (release (Proc_lock p) (upd_proc p (\<lambda>q. q\<lparr>p_chan := None\<rparr>) (sched_back ie s))) (\<lambda>_ s.
     acquire lk s)"

definition wakeup_one :: "chan \<Rightarrow> nat \<Rightarrow> 'a proc_state_scheme \<Rightarrow> ('a proc_state_scheme, unit) res" where
  "wakeup_one ch p s =
     res_bind (myproc s) (\<lambda>cur s.
     if cur \<noteq> Some p then
       res_bind (acquire (Proc_lock p) s) (\<lambda>_ s.
       release (Proc_lock p)
         (if p_state (proc s p) = SLEEPING \<and> p_chan (proc s p) = Some ch
          then upd_proc p (\<lambda>q. q\<lparr>p_state := RUNNABLE\<rparr>) s else s))
     else Ret () s)"

definition wakeup :: "chan \<Rightarrow> 'a proc_state_scheme \<Rightarrow> ('a proc_state_scheme, unit) res" where
  "wakeup ch s = res_for [0..<NPROC] (wakeup_one ch) s"

primrec kill_scan :: "32 word \<Rightarrow> nat list \<Rightarrow> 'a proc_state_scheme \<Rightarrow> ('a proc_state_scheme, int) res" where
  "kill_scan pid [] s = Ret (-1) s"
| "kill_scan pid (p # ps) s =
     res_bind (acquire (Proc_lock p) s) (\<lambda>_ s.
     if p_pid (proc s p) = pid then
       let s = upd_proc p (\<lambda>q. q\<lparr>p_killed := 1\<rparr>) s;
           s = (if p_state (proc s p) = SLEEPING then upd_proc p (\<lambda>q. q\<lparr>p_state := RUNNABLE\<rparr>) s else s)
       in res_bind (release (Proc_lock p) s) (\<lambda>_ s. Ret 0 s)
     else res_bind (release (Proc_lock p) s) (\<lambda>_ s. kill_scan pid ps s))"

definition kill :: "32 word \<Rightarrow> 'a proc_state_scheme \<Rightarrow> ('a proc_state_scheme, int) res" where
  "kill pid s = kill_scan pid [0..<NPROC] s"

text \<open>
  The scheduler's side. \<open>scheduler_pick p\<close> is the body of its loop up to the switch: it
  returns whether it switches to \<open>p\<close>, which then runs holding its lock; otherwise the lock
  is released again. \<open>scheduler_back p\<close> is the rest of the body, after the process has
  switched back.
\<close>

definition scheduler_pick :: "nat \<Rightarrow> 'a proc_state_scheme \<Rightarrow> ('a proc_state_scheme, bool) res" where
  "scheduler_pick p s =
     res_bind (acquire (Proc_lock p) s) (\<lambda>_ s.
     if p_state (proc s p) = RUNNABLE then
       Ret True (set_cproc (Some p) (upd_proc p (\<lambda>q. q\<lparr>p_state := RUNNING\<rparr>) s))
     else res_bind (release (Proc_lock p) s) (\<lambda>_ s. Ret False s))"

definition scheduler_back :: "nat \<Rightarrow> 'a proc_state_scheme \<Rightarrow> ('a proc_state_scheme, unit) res" where
  "scheduler_back p s = release (Proc_lock p) (set_cproc None s)"

section \<open>Copying for the current process\<close>

text \<open>
  The destination of \<open>either_copyout\<close>: a user address, a kernel address, or a kernel object
  that is not part of the model's memory, as an array with the index reached. The source of
  \<open>either_copyin\<close> likewise.
\<close>

datatype place = User uint64 | Kern uint64 | Obj cptr nat

primrec advance :: "uint64 \<Rightarrow> place \<Rightarrow> place" where
  "advance n (User a) = User (a + n)"
| "advance n (Kern a) = Kern (a + n)"
| "advance n (Obj d k) = Obj d (k + unat n)"

definition either_copyout :: "place \<Rightarrow> cptr \<Rightarrow> uint64 \<Rightarrow> 'a proc_state_scheme \<Rightarrow> ('a proc_state_scheme, int \<times> place) res" where
  "either_copyout dst src len s =
     res_bind (myproc s) (\<lambda>cur s.
     case dst of
       User a \<Rightarrow> res_bind (copyout (p_pagetable (proc s (the cur))) a src len s) (\<lambda>r s. Ret (r, dst) s)
     | Kern a \<Rightarrow> Ret (0, dst) (s\<lparr>mem := put (mem s) a (map src [0..<unat len])\<rparr>)
     | Obj d k \<Rightarrow> Ret (0, Obj (write_at d k (map src [0..<unat len])) k) s)"

definition either_copyin :: "cptr \<Rightarrow> nat \<Rightarrow> place \<Rightarrow> uint64 \<Rightarrow> 'a proc_state_scheme \<Rightarrow> ('a proc_state_scheme, int \<times> cptr) res" where
  "either_copyin dst k src len s =
     res_bind (myproc s) (\<lambda>cur s.
     case src of
       User a \<Rightarrow> copyin (p_pagetable (proc s (the cur))) dst k a len s
     | Kern a \<Rightarrow> Ret (0, write_at dst k (get (mem s) a (unat len))) s
     | Obj d j \<Rightarrow> Ret (0, write_at dst k (map (\<lambda>i. d (j + i)) [0..<unat len])) s)"

end
