(* ===== verification/Proc_Props.thy ===== *)
theory Proc_Props
  imports Proc
begin

text \<open>
  Correctness of the process primitives of \<open>kernel/proc.c\<close>: what \<open>sleep\<close>,
  \<open>wakeup\<close>, \<open>kill\<close>, \<open>allocpid\<close> and the two sides of the context switch do to the
  process table and to the locks.
\<close>

section \<open>Basic facts\<close>

abbreviation cur :: "'a mach_scheme \<Rightarrow> nat option" where
  "cur s \<equiv> c_proc (cpus s (hart s))"

lemma myproc_eq [lock_simps]: "cpu_ok s \<Longrightarrow> myproc s = Ret (c_proc (cpus s (hart s))) (settle s)"
  by (simp add: myproc_def push_off_eq pop_off_ok lock_simps Let_def mycpu_def cpuid_def)

text \<open>Locks of the process table other than one's own are free.\<close>

definition plocks_free :: "'a mach_scheme \<Rightarrow> bool" where
  "plocks_free s \<longleftrightarrow> cpu_ok s \<and> (\<forall>p<NPROC. lock_free (Proc_lock p) s)"

section \<open>wakeup\<close>

definition woken :: "chan \<Rightarrow> nat option \<Rightarrow> proc \<Rightarrow> nat \<Rightarrow> bool" where
  "woken ch me q p \<longleftrightarrow> me \<noteq> Some p \<and> p_state q = SLEEPING \<and> p_chan q = Some ch"

definition wake_table :: "chan \<Rightarrow> nat option \<Rightarrow> nat list \<Rightarrow> (nat \<Rightarrow> proc) \<Rightarrow> nat \<Rightarrow> proc" where
  "wake_table ch me ps t =
     (\<lambda>p. if p \<in> set ps \<and> woken ch me (t p) p then (t p)\<lparr>p_state := RUNNABLE\<rparr> else t p)"

lemma wakeup_one_eq:
  assumes "cpu_ok s" and "lock_free (Proc_lock p) s"
  shows "wakeup_one ch p s = Ret () (settle s\<lparr>proc := wake_table ch (cur s) [p] (proc s)\<rparr>)"
proof (cases "woken ch (cur s) (proc s p) p")
  case True
  then have "wake_table ch (cur s) [p] (proc s) = (proc s)(p := (proc s p)\<lparr>p_state := RUNNABLE\<rparr>)"
    by (auto simp: wake_table_def fun_eq_iff)
  then show ?thesis using True assms by (simp add: wakeup_one_def woken_def lock_simps upd_proc_def)
next
  case False
  then have "wake_table ch (cur s) [p] (proc s) = proc s" by (auto simp: wake_table_def fun_eq_iff)
  then show ?thesis using False assms by (auto simp: wakeup_one_def woken_def lock_simps)
qed

lemma wakeup_loop:
  assumes "cpu_ok s" and "\<forall>p\<in>set ps. lock_free (Proc_lock p) s" and "distinct ps"
  shows "res_for ps (wakeup_one ch) s =
    Ret () (s\<lparr>cpus := if ps = [] then cpus s else settle_cpus (hart s) (sie s) (cpus s),
              proc := wake_table ch (cur s) ps (proc s)\<rparr>)"
  using assms
proof (induction ps arbitrary: s)
  case Nil
  then show ?case by (simp add: wake_table_def)
next
  case (Cons p ps)
  have "wake_table ch me ps (wake_table ch me [p] t) = wake_table ch me (p # ps) t" for me t
    using Cons.prems(3) by (auto simp: wake_table_def woken_def fun_eq_iff)
  then show ?case using Cons by (simp add: wakeup_one_eq lock_simps)
qed

lemma wakeup_eq:
  assumes "plocks_free s"
  shows "wakeup ch s = Ret () (settle s\<lparr>proc := wake_table ch (cur s) [0..<NPROC] (proc s)\<rparr>)"
  using assms wakeup_loop [of s "[0..<NPROC]" ch] by (simp add: wakeup_def plocks_free_def NPROC_def)

text \<open>
  C27. \<open>wakeup\<close> is exact: with the process locks free it returns without a panic, every
  process other than the caller that sleeps on the channel becomes runnable, and every other
  process, and everything else but the CPU's saved interrupt flag, is unchanged.
\<close>

theorem wakeup_exact:
  assumes "plocks_free s"
  shows "\<exists>t. wakeup ch s = Ret () t \<and> t = settle s\<lparr>proc := proc t\<rparr>
    \<and> (\<forall>p. proc t p =
        (if p < NPROC \<and> cur s \<noteq> Some p \<and> p_state (proc s p) = SLEEPING \<and> p_chan (proc s p) = Some ch
         then (proc s p)\<lparr>p_state := RUNNABLE\<rparr> else proc s p))"
  using wakeup_eq [OF assms] by (auto simp: wake_table_def woken_def)

section \<open>sleep\<close>

text \<open>
  A process that may go to sleep: it is the current process of its CPU, whose only lock is
  \<open>lk\<close>, and its own lock is free.
\<close>

definition may_sleep :: "nat \<Rightarrow> lockid \<Rightarrow> 'a mach_scheme \<Rightarrow> bool" where
  "may_sleep p lk s \<longleftrightarrow> cpu_ok s \<and> cur s = Some p \<and> noff (cpus s (hart s)) = 1
     \<and> locked (locks s lk) \<and> lk_cpu (locks s lk) = Some (hart s)
     \<and> lk \<noteq> Proc_lock p \<and> lock_free (Proc_lock p) s"

lemma settle_cpus_deep: "noff (c h) \<noteq> 0 \<Longrightarrow> settle_cpus h e c = c"
  by (simp add: settle_cpus_def)

lemma cpus_ok_deep: "cpus_ok h e c \<Longrightarrow> noff (c h) = 1 \<Longrightarrow> \<not> e h"
  by (simp add: cpus_ok_def)

lemma leave_sie_deep: "noff (c h) \<noteq> 1 \<Longrightarrow> leave_sie h e c = e"
  by (simp add: leave_sie_def)

lemma sched_eq:
  assumes "cpu_ok s" and "cur s = Some p" and "noff (cpus s (hart s)) = 1" and "holding (Proc_lock p) s"
    and "p_state (proc s p) \<noteq> RUNNING"
  shows "sched s = Sleeps s"
  using assms cpus_ok_deep [OF assms(1,3)]
  by (simp add: sched_def lock_simps settle_cpus_deep intr_get_def mycpu_def cpuid_def)

lemma sleep_eq:
  assumes "may_sleep p lk s"
  shows "sleep ch lk s = Sleeps (s\<lparr>locks := drop_lock lk (take_lock (Proc_lock p) (hart s) (locks s)),
    proc := (proc s)(p := (proc s p)\<lparr>p_chan := Some ch, p_state := SLEEPING\<rparr>)\<rparr>)"
proof -
  have c: "cpu_ok s" "cur s = Some p" "noff (cpus s (hart s)) = 1" "\<not> sie s (hart s)"
    and l: "locked (locks s lk)" "lk_cpu (locks s lk) = Some (hart s)" "lk \<noteq> Proc_lock p" "lock_free (Proc_lock p) s"
    using assms cpus_ok_deep by (auto simp: may_sleep_def)
  let ?t = "s\<lparr>locks := drop_lock lk (take_lock (Proc_lock p) (hart s) (locks s))\<rparr>"
  have "(sie s)(hart s := False) = sie s" using c(4) by (auto simp: fun_eq_iff)
  then have "sleep ch lk s = sched (?t\<lparr>proc := (proc s)(p := (proc s p)\<lparr>p_chan := Some ch, p_state := SLEEPING\<rparr>)\<rparr>)"
    using c l
    by (simp add: sleep_def lock_simps settle_cpus_deep leave_sie_deep upd_proc_def)
  moreover have "holding (Proc_lock p) ?t" using l by (auto simp: holding_def cpuid_def drop_lock_def take_lock_def)
  ultimately show ?thesis using c by (subst (asm) sched_eq [where p = p]) (simp_all add: holding_def cpuid_def)
qed

lemma scheduler_back_eq:
  assumes "holding (Proc_lock p) s" and "cpu_ok s" and "noff (cpus s (hart s)) = 1"
  shows "scheduler_back p s = Ret () (s\<lparr>
    cpus := leave_cpus (hart s) ((cpus s)(hart s := (cpus s (hart s))\<lparr>c_proc := None\<rparr>)),
    sie := leave_sie (hart s) (sie s) (cpus s),
    locks := drop_lock (Proc_lock p) (locks s)\<rparr>)"
proof -
  let ?c = "(cpus s)(hart s := (cpus s (hart s))\<lparr>c_proc := None\<rparr>)"
  have "leave_sie (hart s) (sie s) ?c = leave_sie (hart s) (sie s) (cpus s)" by (simp add: leave_sie_def)
  then show ?thesis
    using assms cpus_ok_deep [OF assms(2,3)]
    by (simp add: scheduler_back_def set_cproc_def mach_defs holding_def release_held)
qed


section \<open>kill\<close>

lemma kill_scan_eq:
  assumes "cpu_ok s" and "\<forall>p\<in>set ps. lock_free (Proc_lock p) s" and "ps \<noteq> []"
  shows "kill_scan pid ps s =
    (case find (\<lambda>p. p_pid (proc s p) = pid) ps of
       None \<Rightarrow> Ret (-1) (settle s)
     | Some p \<Rightarrow> Ret 0 (settle s\<lparr>proc := (proc s)(p := (proc s p)\<lparr>p_killed := 1,
         p_state := if p_state (proc s p) = SLEEPING then RUNNABLE else p_state (proc s p)\<rparr>)\<rparr>))"
  using assms
proof (induction ps arbitrary: s)
  case (Cons p ps)
  have free: "lock_free (Proc_lock p) s" using Cons.prems by simp
  show ?case
  proof (cases "p_pid (proc s p) = pid")
    case True
    then show ?thesis using free Cons.prems(1) by (auto simp: lock_simps upd_proc_def Let_def)
  next
    case False
    then have "kill_scan pid (p # ps) s = kill_scan pid ps (settle s)"
      using free Cons.prems(1) by (simp add: lock_simps)
    then show ?thesis
      using Cons.IH [of "settle s"] Cons.prems False
      by (cases ps) (simp_all add: lock_simps split: option.split)
  qed
qed simp


section \<open>growproc\<close>

text \<open>
  C36. Shrinking by more than the size of the process is not an error: \<open>growproc\<close> returns
  0, the result for success, and neither the size nor memory changes, because the new size
  wraps in 32 bits and \<open>uvmdealloc\<close> takes it for a larger one.
\<close>

theorem growproc_overshrink:
  assumes "cpu_ok s" and "cur s = Some p" and "unat (p_sz (proc s p)) < k" and "k \<le> 2 ^ 31"
  shows "growproc (- of_nat k) s = Ret 0 (settle s)"
proof -
  let ?sz = "p_sz (proc s p)"
  let ?u = "ucast ?sz :: 32 word"
  define n where "n = (- of_nat k :: 32 word)"
  have u: "unat ?u = unat ?sz" using assms(3,4) by (simp add: unat_ucast_64_32)
  have wide: "(ucast ?u :: uint64) = ?sz" by (simp add: word_unat_eq_iff u)
  have "n = of_nat (2 ^ 32 - k)" using assms(4) by (simp add: n_def of_nat_diff)
  then have n: "unat n = 2 ^ 32 - k" using assms(3) by (simp only: unat_of_nat_32) simp
  have neg: "n <s 0" using n assms(3,4) by (simp add: word_sless_alt sint_32)
  then have pos: "\<not> 0 <s n" by (simp add: word_sless_alt)
  have "unat (?u + n) = unat ?sz + (2 ^ 32 - k)"
    unfolding unat_word_ariths(1) n u using assms(3,4) by simp
  then have ge: "?sz \<le> (ucast (?u + n) :: uint64)" by (simp add: word_le_nat_alt)
  have "uvmdealloc pt ?sz (ucast (?u + n)) t = Ret ?sz t" for pt and t :: "'a proc_state_scheme"
    using ge by (simp add: uvmdealloc_def)
  then have "growproc n s = Ret 0 (settle s)"
    using assms(1,2) pos neg by (simp add: growproc_def lock_simps Let_def wide upd_proc_def)
  then show ?thesis by (simp only: n_def)
qed

section \<open>A machine with two processes\<close>

definition no_proc :: proc where
  "no_proc = \<lparr>p_state = UNUSED, p_chan = None, p_killed = 0, p_xstate = 0, p_pid = 0, p_parent = None,
     p_kstack = 0, p_sz = 0, p_pagetable = 0, p_trapframe = 0,
     p_context = \<lparr>ctx_ra = 0, ctx_sp = 0, ctx_saved = replicate 12 0\<rparr>,
     p_ofile = replicate 16 None, p_cwd = None, p_name = replicate 16 0\<rparr>"

text \<open>
  Process 1 runs on CPU 0 and holds the lock \<open>lk\<close>; process 2 sleeps.
\<close>

definition demo_procs :: "lockid \<Rightarrow> proc_state" where
  "demo_procs lk =
     \<lparr>hart = 0, sie = (\<lambda>_. False),
      cpus = (\<lambda>h. \<lparr>c_proc = if h = 0 then Some 1 else None, noff = if h = 0 then 1 else 0, intena = True\<rparr>),
      locks = (\<lambda>l. \<lparr>locked = (l = lk), lk_name = [], lk_cpu = if l = lk then Some 0 else None\<rparr>),
      mem = (\<lambda>_. 0), freelist = 0, kernel_end = 0x80020000, kernel_pagetable = 0, satp = (\<lambda>_. 0),
      proc = (\<lambda>_. no_proc)(1 := no_proc\<lparr>p_state := RUNNING, p_pid := 1, p_sz := 4096\<rparr>,
        2 := no_proc\<lparr>p_state := SLEEPING, p_chan := Some Chan_ticks, p_pid := 2\<rparr>),
      nextpid = 3, initproc = Some 1, trampoline = 0x80007000, forkret_addr = 0x80001000\<rparr>"

lemma demo_procs_simps [simp]:
  "hart (demo_procs lk) = 0" "c_proc (cpus (demo_procs lk) 0) = Some 1"
  "p_state (proc (demo_procs lk) 1) = RUNNING" "p_sz (proc (demo_procs lk) 1) = 4096"
  "p_state (proc (demo_procs lk) 2) = SLEEPING" "p_chan (proc (demo_procs lk) 2) = Some Chan_ticks"
  "p_pid (proc (demo_procs lk) p) = (if p = 1 then 1 else if p = 2 then 2 else 0)"
  by (simp_all add: demo_procs_def no_proc_def)

lemma demo_plocks: "lk \<notin> range Proc_lock \<Longrightarrow> plocks_free (demo_procs lk)"
  by (auto simp: plocks_free_def demo_procs_def cpus_ok_def free_lock_def)

theorem wakeup_exact_witness:
  "\<exists>t. wakeup Chan_ticks (demo_procs Tickslock) = Ret () t \<and> p_state (proc t 2) = RUNNABLE
    \<and> proc t 1 = proc (demo_procs Tickslock) 1"
proof -
  obtain t where "wakeup Chan_ticks (demo_procs Tickslock) = Ret () t"
    "\<And>p. proc t p = (if p < NPROC \<and> cur (demo_procs Tickslock) \<noteq> Some p \<and> p_state (proc (demo_procs Tickslock) p) = SLEEPING
         \<and> p_chan (proc (demo_procs Tickslock) p) = Some Chan_ticks
       then (proc (demo_procs Tickslock) p)\<lparr>p_state := RUNNABLE\<rparr> else proc (demo_procs Tickslock) p)"
    using wakeup_exact [OF demo_plocks, of Tickslock Chan_ticks] by auto
  then show ?thesis by (intro exI [of _ t]) (simp add: NPROC_def)
qed



theorem growproc_overshrink_witness:
  "growproc (- of_nat 8192) (demo_procs Log_lock) = Ret 0 (settle (demo_procs Log_lock))"
  by (rule growproc_overshrink [where p = 1]) (simp_all add: demo_procs_def cpus_ok_def)

end
