(* ===== verification/Sleeplock.thy ===== *)
theory Sleeplock
  imports Proc_Props
begin

text \<open>
  Sleeping locks, \<open>kernel/sleeplock.c\<close>. A \<open>struct sleeplock *\<close> is its name of type
  \<open>slid\<close>; the spin lock inside it is \<open>Sleep_lk l\<close>, and the wait channel is its address.
  \<open>acquiresleep_loop\<close> is the part of \<open>acquiresleep\<close> from the \<open>while\<close> loop on: a
  process that was put to sleep there continues with it after \<open>sleep_back\<close>.
\<close>

section \<open>State and operations\<close>

record sleeplock =
  sl_locked :: bool
  sl_name :: string
  sl_pid :: "32 word"

record sleep_state = proc_state +
  sleeplocks :: "slid \<Rightarrow> sleeplock"

definition upd_sleeplock :: "slid \<Rightarrow> (sleeplock \<Rightarrow> sleeplock) \<Rightarrow> 'a sleep_state_scheme \<Rightarrow> 'a sleep_state_scheme" where
  "upd_sleeplock l f s = s\<lparr>sleeplocks := (sleeplocks s)(l := f (sleeplocks s l))\<rparr>"

definition initsleeplock :: "slid \<Rightarrow> string \<Rightarrow> 'a sleep_state_scheme \<Rightarrow> 'a sleep_state_scheme" where
  "initsleeplock l nm s =
     upd_sleeplock l (\<lambda>_. \<lparr>sl_locked = False, sl_name = nm, sl_pid = 0\<rparr>) (initlock (Sleep_lk l) ''sleep lock'' s)"

definition acquiresleep_loop :: "slid \<Rightarrow> 'a sleep_state_scheme \<Rightarrow> ('a sleep_state_scheme, unit) res" where
  "acquiresleep_loop l s =
     (if sl_locked (sleeplocks s l) then sleep (Chan_sleeplock l) (Sleep_lk l) s
      else
        let s = upd_sleeplock l (\<lambda>k. k\<lparr>sl_locked := True\<rparr>) s in
        res_bind (myproc s) (\<lambda>cur s.
        release (Sleep_lk l) (upd_sleeplock l (\<lambda>k. k\<lparr>sl_pid := p_pid (proc s (the cur))\<rparr>) s)))"

definition acquiresleep :: "slid \<Rightarrow> 'a sleep_state_scheme \<Rightarrow> ('a sleep_state_scheme, unit) res" where
  "acquiresleep l s = res_bind (acquire (Sleep_lk l) s) (\<lambda>_ s. acquiresleep_loop l s)"

definition acquiresleep_back :: "bool \<Rightarrow> nat \<Rightarrow> slid \<Rightarrow> 'a sleep_state_scheme \<Rightarrow> ('a sleep_state_scheme, unit) res" where
  "acquiresleep_back ie p l s = res_bind (sleep_back ie p (Sleep_lk l) s) (\<lambda>_ s. acquiresleep_loop l s)"

definition releasesleep :: "slid \<Rightarrow> 'a sleep_state_scheme \<Rightarrow> ('a sleep_state_scheme, unit) res" where
  "releasesleep l s =
     res_bind (acquire (Sleep_lk l) s) (\<lambda>_ s.
     res_bind (wakeup (Chan_sleeplock l) (upd_sleeplock l (\<lambda>k. k\<lparr>sl_locked := False, sl_pid := 0\<rparr>) s)) (\<lambda>_ s.
     release (Sleep_lk l) s))"

definition holdingsleep :: "slid \<Rightarrow> 'a sleep_state_scheme \<Rightarrow> ('a sleep_state_scheme, bool) res" where
  "holdingsleep l s =
     res_bind (acquire (Sleep_lk l) s) (\<lambda>_ s.
     res_bind (myproc s) (\<lambda>cur s.
     let r = sl_locked (sleeplocks s l) \<and> sl_pid (sleeplocks s l) = p_pid (proc s (the cur)) in
     res_bind (release (Sleep_lk l) s) (\<lambda>_ s. Ret r s)))"

section \<open>What a process sees that holds no spin lock\<close>

text \<open>
  The state in which system calls run their code: a current process, and no spin lock held by
  anybody. Operations that return leave it so.
\<close>

definition calm :: "'a mach_scheme \<Rightarrow> bool" where
  "calm s \<longleftrightarrow> cpu_ok s \<and> (\<exists>p. cur s = Some p) \<and> (\<forall>lk. lock_free lk s)"

abbreviation my :: "'a proc_state_scheme \<Rightarrow> proc" where
  "my s \<equiv> proc s (the (cur s))"

lemma calmD:
  assumes "calm s"
  shows "cpu_ok s" "lock_free lk s" "plocks_free s"
  using assms by (auto simp: calm_def plocks_free_def)

lemma calm_settle [simp]: "calm (settle s) \<longleftrightarrow> calm s"
  by (simp add: calm_def lock_simps)

lemma calm_cong:
  "hart t = hart s \<Longrightarrow> sie t = sie s \<Longrightarrow> cpus t = cpus s \<Longrightarrow> locks t = locks s \<Longrightarrow> calm t = calm s"
  by (simp add: calm_def)

lemma acquiresleep_free:
  assumes "calm s" and "\<not> sl_locked (sleeplocks s l)"
  shows "acquiresleep l s = Ret () (settle s\<lparr>sleeplocks :=
    (sleeplocks s)(l := (sleeplocks s l)\<lparr>sl_locked := True, sl_pid := p_pid (my s)\<rparr>)\<rparr>)"
  using assms calmD [OF assms(1)]
  by (simp add: acquiresleep_def acquiresleep_loop_def upd_sleeplock_def lock_simps Let_def)

lemma wakeup_locked:
  assumes "cpu_ok s" and "\<forall>p<NPROC. lock_free (Proc_lock p) s"
  shows "wakeup ch s = Ret () (settle s\<lparr>proc := wake_table ch (cur s) [0..<NPROC] (proc s)\<rparr>)"
  using assms by (intro wakeup_eq) (simp add: plocks_free_def)

lemma releasesleep_eq:
  assumes "calm s"
  shows "releasesleep l s = Ret () (settle s\<lparr>
    sleeplocks := (sleeplocks s)(l := (sleeplocks s l)\<lparr>sl_locked := False, sl_pid := 0\<rparr>),
    proc := wake_table (Chan_sleeplock l) (cur s) [0..<NPROC] (proc s)\<rparr>)"
  using calmD [OF assms]
  by (simp add: releasesleep_def upd_sleeplock_def lock_simps wakeup_locked Let_def)

lemma holdingsleep_eq:
  assumes "calm s"
  shows "holdingsleep l s =
    Ret (sl_locked (sleeplocks s l) \<and> sl_pid (sleeplocks s l) = p_pid (my s)) (settle s)"
  using calmD [OF assms] by (simp add: holdingsleep_def lock_simps Let_def)

lemma acquiresleep_locked:
  assumes "calm s" and "noff (cpus s (hart s)) = 0" and "cur s = Some p" and "sl_locked (sleeplocks s l)"
  shows "\<exists>t. acquiresleep l s = Sleeps t \<and> sleeplocks t = sleeplocks s \<and> lock_free (Sleep_lk l) t
    \<and> proc t = (proc s)(p := (proc s p)\<lparr>p_chan := Some (Chan_sleeplock l), p_state := SLEEPING\<rparr>)"
proof -
  define t where "t = s\<lparr>sie := (sie s)(hart s := False), cpus := enter_cpus (hart s) (sie s) (cpus s),
    locks := take_lock (Sleep_lk l) (hart s) (locks s)\<rparr>"
  have t: "acquire (Sleep_lk l) s = Ret () t" using calmD(2) [OF assms(1)] by (simp add: t_def acquire_free)
  have "may_sleep p (Sleep_lk l) t"
    using assms(2,3) calmD [OF assms(1)] by (simp add: t_def may_sleep_def lock_simps)
  note sleep_eq [OF this, of "Chan_sleeplock l", where ?'b = unit]
  moreover have "sl_locked (sleeplocks t l)" "sleeplocks t = sleeplocks s" "proc t = proc s"
    using assms(4) by (simp_all add: t_def)
  ultimately show ?thesis by (simp add: acquiresleep_def t acquiresleep_loop_def lock_simps)
qed

text \<open>
  C22. Sleep locks exclude. A process that asks for a lock that is taken does not return: it
  sleeps on the lock and leaves it as it is, having given up the spin lock inside. Releasing
  frees the lock and makes every process that sleeps on it runnable. A process that asks for
  a free lock returns holding it, recorded under its pid.
\<close>

theorem sleeplock_protocol:
  assumes "calm s" and "noff (cpus s (hart s)) = 0" and "cur s = Some p"
  shows "(sl_locked (sleeplocks s l) \<longrightarrow>
      (\<exists>t. acquiresleep l s = Sleeps t \<and> sleeplocks t = sleeplocks s \<and> lock_free (Sleep_lk l) t
        \<and> p_state (proc t p) = SLEEPING \<and> p_chan (proc t p) = Some (Chan_sleeplock l)))
    \<and> (\<not> sl_locked (sleeplocks s l) \<longrightarrow>
      (\<exists>t u. acquiresleep l s = Ret () t \<and> holdingsleep l t = Ret True u \<and> calm t
        \<and> (\<forall>k. k \<noteq> l \<longrightarrow> sleeplocks t k = sleeplocks s k)))
    \<and> (\<exists>t. releasesleep l s = Ret () t \<and> \<not> sl_locked (sleeplocks t l) \<and> calm t
        \<and> (\<forall>q<NPROC. q \<noteq> p \<longrightarrow> p_state (proc s q) = SLEEPING \<longrightarrow> p_chan (proc s q) = Some (Chan_sleeplock l) \<longrightarrow>
             p_state (proc t q) = RUNNABLE))"
proof (intro conjI impI)
  assume "sl_locked (sleeplocks s l)"
  from acquiresleep_locked [OF assms this]
  show "\<exists>t. acquiresleep l s = Sleeps t \<and> sleeplocks t = sleeplocks s \<and> lock_free (Sleep_lk l) t
        \<and> p_state (proc t p) = SLEEPING \<and> p_chan (proc t p) = Some (Chan_sleeplock l)" by auto
next
  assume free: "\<not> sl_locked (sleeplocks s l)"
  let ?t = "settle s\<lparr>sleeplocks := (sleeplocks s)(l := (sleeplocks s l)\<lparr>sl_locked := True, sl_pid := p_pid (my s)\<rparr>)\<rparr>"
  have "calm ?t" using assms(1) by (simp add: calm_def lock_simps)
  then show "\<exists>t u. acquiresleep l s = Ret () t \<and> holdingsleep l t = Ret True u \<and> calm t
        \<and> (\<forall>k. k \<noteq> l \<longrightarrow> sleeplocks t k = sleeplocks s k)"
    using acquiresleep_free [OF assms(1) free] holdingsleep_eq [of ?t l]
    by (intro exI [of _ ?t]) (simp add: lock_simps)
next
  show "\<exists>t. releasesleep l s = Ret () t \<and> \<not> sl_locked (sleeplocks t l) \<and> calm t
        \<and> (\<forall>q<NPROC. q \<noteq> p \<longrightarrow> p_state (proc s q) = SLEEPING \<longrightarrow> p_chan (proc s q) = Some (Chan_sleeplock l) \<longrightarrow>
             p_state (proc t q) = RUNNABLE)"
    using releasesleep_eq [OF assms(1), of l] assms
    by (auto simp: wake_table_def woken_def calm_def lock_simps)
qed

definition demo_sleep :: sleep_state where
  "demo_sleep = proc_state.extend
     (demo_procs Log_lock\<lparr>cpus := \<lambda>h. \<lparr>c_proc = Some 1, noff = 0, intena = True\<rparr>,
        locks := \<lambda>_. \<lparr>locked = False, lk_name = [], lk_cpu = None\<rparr>\<rparr>)
     (sleep_state.fields (\<lambda>l. \<lparr>sl_locked = (l = BufLock 3), sl_name = [], sl_pid = 0\<rparr>))"


theorem sleeplock_protocol_witness:
  "\<exists>t u. acquiresleep (BufLock 3) demo_sleep = Sleeps t \<and> acquiresleep (BufLock 4) demo_sleep = Ret () u"
proof -
  have c: "calm demo_sleep" "noff (cpus demo_sleep (hart demo_sleep)) = 0" "cur demo_sleep = Some 1"
    "sl_locked (sleeplocks demo_sleep l) \<longleftrightarrow> l = BufLock 3" for l
    by (simp_all add: demo_sleep_def calm_def free_lock_def cpus_ok_def demo_procs_def proc_state.defs sleep_state.defs)
  show ?thesis
    using sleeplock_protocol [OF c(1-3), of "BufLock 3"] sleeplock_protocol [OF c(1-3), of "BufLock 4"] c(4) by auto
qed

end
