(* ===== verification/Ring.thy ===== *)
theory Ring
  imports Prelude
begin

text \<open>
  Circular buffers with free-running unsigned indices, the way the pipe, the console input
  and the UART output use them: the slot of index \<open>i\<close> is \<open>i mod N\<close>, the buffer is empty
  when the indices are equal and full when they differ by \<open>N\<close>. The indices wrap around at
  the width of their type; this is harmless exactly because \<open>N\<close> divides that power of two,
  which is an assumption of the locale.
\<close>

definition ring_list :: "nat \<Rightarrow> (nat \<Rightarrow> 'a) \<Rightarrow> 'w::len word \<Rightarrow> 'w word \<Rightarrow> 'a list" where
  "ring_list N buf r w = map (\<lambda>i. buf ((unat r + i) mod N)) [0..<unat (w - r)]"

lemma length_ring_list [simp]: "length (ring_list N buf r w) = unat (w - r)"
  by (simp add: ring_list_def)

lemma ring_list_empty [simp]: "ring_list N buf r r = []"
  by (simp add: ring_list_def)

locale ring =
  fixes N :: nat and width :: "'w::len itself"
  assumes N_pos: "0 < N" and N_dvd: "N dvd 2 ^ LENGTH('w)" and N_less: "N < 2 ^ LENGTH('w)"
begin

lemma slot: "unat (r + of_nat i :: 'w word) mod N = (unat r + i) mod N"
proof -
  have "unat (r + of_nat i :: 'w word) = (unat r + i) mod 2 ^ LENGTH('w)"
    by (simp add: unat_word_ariths unat_of_nat mod_simps)
  then show ?thesis using N_dvd by (simp add: mod_mod_cancel)
qed

lemma slot_distance: "unat (w :: 'w word) mod N = (unat r + unat (w - r)) mod N"
  using slot [of r "unat (w - r)"] by simp

lemma slot_inj: "i < n \<Longrightarrow> n - i < N \<Longrightarrow> (a + i) mod N \<noteq> (a + n) mod N"
proof
  assume a: "i < n" "n - i < N" and e: "(a + i) mod N = (a + n) mod N"
  then have "N dvd (a + n) - (a + i)" by (metis mod_eq_dvd_iff_nat add_le_cancel_left less_imp_le)
  then show False using a by (simp add: nat_dvd_not_less)
qed

text \<open>Is the buffer full? The code compares \<open>w\<close> with \<open>r + N\<close>.\<close>

lemma full_iff: "w = r + of_nat N \<longleftrightarrow> unat (w - r :: 'w word) = N"
proof
  assume "w = r + of_nat N"
  then show "unat (w - r) = N" using N_less by (simp add: unat_of_nat)
next
  assume "unat (w - r) = N"
  then have "of_nat N = w - r" by (metis of_nat_unat ucast_id)
  then show "w = r + of_nat N" by simp
qed

lemma used_write: "unat (w - r :: 'w word) < N \<Longrightarrow> unat (w + 1 - r) = unat (w - r) + 1"
proof -
  assume a: "unat (w - r) < N"
  define d where "d = w - r"
  have "unat (d + 1) = unat d + 1" using a N_less by (simp add: d_def [symmetric] unat_word_ariths)
  moreover have "w + 1 - r = d + 1" by (simp add: d_def)
  ultimately show ?thesis by (simp only: d_def)
qed

lemma used_read: "w \<noteq> (r :: 'w word) \<Longrightarrow> unat (w - (r + 1)) = unat (w - r) - 1"
proof -
  assume "w \<noteq> r"
  then have "w - r \<noteq> 0" by simp
  then have "unat (w - r - 1) = unat (w - r) - 1" by (rule unat_minus_one)
  moreover have "w - (r + 1) = (w - r) - 1" by simp
  ultimately show ?thesis by (simp only:)
qed

lemma used_unwrite: "w \<noteq> (r :: 'w word) \<Longrightarrow> unat (w - r) = Suc (unat (w - 1 - r))"
proof -
  assume "w \<noteq> r"
  then have "w - r \<noteq> 0" by simp
  then have "unat (w - r) = Suc (unat (w - r - 1))" by (metis Suc_pred' One_nat_def unat_gt_0 unat_minus_one)
  moreover have "w - 1 - r = (w - r) - 1" by simp
  ultimately show ?thesis by (simp only:)
qed

lemma ring_write:
  assumes "unat (w - r :: 'w word) < N"
  shows "ring_list N (buf(unat w mod N := c)) r (w + 1) = ring_list N buf r w @ [c]"
proof -
  let ?n = "unat (w - r)"
  have "(buf(unat w mod N := c)) ((unat r + i) mod N) = buf ((unat r + i) mod N)" if "i < ?n" for i
    using that slot_inj [of i ?n "unat r"] assms slot_distance [of w r] by simp
  then have "map (\<lambda>i. (buf(unat w mod N := c)) ((unat r + i) mod N)) [0..<?n] = ring_list N buf r w"
    by (simp add: ring_list_def)
  then show ?thesis using used_write [OF assms] slot_distance [of w r] by (simp add: ring_list_def)
qed

lemma ring_read:
  assumes "w \<noteq> (r :: 'w word)"
  shows "ring_list N buf r w = buf (unat r mod N) # ring_list N buf (r + 1) w"
proof -
  have n: "unat (w - r) = Suc (unat (w - (r + 1)))"
    using used_read [OF assms] assms by (metis Suc_pred' right_minus_eq unat_gt_0)
  have "buf ((unat r + Suc i) mod N) = buf ((unat (r + 1) + i) mod N)" for i
    using slot [of r 1] by (metis add.assoc mod_add_left_eq of_nat_1 plus_1_eq_Suc)
  then show ?thesis unfolding ring_list_def n
    by (simp add: upt_conv_Cons map_Suc_upt [symmetric] comp_def del: upt_Suc)
qed

lemma ring_drop:
  assumes "k \<le> unat (w - r :: 'w word)"
  shows "ring_list N buf (r + of_nat k) w = drop k (ring_list N buf r w)"
  using assms
proof (induction k arbitrary: r)
  case (Suc k)
  then have ne: "w \<noteq> r" by auto
  then have "k \<le> unat (w - (r + 1))" using Suc.prems used_read by simp
  then have "ring_list N buf (r + 1 + of_nat k) w = drop k (ring_list N buf (r + 1) w)" by (rule Suc.IH)
  moreover have "r + of_nat (Suc k) = r + 1 + of_nat k" by (simp add: algebra_simps)
  ultimately show ?case by (simp only: ring_read [OF ne] drop_Suc_Cons)
qed simp

lemma ring_unwrite:
  assumes "w \<noteq> (r :: 'w word)"
  shows "ring_list N buf r (w - 1) = butlast (ring_list N buf r w)"
proof -
  note n = used_unwrite [OF assms]
  show ?thesis unfolding ring_list_def n by simp
qed

lemma ring_last:
  assumes "w \<noteq> (r :: 'w word)"
  shows "last (ring_list N buf r w) = buf (unat (w - 1) mod N)"
proof -
  note n = used_unwrite [OF assms]
  show ?thesis unfolding ring_list_def n using slot_distance [of "w - 1" r] by simp
qed

text \<open>Two adjacent parts of the buffer\<close>

lemma used_append:
  assumes "unat (w - r) + unat (e - w) \<le> N"
  shows "unat (e - r :: 'w word) = unat (w - r) + unat (e - w)"
proof -
  have "unat ((w - r) + (e - w)) = unat (w - r) + unat (e - w)"
    using assms N_less by (subst unat_word_ariths) simp
  then show ?thesis by simp
qed

lemma ring_append:
  assumes "unat (w - r) + unat (e - w) \<le> N"
  shows "ring_list N buf r (e :: 'w word) = ring_list N buf r w @ ring_list N buf w e"
proof -
  let ?k = "unat (w - r)"
  have u: "unat (e - r) = ?k + unat (e - w)" by (rule used_append [OF assms])
  have "r + of_nat ?k = w" by simp
  then have "ring_list N buf w e = drop ?k (ring_list N buf r e)" using ring_drop [of ?k e r buf] u by simp
  moreover have "ring_list N buf r w = take ?k (ring_list N buf r e)" by (simp add: ring_list_def u take_map)
  ultimately show ?thesis by simp
qed

lemma ring_write_beyond:
  assumes "unat (w - r) + unat (e - w) < N"
  shows "ring_list N (buf(unat (e :: 'w word) mod N := c)) r w = ring_list N buf r w"
proof -
  let ?b = "buf(unat e mod N := c)"
  have u: "unat (e - r) = unat (w - r) + unat (e - w)" using used_append [of w r e] assms by simp
  have "unat (e + 1 - w) = unat (e - w) + 1" using used_write [of e w] assms by simp
  then have "ring_list N ?b r w @ ring_list N ?b w (e + 1) = ring_list N ?b r (e + 1)"
    using assms by (subst ring_append [of w r]) simp_all
  also have "\<dots> = ring_list N buf r e @ [c]" using assms u by (intro ring_write) simp
  also have "\<dots> = ring_list N buf r w @ ring_list N buf w e @ [c]" using ring_append [of w r e buf] assms by simp
  finally show ?thesis by (metis append_eq_append_conv length_ring_list)
qed

end

end
