(* ===== verification/Uart.thy ===== *)
theory Uart
  imports Sleeplock Ring
begin

text \<open>
  The 16550 UART driver, \<open>kernel/uart.c\<close>. The device is part of the state: the register
  values written last, how many more bytes the transmitter takes before it reports that it is
  busy, the bytes sent so far, and the received bytes not read yet. The driver sees of it
  only what \<open>ReadReg\<close> and \<open>WriteReg\<close> give: the line status register, the receive
  holding register, and, unless the baud latch is selected, the transmit holding register.
  Waiting in a loop for a busy transmitter is \<open>Spins\<close>.
\<close>

section \<open>State\<close>

definition UART_TX_BUF_SIZE :: nat where "UART_TX_BUF_SIZE = 32"

record uart_state = sleep_state +
  panicked :: bool
  pr_locking :: bool
  uart_tx_buf :: cptr
  uart_tx_w :: uint64
  uart_tx_r :: uint64
  uart_regs :: "nat \<Rightarrow> byte"
  uart_room :: nat
  uart_sent :: "byte list"
  uart_recv :: "byte list"

definition RHR :: nat where "RHR = 0"
definition THR :: nat where "THR = 0"
definition IER :: nat where "IER = 1"
definition FCR :: nat where "FCR = 2"
definition LCR :: nat where "LCR = 3"
definition LSR :: nat where "LSR = 5"
definition IER_RX_ENABLE :: byte where "IER_RX_ENABLE = 1"
definition IER_TX_ENABLE :: byte where "IER_TX_ENABLE = 2"
definition FCR_FIFO_ENABLE :: byte where "FCR_FIFO_ENABLE = 1"
definition FCR_FIFO_CLEAR :: byte where "FCR_FIFO_CLEAR = 6"
definition LCR_EIGHT_BITS :: byte where "LCR_EIGHT_BITS = 3"
definition LCR_BAUD_LATCH :: byte where "LCR_BAUD_LATCH = 0x80"
definition LSR_RX_READY :: byte where "LSR_RX_READY = 1"
definition LSR_TX_IDLE :: byte where "LSR_TX_IDLE = 0x20"

definition WriteReg :: "nat \<Rightarrow> byte \<Rightarrow> 'a uart_state_scheme \<Rightarrow> 'a uart_state_scheme" where
  "WriteReg reg v s =
     (if reg = THR \<and> uart_regs s LCR AND LCR_BAUD_LATCH = 0
      then s\<lparr>uart_sent := uart_sent s @ [v], uart_room := uart_room s - 1\<rparr>
      else s\<lparr>uart_regs := (uart_regs s)(reg := v)\<rparr>)"

definition ReadLSR :: "'a uart_state_scheme \<Rightarrow> byte" where
  "ReadLSR s = (if uart_room s = 0 then 0 else LSR_TX_IDLE) OR (if uart_recv s = [] then 0 else LSR_RX_READY)"

section \<open>Operations\<close>

definition uartinit :: "'a uart_state_scheme \<Rightarrow> 'a uart_state_scheme" where
  "uartinit s =
     initlock Uart_tx_lock ''uart''
      (WriteReg IER (IER_TX_ENABLE OR IER_RX_ENABLE)
      (WriteReg FCR (FCR_FIFO_ENABLE OR FCR_FIFO_CLEAR)
      (WriteReg LCR LCR_EIGHT_BITS
      (WriteReg 1 0x00
      (WriteReg 0 0x03
      (WriteReg LCR LCR_BAUD_LATCH
      (WriteReg IER 0x00 s)))))))"

text \<open>
  Each round of the loop takes a byte out of the buffer; the fuel is the number of bytes in it
  plus one, for the round that finds it empty.
\<close>

primrec uartstart_loop :: "nat \<Rightarrow> 'a uart_state_scheme \<Rightarrow> ('a uart_state_scheme, unit) res" where
  "uartstart_loop 0 s = OutOfFuel"
| "uartstart_loop (Suc n) s =
     (if uart_tx_w s = uart_tx_r s then Ret () s
      else if ReadLSR s AND LSR_TX_IDLE = 0 then Ret () s
      else
        let c = uart_tx_buf s (unat (uart_tx_r s) mod UART_TX_BUF_SIZE);
            s = s\<lparr>uart_tx_r := uart_tx_r s + 1\<rparr>
        in res_bind (wakeup Chan_uart_tx s) (\<lambda>_ s.
           uartstart_loop n (WriteReg THR c s)))"

definition uartstart :: "'a uart_state_scheme \<Rightarrow> ('a uart_state_scheme, unit) res" where
  "uartstart s = uartstart_loop (unat (uart_tx_w s - uart_tx_r s) + 1) s"

text \<open>The \<open>while(1)\<close> loop of \<open>uartputc\<close>, entered again after \<open>sleep\<close>\<close>

definition uartputc_loop :: "byte \<Rightarrow> 'a uart_state_scheme \<Rightarrow> ('a uart_state_scheme, unit) res" where
  "uartputc_loop c s =
     (if uart_tx_w s = uart_tx_r s + of_nat UART_TX_BUF_SIZE then sleep Chan_uart_tx Uart_tx_lock s
      else
        let s = s\<lparr>uart_tx_buf := (uart_tx_buf s)(unat (uart_tx_w s) mod UART_TX_BUF_SIZE := c)\<rparr>;
            s = s\<lparr>uart_tx_w := uart_tx_w s + 1\<rparr>
        in res_bind (uartstart s) (\<lambda>_ s. release Uart_tx_lock s))"

definition uartputc :: "byte \<Rightarrow> 'a uart_state_scheme \<Rightarrow> ('a uart_state_scheme, unit) res" where
  "uartputc c s =
     res_bind (acquire Uart_tx_lock s) (\<lambda>_ s.
     if panicked s then Spins else uartputc_loop c s)"

definition uartputc_sync :: "byte \<Rightarrow> 'a uart_state_scheme \<Rightarrow> ('a uart_state_scheme, unit) res" where
  "uartputc_sync c s =
     (let s = push_off s
      in if panicked s then Spins
         else if ReadLSR s AND LSR_TX_IDLE = 0 then Spins
         else pop_off (WriteReg THR c s))"

definition uartgetc :: "'a uart_state_scheme \<Rightarrow> int \<times> 'a uart_state_scheme" where
  "uartgetc s =
     (if ReadLSR s AND 0x01 \<noteq> 0
      then (uint (hd (uart_recv s)), s\<lparr>uart_recv := tl (uart_recv s)\<rparr>)
      else (-1, s))"

section \<open>The transmit queue\<close>

interpretation tx_ring: ring UART_TX_BUF_SIZE "TYPE(64)"
  by unfold_locales (simp_all add: UART_TX_BUF_SIZE_def)

abbreviation tx_queue :: "'a uart_state_scheme \<Rightarrow> byte list" where
  "tx_queue s \<equiv> ring_list UART_TX_BUF_SIZE (uart_tx_buf s) (uart_tx_r s) (uart_tx_w s)"

text \<open>The device is out of set-baud mode, and the buffer is not overfull.\<close>

definition uart_ok :: "'a uart_state_scheme \<Rightarrow> bool" where
  "uart_ok s \<longleftrightarrow> uart_regs s LCR AND LCR_BAUD_LATCH = 0 \<and> unat (uart_tx_w s - uart_tx_r s) \<le> UART_TX_BUF_SIZE"

text \<open>What the terminal has received and will receive from the buffer\<close>

definition uart_stream :: "'a uart_state_scheme \<Rightarrow> byte list" where
  "uart_stream s = uart_sent s @ tx_queue s"

lemma tx_idle_iff: "ReadLSR s AND LSR_TX_IDLE = 0 \<longleftrightarrow> uart_room s = 0"
  by (simp add: ReadLSR_def LSR_TX_IDLE_def LSR_RX_READY_def)

lemma rx_ready_iff: "ReadLSR s AND 0x01 = 0 \<longleftrightarrow> uart_recv s = []"
  by (simp add: ReadLSR_def LSR_TX_IDLE_def LSR_RX_READY_def)

lemma WriteReg_THR: "uart_regs s LCR AND LCR_BAUD_LATCH = 0 \<Longrightarrow>
  WriteReg THR c s = s\<lparr>uart_sent := uart_sent s @ [c], uart_room := uart_room s - 1\<rparr>"
  by (simp add: WriteReg_def)

text \<open>
  With a lock held and the process locks free, \<open>uartstart\<close> moves as many bytes from the
  queue to the device as the device takes.
\<close>

definition woken_by_uart :: "bool \<Rightarrow> nat option \<Rightarrow> (nat \<Rightarrow> proc) \<Rightarrow> nat \<Rightarrow> proc" where
  "woken_by_uart moved me t = (if moved then wake_table Chan_uart_tx me [0..<NPROC] t else t)"

lemma wake_table_idem [simp]: "wake_table ch me ps (wake_table ch me ps t) = wake_table ch me ps t"
  by (auto simp: wake_table_def woken_def fun_eq_iff)

lemma woken_by_uart_step: "woken_by_uart b me (wake_table Chan_uart_tx me [0..<NPROC] t) = wake_table Chan_uart_tx me [0..<NPROC] t"
  by (simp add: woken_by_uart_def)

lemma uartstart_loop_eq:
  assumes "cpu_ok s" and "0 < noff (cpus s (hart s))" and "\<forall>p<NPROC. lock_free (Proc_lock p) s"
    and "uart_regs s LCR AND LCR_BAUD_LATCH = 0" and "unat (uart_tx_w s - uart_tx_r s) < n"
  shows "uartstart_loop n s =
    (let k = min (length (tx_queue s)) (uart_room s)
     in Ret () (s\<lparr>proc := woken_by_uart (0 < k) (cur s) (proc s), uart_tx_r := uart_tx_r s + of_nat k,
          uart_sent := uart_sent s @ take k (tx_queue s), uart_room := uart_room s - k\<rparr>))"
  using assms
proof (induction n arbitrary: s)
  case (Suc n)
  show ?case
  proof (cases "uart_tx_w s = uart_tx_r s \<or> uart_room s = 0")
    case True
    then show ?thesis by (auto simp: woken_by_uart_def tx_idle_iff)
  next
    case False
    let ?r = "uart_tx_r s" and ?w = "uart_tx_w s"
    let ?c = "uart_tx_buf s (unat ?r mod UART_TX_BUF_SIZE)"
    define P where "P = wake_table Chan_uart_tx (cur s) [0..<NPROC] (proc s)"
    define u where "u = s\<lparr>uart_tx_r := ?r + 1, proc := P, uart_sent := uart_sent s @ [?c], uart_room := uart_room s - 1\<rparr>"
    have q: "tx_queue s = ?c # tx_queue u" using False tx_ring.ring_read [of ?w ?r] by (simp add: u_def)
    have "wakeup Chan_uart_tx (s\<lparr>uart_tx_r := ?r + 1\<rparr>) = Ret () (s\<lparr>uart_tx_r := ?r + 1, proc := P\<rparr>)"
      using Suc.prems by (simp add: wakeup_locked settle_cpus_deep P_def)
    then have 1: "uartstart_loop (Suc n) s = uartstart_loop n u"
      using False Suc.prems(4) by (simp add: tx_idle_iff WriteReg_THR u_def)
    have "unat (?w - (?r + 1)) < n" using arg_cong [OF q, of length] Suc.prems(5) by (simp add: u_def)
    then have 2: "uartstart_loop n u =
        (let k = min (length (tx_queue u)) (uart_room u)
         in Ret () (u\<lparr>proc := woken_by_uart (0 < k) (cur u) (proc u), uart_tx_r := uart_tx_r u + of_nat k,
              uart_sent := uart_sent u @ take k (tx_queue u), uart_room := uart_room u - k\<rparr>))"
      using Suc.prems by (intro Suc.IH) (simp_all add: u_def)
    define k where "k = min (length (tx_queue u)) (uart_room u)"
    have k: "min (length (tx_queue s)) (uart_room s) = Suc k" using q False by (cases "uart_room s") (simp_all add: k_def u_def)
    have w: "woken_by_uart (0 < k) (cur u) (proc u) = P" by (simp add: u_def P_def woken_by_uart_step)
    have "uartstart_loop (Suc n) s = Ret () (u\<lparr>proc := P, uart_tx_r := uart_tx_r u + of_nat k,
              uart_sent := uart_sent u @ take k (tx_queue u), uart_room := uart_room u - k\<rparr>)"
      unfolding 1 2 Let_def k_def [symmetric] w ..
    also have "\<dots> = Ret () (s\<lparr>proc := P, uart_tx_r := ?r + of_nat (Suc k),
              uart_sent := uart_sent s @ take (Suc k) (tx_queue s), uart_room := uart_room s - Suc k\<rparr>)"
      unfolding q by (simp add: u_def add.assoc)
    also have "P = woken_by_uart (0 < Suc k) (cur s) (proc s)" by (simp add: woken_by_uart_def P_def)
    finally show ?thesis unfolding Let_def k .
  qed
qed simp

lemma uartstart_stream:
  assumes "cpu_ok s" and "0 < noff (cpus s (hart s))" and "\<forall>p<NPROC. lock_free (Proc_lock p) s" and "uart_ok s"
  shows "\<exists>t. uartstart s = Ret () t \<and> uart_stream t = uart_stream s \<and> uart_ok t
    \<and> (tx_queue t = [] \<or> uart_room t = 0)
    \<and> t = s\<lparr>proc := proc t, uart_tx_r := uart_tx_r t, uart_sent := uart_sent t, uart_room := uart_room t\<rparr>"
proof -
  define k where "k = min (length (tx_queue s)) (uart_room s)"
  let ?t = "s\<lparr>proc := woken_by_uart (0 < k) (cur s) (proc s), uart_tx_r := uart_tx_r s + of_nat k,
          uart_sent := uart_sent s @ take k (tx_queue s), uart_room := uart_room s - k\<rparr>"
  have t: "uartstart s = Ret () ?t"
    using uartstart_loop_eq [OF assms(1-3), of "unat (uart_tx_w s - uart_tx_r s) + 1"] assms(4)
    by (simp add: uartstart_def uart_ok_def Let_def k_def)
  have q: "tx_queue ?t = drop k (tx_queue s)" by (simp add: k_def tx_ring.ring_drop)
  have "unat (uart_tx_w ?t - uart_tx_r ?t) = length (tx_queue ?t)" by simp
  then have "unat (uart_tx_w ?t - uart_tx_r ?t) \<le> UART_TX_BUF_SIZE"
    using assms(4) unfolding q by (auto simp: uart_ok_def)
  then have "uart_ok ?t" using assms(4) by (simp add: uart_ok_def)
  moreover have "uart_stream ?t = uart_stream s" unfolding uart_stream_def q by simp
  moreover have "tx_queue ?t = [] \<or> uart_room ?t = 0" unfolding q by (simp add: k_def min_def)
  ultimately show ?thesis using t by (intro exI [of _ ?t]) simp
qed


definition demo_uart :: uart_state where
  "demo_uart = sleep_state.extend demo_sleep
     (uart_state.fields False True (\<lambda>_. 0) 0xFFFFFFFFFFFFFFFF 0xFFFFFFFFFFFFFFF0 (\<lambda>_. 0) 2 [72] [])"

lemma demo_uart_simps [simp]:
  "calm demo_uart" "noff (cpus demo_uart (hart demo_uart)) = 0" "cur demo_uart = Some 1" "uart_ok demo_uart"
  "\<not> panicked demo_uart" "unat (uart_tx_w demo_uart - uart_tx_r demo_uart) = 15" "uart_sent demo_uart = [72]"
  by (simp_all add: demo_uart_def demo_sleep_def calm_def free_lock_def cpus_ok_def demo_procs_def proc_state.defs
      sleep_state.defs uart_state.defs uart_ok_def UART_TX_BUF_SIZE_def)


end
