(* ===== verification/Printf.thy ===== *)
theory Printf
  imports Uart
begin

text \<open>
  Formatted output: the conversion of numbers that \<open>kernel/printf.c\<close> and
  \<open>user/printf.c\<close> share, the kernel's \<open>printf\<close> on the console, the user library's
  \<open>vprintf\<close>, and \<open>procdump\<close> of \<open>kernel/proc.c\<close>. A variable argument list is a list;
  a string argument is the list of its bytes, or \<open>None\<close> for the null pointer.
\<close>

section \<open>Conversions\<close>

definition bytes :: "string \<Rightarrow> byte list" where
  "bytes str = map of_char str"

definition digits :: "byte list" where "digits = bytes ''0123456789abcdef''"
definition udigits :: "byte list" where "udigits = bytes ''0123456789ABCDEF''"

text \<open>
  The loop \<open>do { buf[i++] = digits[x % base]; } while((x /= base) != 0)\<close>: the bytes it
  stores, for a base of at least two.
\<close>

function print_digits :: "byte list \<Rightarrow> uint \<Rightarrow> uint \<Rightarrow> byte list" where
  "print_digits ds base x =
     ds ! unat (x mod base) # (if 1 < base \<and> x div base \<noteq> 0 then print_digits ds base (x div base) else [])"
  by pat_completeness auto
termination
proof (relation "measure (\<lambda>(ds, base, x). unat x)", simp)
  fix base x :: uint
  assume a: "1 < base \<and> x div base \<noteq> 0"
  then have "1 < unat base" by (simp add: word_less_nat_alt)
  moreover have "x \<noteq> 0" using a by auto
  then have "0 < unat x" by (simp add: unat_gt_0)
  ultimately show "((ds, base, x div base), ds, base, x) \<in> measure (\<lambda>(ds, base, x). unat x)" for ds :: "byte list"
    by (simp add: unat_div)
qed

declare print_digits.simps [simp del]

text \<open>
  \<open>char buf[16]\<close> of \<open>printint\<close> when it starts to output: the digits, then the sign. The
  kernel and the user library fill it the same way.
\<close>

definition printint_buf :: "byte list \<Rightarrow> uint \<Rightarrow> uint \<Rightarrow> bool \<Rightarrow> byte list" where
  "printint_buf ds xx base sg =
     (if sg \<and> sint xx < 0 then print_digits ds base (- xx) @ bytes ''-''
      else print_digits ds base xx)"

text \<open>The hexadecimal digits of a pointer, most significant first\<close>

definition ptr_digits :: "byte list \<Rightarrow> uint64 \<Rightarrow> byte list" where
  "ptr_digits ds x = map (\<lambda>i. ds ! unat (drop_bit 60 (push_bit (4 * i) x))) [0..<16]"

section \<open>The kernel's printf\<close>

definition BACKSPACE :: int where "BACKSPACE = 0x100"

definition consputc :: "int \<Rightarrow> 'a uart_state_scheme \<Rightarrow> ('a uart_state_scheme, unit) res" where
  "consputc c s =
     (if c = BACKSPACE then
        res_bind (uartputc_sync 8 s) (\<lambda>_ s.
        res_bind (uartputc_sync 32 s) (\<lambda>_ s.
        uartputc_sync 8 s))
      else uartputc_sync (of_int c) s)"

definition consputs :: "byte list \<Rightarrow> 'a uart_state_scheme \<Rightarrow> ('a uart_state_scheme, unit) res" where
  "consputs bs s = res_for bs (\<lambda>b. consputc (uint b)) s"

definition printint :: "uint \<Rightarrow> uint \<Rightarrow> bool \<Rightarrow> 'a uart_state_scheme \<Rightarrow> ('a uart_state_scheme, unit) res" where
  "printint xx base sg s = consputs (rev (printint_buf digits xx base sg)) s"

definition printptr :: "uint64 \<Rightarrow> 'a uart_state_scheme \<Rightarrow> ('a uart_state_scheme, unit) res" where
  "printptr x s = consputs (bytes ''0x'' @ ptr_digits digits x) s"

datatype va = VInt uint | VPtr uint64 | VStr "byte list option"

text \<open>\<open>va_arg\<close> for each type; the next argument is the head of the list\<close>

definition va_int :: "va list \<Rightarrow> uint" where
  "va_int ap = (case ap of VInt x # _ \<Rightarrow> x | VPtr x # _ \<Rightarrow> ucast x | _ \<Rightarrow> 0)"

definition va_ptr :: "va list \<Rightarrow> uint64" where
  "va_ptr ap = (case ap of VPtr x # _ \<Rightarrow> x | VInt x # _ \<Rightarrow> scast x | _ \<Rightarrow> 0)"

definition va_str :: "va list \<Rightarrow> byte list" where
  "va_str ap = (case ap of VStr (Some str) # _ \<Rightarrow> str | _ \<Rightarrow> bytes ''(null)'')"

fun printf_loop :: "byte list \<Rightarrow> va list \<Rightarrow> 'a uart_state_scheme \<Rightarrow> ('a uart_state_scheme, unit) res" where
  "printf_loop [] ap s = Ret () s"
| "printf_loop (c # fmt) ap s =
     (if c \<noteq> of_char (CHR ''%'') then res_bind (consputc (uint c) s) (\<lambda>_ s. printf_loop fmt ap s)
      else case fmt of
        [] \<Rightarrow> Ret () s
      | c # fmt \<Rightarrow>
          if c = of_char (CHR ''d'') then
            res_bind (printint (va_int ap) 10 True s) (\<lambda>_ s. printf_loop fmt (tl ap) s)
          else if c = of_char (CHR ''x'') then
            res_bind (printint (va_int ap) 16 True s) (\<lambda>_ s. printf_loop fmt (tl ap) s)
          else if c = of_char (CHR ''p'') then
            res_bind (printptr (va_ptr ap) s) (\<lambda>_ s. printf_loop fmt (tl ap) s)
          else if c = of_char (CHR ''s'') then
            res_bind (consputs (va_str ap) s) (\<lambda>_ s. printf_loop fmt (tl ap) s)
          else if c = of_char (CHR ''%'') then
            res_bind (consputc (uint c) s) (\<lambda>_ s. printf_loop fmt ap s)
          else
            res_bind (consputs (bytes ''%'' @ [c]) s) (\<lambda>_ s. printf_loop fmt ap s))"

definition printf :: "byte list \<Rightarrow> va list \<Rightarrow> 'a uart_state_scheme \<Rightarrow> ('a uart_state_scheme, unit) res" where
  "printf fmt ap s =
     (let locking = pr_locking s in
      res_bind (if locking then acquire Pr_lock s else Ret () s) (\<lambda>_ s.
      res_bind (printf_loop fmt ap s) (\<lambda>_ s.
      if locking then release Pr_lock s else Ret () s)))"

text \<open>The state in which the CPU that called \<open>panic\<close> stays in its endless loop\<close>

definition panic :: "byte list \<Rightarrow> 'a uart_state_scheme \<Rightarrow> ('a uart_state_scheme, unit) res" where
  "panic msg s =
     res_bind (printf (bytes ''panic: '') [] (s\<lparr>pr_locking := False\<rparr>)) (\<lambda>_ s.
     res_bind (printf msg [] s) (\<lambda>_ s.
     res_bind (printf [10] [] s) (\<lambda>_ s.
     Ret () (s\<lparr>panicked := True\<rparr>))))"

definition printfinit :: "'a uart_state_scheme \<Rightarrow> 'a uart_state_scheme" where
  "printfinit s = (initlock Pr_lock ''pr'' s)\<lparr>pr_locking := True\<rparr>"

text \<open>\<open>states[]\<close> of \<open>procdump\<close> has no entry for \<open>USED\<close>.\<close>

definition procdump_state :: "procstate \<Rightarrow> byte list" where
  "procdump_state st = bytes (case st of
     UNUSED \<Rightarrow> ''unused'' | SLEEPING \<Rightarrow> ''sleep '' | RUNNABLE \<Rightarrow> ''runble''
   | RUNNING \<Rightarrow> ''run   '' | ZOMBIE \<Rightarrow> ''zombie'' | USED \<Rightarrow> ''???'')"

definition procdump :: "'a uart_state_scheme \<Rightarrow> ('a uart_state_scheme, unit) res" where
  "procdump s =
     res_bind (printf [10] [] s) (\<lambda>_ s.
     res_for [0..<NPROC] (\<lambda>p s.
       let q = proc s p in
       if p_state q = UNUSED then Ret () s
       else
         res_bind (printf (bytes ''%d %s %s'')
             [VInt (p_pid q), VStr (Some (procdump_state (p_state q))), VStr (Some (takeWhile (\<lambda>b. b \<noteq> 0) (p_name q)))] s) (\<lambda>_ s.
         printf [10] [] s)) s)"

section \<open>The user library's printf\<close>

text \<open>
  \<open>putc\<close> writes one byte with a system call whose result is ignored; the functions return
  the bytes in the order of these writes.
\<close>

definition uprintint :: "uint \<Rightarrow> uint \<Rightarrow> bool \<Rightarrow> byte list" where
  "uprintint xx base sg = rev (printint_buf udigits xx base sg)"

definition uprintptr :: "uint64 \<Rightarrow> byte list" where
  "uprintptr x = bytes ''0x'' @ ptr_digits udigits x"

text \<open>The boolean is \<open>state == '%'\<close>.\<close>

fun vprintf :: "bool \<Rightarrow> byte list \<Rightarrow> va list \<Rightarrow> byte list" where
  "vprintf st [] ap = []"
| "vprintf st (c # fmt) ap =
     (if \<not> st then
        (if c = of_char (CHR ''%'') then vprintf True fmt ap else c # vprintf False fmt ap)
      else if c = of_char (CHR ''d'') then uprintint (va_int ap) 10 True @ vprintf False fmt (tl ap)
      else if c = of_char (CHR ''l'') then uprintint (ucast (va_ptr ap)) 10 False @ vprintf False fmt (tl ap)
      else if c = of_char (CHR ''x'') then uprintint (va_int ap) 16 False @ vprintf False fmt (tl ap)
      else if c = of_char (CHR ''p'') then uprintptr (va_ptr ap) @ vprintf False fmt (tl ap)
      else if c = of_char (CHR ''s'') then va_str ap @ vprintf False fmt (tl ap)
      else if c = of_char (CHR ''c'') then ucast (va_int ap) # vprintf False fmt (tl ap)
      else if c = of_char (CHR ''%'') then c # vprintf False fmt ap
      else bytes ''%'' @ c # vprintf False fmt ap)"

definition fprintf :: "byte list \<Rightarrow> va list \<Rightarrow> byte list" where
  "fprintf fmt ap = vprintf False fmt ap"

section \<open>The numbers printed\<close>

lemma print_digits_length:
  assumes "10 \<le> base"
  shows "unat x < 10 ^ k \<Longrightarrow> 0 < k \<Longrightarrow> length (print_digits ds base x) \<le> k"
proof (induction k arbitrary: x)
  case (Suc k)
  have b: "10 \<le> unat base" using assms by (simp add: word_le_nat_alt)
  have "unat x div unat base \<le> unat x div 10" using b by (intro div_le_mono2) simp_all
  moreover have "unat x div 10 < 10 ^ k" using Suc.prems(1) by (simp add: div_less_iff_less_mult mult.commute)
  ultimately have "unat (x div base) < 10 ^ k" by (simp add: unat_div)
  moreover have "x div base = 0" if "k = 0"
    using that calculation by (simp add: unat_eq_0)
  ultimately show ?case using Suc.IH [of "x div base"] by (cases "k = 0") (auto simp: print_digits.simps [of ds base x])
qed simp

text \<open>
  C34. The 16-byte buffer of \<open>printint\<close> is never overrun: in base 10 or above a number takes
  at most ten digits and a sign.
\<close>

theorem printint_fits:
  assumes "10 \<le> base"
  shows "length (printint_buf ds xx base sg) \<le> 11"
proof -
  have "unat x < 10 ^ 10" for x :: uint using unat_lt_2_32 [of x] by simp
  then have d: "length (print_digits ds base x) \<le> 10" for x using print_digits_length [OF assms, of x 10] by simp
  show ?thesis using d [of xx] d [of "- xx"] by (auto simp: printint_buf_def bytes_def)
qed

theorem printint_fits_witness:
  "length (printint_buf digits (- 2147483648) 10 True) \<le> 11"
  by (rule printint_fits) simp

section \<open>Kernel and user printf agree\<close>

lemma uartputc_sync_eq:
  assumes "cpu_ok s" and "\<not> panicked s" and "0 < uart_room s" and "uart_regs s LCR AND LCR_BAUD_LATCH = 0"
  shows "uartputc_sync c s = Ret () (settle s\<lparr>uart_sent := uart_sent s @ [c], uart_room := uart_room s - 1\<rparr>)"
  using assms cpus_okD [OF assms(1)]
  by (simp add: uartputc_sync_def push_off_eq tx_idle_iff ReadLSR_def WriteReg_def pop_off_ok lock_simps Let_def LSR_TX_IDLE_def LSR_RX_READY_def)

definition sends :: "byte list \<Rightarrow> 'a uart_state_scheme \<Rightarrow> 'a uart_state_scheme" where
  "sends bs s = s\<lparr>cpus := if bs = [] then cpus s else settle_cpus (hart s) (sie s) (cpus s),
     uart_sent := uart_sent s @ bs, uart_room := uart_room s - length bs\<rparr>"

definition can_send :: "nat \<Rightarrow> 'a uart_state_scheme \<Rightarrow> bool" where
  "can_send n s \<longleftrightarrow> cpu_ok s \<and> \<not> panicked s \<and> n \<le> uart_room s \<and> uart_regs s LCR AND LCR_BAUD_LATCH = 0"

lemma can_send_sends [simp]: "can_send n (sends bs s) \<longleftrightarrow> cpu_ok s \<and> \<not> panicked s \<and> n \<le> uart_room s - length bs
    \<and> uart_regs s LCR AND LCR_BAUD_LATCH = 0"
  by (simp add: can_send_def sends_def lock_simps)

lemma sends_sends [simp]: "sends bs (sends as s) = sends (as @ bs) s"
  by (simp add: sends_def lock_simps)

lemma sends_Nil [simp]: "sends [] s = s"
  by (simp add: sends_def)

lemma consputc_byte: "can_send 1 s \<Longrightarrow> consputc (uint (b :: byte)) s = Ret () (sends [b] s)"
  using uint_bounded [of b]
  by (simp add: consputc_def BACKSPACE_def uartputc_sync_eq can_send_def sends_def)

lemma consputs_sends: "can_send (length bs) s \<Longrightarrow> consputs bs s = Ret () (sends bs s)"
proof (induction bs arbitrary: s)
  case (Cons b bs)
  then have "can_send 1 s" by (simp add: can_send_def)
  moreover have "can_send (length bs) (sends [b] s)"
    using Cons.prems unfolding can_send_sends by (auto simp: can_send_def)
  ultimately show ?case using Cons.IH [of "sends [b] s"] by (simp add: consputs_def consputc_byte)
qed (simp add: consputs_def)

lemma printint_buf_base_10: "printint_buf digits xx 10 sg = printint_buf udigits xx 10 sg"
proof -
  have "take 10 digits = take 10 udigits" by code_simp
  then have d: "digits ! k = udigits ! k" if "k < 10" for k using that by (metis nth_take)
  have "print_digits digits base x = print_digits udigits base x" if "base = 10" for base x
    using that
  proof (induction digits base x rule: print_digits.induct)
    case (1 base x)
    have "unat (x mod 10) < 10" by (simp add: unat_mod)
    then have "digits ! unat (x mod 10) = udigits ! unat (x mod 10)" by (rule d)
    then show ?case using 1 by (simp add: print_digits.simps [of _ 10 x])
  qed
  then show ?thesis by (simp add: printint_buf_def)
qed

text \<open>
  Formats with no conversion that only one of the two functions knows (\<open>%l\<close>, \<open>%c\<close>) or
  that they print differently (\<open>%x\<close>, \<open>%p\<close>).
\<close>

fun common_format :: "byte list \<Rightarrow> bool" where
  "common_format [] = True"
| "common_format (c # fmt) =
     (if c \<noteq> of_char (CHR ''%'') then common_format fmt
      else case fmt of [] \<Rightarrow> True | c # fmt \<Rightarrow> c \<notin> set (bytes ''lcxp'') \<and> common_format fmt)"

lemma sends_cong: "can_send n s \<Longrightarrow> can_send m s \<longleftrightarrow> m \<le> uart_room s"
  by (simp add: can_send_def)

lemma res_bind_sends:
  assumes "can_send (length as + length bs) s" and "r = consputs as s"
    and "\<And>t. can_send (length bs) t \<Longrightarrow> f t = Ret () (sends bs t)"
  shows "res_bind r (\<lambda>_. f) = Ret () (sends (as @ bs) s)"
proof -
  have "can_send (length as) s" "can_send (length bs) (sends as s)"
    using assms(1) unfolding can_send_sends by (auto simp: can_send_def)
  then show ?thesis using assms(2,3) by (simp add: consputs_sends)
qed

lemma consputs_single: "consputc (uint b) s = consputs [b] s"
  by (simp add: consputs_def) (cases "consputc (uint b) s"; simp)

lemma printf_loop_vprintf:
  fixes s :: "'a uart_state_scheme"
  shows "common_format fmt \<Longrightarrow> can_send (length (vprintf False fmt ap)) s \<Longrightarrow>
   printf_loop fmt ap s = Ret () (sends (vprintf False fmt ap) s)"
proof (induction fmt arbitrary: ap s rule: common_format.induct)
  case (2 c fmt)
  show ?case
  proof (cases "c = of_char (CHR ''%'')")
    case False
    then show ?thesis using 2
      by (auto simp: consputs_single intro!: res_bind_sends [where as = "[c]", simplified])
  next
    case pc: True
    show ?thesis
    proof (cases fmt)
      case Nil
      then show ?thesis using pc by simp
    next
      case (Cons d fmt')
      have IH: "printf_loop fmt' ap' t = Ret () (sends (vprintf False fmt' ap') t)"
        if "can_send (length (vprintf False fmt' ap')) t" for ap' and t :: "'a uart_state_scheme"
        using 2(2) [OF _ Cons] pc 2(3) Cons that by simp
      have d: "d \<noteq> of_char (CHR ''l'')" "d \<noteq> of_char (CHR ''c'')" "d \<noteq> of_char (CHR ''x'')" "d \<noteq> of_char (CHR ''p'')"
        using 2(3) pc Cons by (auto simp: bytes_def)
      consider "d = of_char (CHR ''d'')" | "d = of_char (CHR ''s'')" | "d = of_char (CHR ''%'')"
        | "d \<noteq> of_char (CHR ''d'')" "d \<noteq> of_char (CHR ''s'')" "d \<noteq> of_char (CHR ''%'')" by blast
      then show ?thesis
      proof cases
        case 1
        then show ?thesis using 2(4) pc Cons
          by (simp add: res_bind_sends [OF _ _ IH] printint_def uprintint_def printint_buf_base_10 del: of_char_eq_iff)
      next
        case 2
        then show ?thesis using \<open>can_send _ s\<close> pc Cons
          by (simp add: res_bind_sends [OF _ _ IH])
      next
        case 3
        then show ?thesis using \<open>can_send _ s\<close> pc Cons
          using consputs_single [of 37 s] by (simp add: res_bind_sends [OF _ refl IH, where as = "[37]", simplified])
      next
        case 4
        then show ?thesis using \<open>can_send _ s\<close> pc Cons d
          by (simp add: res_bind_sends [OF _ refl IH, where as = "[37, d]", simplified] bytes_def)
      qed
    qed
  qed
qed simp



end
