(* ===== verification/Console.thy ===== *)
theory Console
  imports Printf
begin

text \<open>
  The console, \<open>kernel/console.c\<close>, and the UART's interrupt handler that feeds it. Input
  is edited between the indices \<open>w\<close> and \<open>e\<close> of a circular buffer and handed to readers
  between \<open>r\<close> and \<open>w\<close>. The loops of \<open>consoleread\<close> and \<open>consolewrite\<close> recurse on
  the number of bytes left; a reader that finds no input sleeps, and continues with
  \<open>consoleread_loop\<close> at the same place.
\<close>

section \<open>State and operations\<close>

definition INPUT_BUF :: nat where "INPUT_BUF = 128"

record cons_state = uart_state +
  cons_buf :: cptr
  cons_r :: uint
  cons_w :: uint
  cons_e :: uint

text \<open>\<open>C(x)\<close>, the control characters\<close>

definition C :: "char \<Rightarrow> int" where
  "C x = of_char x - of_char (CHR ''@'')"

primrec consolewrite_loop :: "nat \<Rightarrow> int \<Rightarrow> place \<Rightarrow> 'a cons_state_scheme \<Rightarrow> ('a cons_state_scheme, int) res" where
  "consolewrite_loop 0 i src s = Ret i s"
| "consolewrite_loop (Suc k) i src s =
     res_bind (either_copyin (\<lambda>_. 0) 0 src 1 s) (\<lambda>(r, c) s.
     if r = -1 then Ret i s
     else res_bind (uartputc (c 0) s) (\<lambda>_ s. consolewrite_loop k (i + 1) (advance 1 src) s))"

definition consolewrite :: "place \<Rightarrow> int \<Rightarrow> 'a cons_state_scheme \<Rightarrow> ('a cons_state_scheme, int) res" where
  "consolewrite src n s = consolewrite_loop (nat n) 0 src s"

text \<open>The end of \<open>consoleread\<close>, with \<open>n\<close> bytes still wanted\<close>

definition consoleread_end :: "int \<Rightarrow> int \<Rightarrow> place \<Rightarrow> 'a cons_state_scheme \<Rightarrow> ('a cons_state_scheme, int \<times> place) res" where
  "consoleread_end target n dst s = res_bind (release Cons_lock s) (\<lambda>_ s. Ret (target - n, dst) s)"

primrec consoleread_loop :: "nat \<Rightarrow> int \<Rightarrow> place \<Rightarrow> 'a cons_state_scheme \<Rightarrow> ('a cons_state_scheme, int \<times> place) res" where
  "consoleread_loop 0 target dst s = consoleread_end target 0 dst s"
| "consoleread_loop (Suc k) target dst s =
     (if cons_r s = cons_w s then
        res_bind (myproc s) (\<lambda>cur s.
        if p_killed (proc s (the cur)) \<noteq> 0 then res_bind (release Cons_lock s) (\<lambda>_ s. Ret (-1, dst) s)
        else sleep Chan_cons Cons_lock s)
      else
        let c = cons_buf s (unat (cons_r s) mod INPUT_BUF);
            s = s\<lparr>cons_r := cons_r s + 1\<rparr>
        in if uint c = C (CHR ''D'') then
             consoleread_end target (int (Suc k)) dst
               (if int (Suc k) < target then s\<lparr>cons_r := cons_r s - 1\<rparr> else s)
           else
             res_bind (either_copyout dst (\<lambda>_. c) 1 s) (\<lambda>(r, dst) s.
             if r = -1 then consoleread_end target (int (Suc k)) dst s
             else if c = 10 then consoleread_end target (int k) (advance 1 dst) s
             else consoleread_loop k target (advance 1 dst) s))"

text \<open>For \<open>n \<le> 0\<close> the loop is not entered and \<open>target - n\<close> is 0.\<close>

definition consoleread :: "place \<Rightarrow> int \<Rightarrow> 'a cons_state_scheme \<Rightarrow> ('a cons_state_scheme, int \<times> place) res" where
  "consoleread dst n s =
     res_bind (acquire Cons_lock s) (\<lambda>_ s.
     consoleread_loop (nat n) (if n \<le> 0 then 0 else n) dst s)"

text \<open>The loop of Control-U; every round takes a character out of the line being edited.\<close>

primrec kill_line :: "nat \<Rightarrow> 'a cons_state_scheme \<Rightarrow> ('a cons_state_scheme, unit) res" where
  "kill_line 0 s = OutOfFuel"
| "kill_line (Suc n) s =
     (if cons_e s \<noteq> cons_w s \<and> cons_buf s (unat (cons_e s - 1) mod INPUT_BUF) \<noteq> 10
      then res_bind (consputc BACKSPACE (s\<lparr>cons_e := cons_e s - 1\<rparr>)) (\<lambda>_ s. kill_line n s)
      else Ret () s)"

definition consoleintr :: "int \<Rightarrow> 'a cons_state_scheme \<Rightarrow> ('a cons_state_scheme, unit) res" where
  "consoleintr c s =
     res_bind (acquire Cons_lock s) (\<lambda>_ s.
     res_bind
       (if c = C (CHR ''P'') then procdump s
        else if c = C (CHR ''U'') then kill_line (unat (cons_e s - cons_w s) + 1) s
        else if c = C (CHR ''H'') \<or> c = 0x7f then
          (if cons_e s \<noteq> cons_w s then consputc BACKSPACE (s\<lparr>cons_e := cons_e s - 1\<rparr>) else Ret () s)
        else if c \<noteq> 0 \<and> unat (cons_e s - cons_r s) < INPUT_BUF then
          (let c = (if c = 13 then 10 else c) in
           res_bind (consputc c s) (\<lambda>_ s.
           let s = s\<lparr>cons_buf := (cons_buf s)(unat (cons_e s) mod INPUT_BUF := of_int c), cons_e := cons_e s + 1\<rparr>
           in if c = 10 \<or> c = C (CHR ''D'') \<or> cons_e s = cons_r s + of_nat INPUT_BUF
              then wakeup Chan_cons (s\<lparr>cons_w := cons_e s\<rparr>)
              else Ret () s))
        else Ret () s) (\<lambda>_ s.
     release Cons_lock s))"

text \<open>The receive loop of \<open>uartintr\<close> handles each byte the device holds.\<close>

primrec uartintr_loop :: "nat \<Rightarrow> 'a cons_state_scheme \<Rightarrow> ('a cons_state_scheme, unit) res" where
  "uartintr_loop 0 s = OutOfFuel"
| "uartintr_loop (Suc n) s =
     (case uartgetc s of (c, s) \<Rightarrow>
        if c = -1 then Ret () s
        else res_bind (consoleintr c s) (\<lambda>_ s. uartintr_loop n s))"

definition uartintr :: "'a cons_state_scheme \<Rightarrow> ('a cons_state_scheme, unit) res" where
  "uartintr s =
     res_bind (uartintr_loop (length (uart_recv s) + 1) s) (\<lambda>_ s.
     res_bind (acquire Uart_tx_lock s) (\<lambda>_ s.
     res_bind (uartstart s) (\<lambda>_ s.
     release Uart_tx_lock s)))"

section \<open>The line discipline\<close>

interpretation in_ring: ring INPUT_BUF "TYPE(32)"
  by unfold_locales (simp_all add: INPUT_BUF_def)

text \<open>
  What the console promises, on two strings: the input ready for readers and the line being
  edited.
\<close>

type_synonym line_state = "byte list \<times> byte list"

definition line_edit :: "int \<Rightarrow> line_state \<Rightarrow> line_state" where
  "line_edit c st =
     (case st of (ready, line) \<Rightarrow>
        if c = C (CHR ''P'') then (ready, line)
        else if c = C (CHR ''U'') then (ready, [])
        else if c = C (CHR ''H'') \<or> c = 0x7f then (ready, butlast line)
        else if c \<noteq> 0 \<and> length ready + length line < INPUT_BUF then
          let c = (if c = 13 then 10 else c);
              line = line @ [of_int c]
          in if c = 10 \<or> c = C (CHR ''D'') \<or> length ready + length line = INPUT_BUF
             then (ready @ line, []) else (ready, line)
        else (ready, line))"

abbreviation con_ready :: "'a cons_state_scheme \<Rightarrow> byte list" where
  "con_ready s \<equiv> ring_list INPUT_BUF (cons_buf s) (cons_r s) (cons_w s)"

abbreviation con_line :: "'a cons_state_scheme \<Rightarrow> byte list" where
  "con_line s \<equiv> ring_list INPUT_BUF (cons_buf s) (cons_w s) (cons_e s)"

definition line_abs :: "'a cons_state_scheme \<Rightarrow> line_state" where
  "line_abs s = (con_ready s, con_line s)"

definition cons_ok :: "'a cons_state_scheme \<Rightarrow> bool" where
  "cons_ok s \<longleftrightarrow> unat (cons_w s - cons_r s) + unat (cons_e s - cons_w s) \<le> INPUT_BUF \<and> 10 \<notin> set (con_line s)"

text \<open>What is echoed: a blanked-out character is backspace, space, backspace.\<close>

definition line_echo :: "int \<Rightarrow> line_state \<Rightarrow> byte list" where
  "line_echo c st =
     (case st of (ready, line) \<Rightarrow>
        if c = C (CHR ''U'') then concat (replicate (length line) [8, 32, 8])
        else if c = C (CHR ''H'') \<or> c = 0x7f then (if line = [] then [] else [8, 32, 8])
        else if length ready + length line < INPUT_BUF then [of_int (if c = 13 then 10 else c)]
        else [])"

lemma res_bind_unit: "res_bind r Ret = r"
  by (cases r) auto

lemma consputc_backspace: "can_send 3 s \<Longrightarrow> consputc BACKSPACE s = Ret () (sends [8, 32, 8] s)"
proof -
  assume a: "can_send 3 s"
  have "consputc BACKSPACE s = consputs [8, 32, 8] s"
    by (simp add: consputc_def consputs_def BACKSPACE_def res_bind_unit)
  then show ?thesis using consputs_sends [of "[8, 32, 8]" s] a by (simp add: numeral_3_eq_3)
qed

lemma kill_line_eq:
  assumes "can_send (3 * unat (cons_e s - cons_w s)) s" and "10 \<notin> set (con_line s)" and "unat (cons_e s - cons_w s) < n"
  shows "kill_line n s =
    Ret () (sends (concat (replicate (unat (cons_e s - cons_w s)) [8, 32, 8])) (s\<lparr>cons_e := cons_w s\<rparr>))"
  using assms
proof (induction n arbitrary: s)
  case (Suc n)
  show ?case
  proof (cases "cons_e s = cons_w s")
    case True
    then show ?thesis by simp
  next
    case False
    let ?s = "sends [8, 32, 8] (s\<lparr>cons_e := cons_e s - 1\<rparr>)"
    have u: "unat (cons_e s - cons_w s) = Suc (unat (cons_e s - 1 - cons_w s))"
      using in_ring.used_unwrite [OF False] .
    have f: "cons_e ?s = cons_e s - 1" "cons_w ?s = cons_w s" "cons_buf ?s = cons_buf s" by (simp_all add: sends_def)
    have "last (con_line s) \<in> set (con_line s)"
      using u by (intro last_in_set) (auto simp: list_eq_iff_nth_eq)
    then have "cons_buf s (unat (cons_e s - 1) mod INPUT_BUF) \<noteq> 10"
      using Suc.prems(2) in_ring.ring_last [OF False] by metis
    moreover have "can_send 3 (s\<lparr>cons_e := cons_e s - 1\<rparr>)" using Suc.prems(1) u by (simp add: can_send_def)
    ultimately have "kill_line (Suc n) s = kill_line n ?s" using False by (simp add: consputc_backspace)
    moreover have "10 \<notin> set (con_line ?s)"
      unfolding f in_ring.ring_unwrite [OF False] using Suc.prems(2) in_set_butlastD by metis
    moreover have "can_send (3 * unat (cons_e ?s - cons_w ?s)) ?s"
      using Suc.prems(1) u unfolding can_send_sends f by (auto simp: can_send_def)
    ultimately have "kill_line (Suc n) s =
        Ret () (sends (concat (replicate (unat (cons_e s - 1 - cons_w s)) [8, 32, 8])) (?s\<lparr>cons_e := cons_w s\<rparr>))"
      using Suc.IH [of ?s] Suc.prems(3) u unfolding f by simp
    also have "?s\<lparr>cons_e := cons_w s\<rparr> = sends [8, 32, 8] (s\<lparr>cons_e := cons_w s\<rparr>)" by (simp add: sends_def)
    finally show ?thesis by (simp add: u)
  qed
qed simp

abbreviation in_cons :: "'a mach_scheme \<Rightarrow> 'a mach_scheme" where
  "in_cons s \<equiv> s\<lparr>sie := (sie s)(hart s := False), cpus := enter_cpus (hart s) (sie s) (cpus s),
     locks := take_lock Cons_lock (hart s) (locks s)\<rparr>"

lemma sends_deep: "noff (cpus s (hart s)) \<noteq> 0 \<Longrightarrow>
  sends bs s = s\<lparr>uart_sent := uart_sent s @ bs, uart_room := uart_room s - length bs\<rparr>"
  by (simp add: sends_def settle_cpus_deep)

lemma cons_leave:
  assumes "calm s" and "u = in_cons s\<lparr>uart_sent := S, uart_room := M, cons_buf := B, cons_w := W, cons_e := E, proc := P\<rparr>"
  shows "release Cons_lock u = Ret () (settle s\<lparr>uart_sent := S, uart_room := M, cons_buf := B, cons_w := W, cons_e := E, proc := P\<rparr>)"
  using calmD [OF assms(1)] unfolding assms(2) by (simp add: lock_simps)

text \<open>One character typed, with the new contents of the buffer\<close>

lemma consoleintr_eq:
  assumes "calm s" and "cons_ok s" and "0 < c" and "c < 256" and "c \<noteq> C (CHR ''P'')" and "can_send (3 * INPUT_BUF) s"
  shows "\<exists>B W E P. consoleintr c s = Ret () (settle s\<lparr>uart_sent := uart_sent s @ line_echo c (line_abs s),
        uart_room := uart_room s - length (line_echo c (line_abs s)), cons_buf := B, cons_w := W, cons_e := E, proc := P\<rparr>)
    \<and> (ring_list INPUT_BUF B (cons_r s) W, ring_list INPUT_BUF B W E) = line_edit c (line_abs s)
    \<and> P = (if W \<noteq> cons_w s then wake_table Chan_cons (cur s) [0..<NPROC] (proc s) else proc s)"
    (is "\<exists>B W E P. ?eq B W E P")
proof -
  let ?a = "in_cons s" and ?e = "cons_e s" and ?w = "cons_w s" and ?r = "cons_r s" and ?b = "cons_buf s"
  note m = calmD [OF assms(1)]
  have acq: "acquire Cons_lock s = Ret () ?a" using m(2) by (rule acquire_free)
  have deep: "noff (cpus ?a (hart ?a)) \<noteq> 0" using cpus_okD [OF m(1)] by (simp add: lock_simps)
  have lim: "unat (?w - ?r) + unat (?e - ?w) \<le> INPUT_BUF" and nl: "10 \<notin> set (con_line s)"
    using assms(2) by (auto simp: cons_ok_def)
  have er: "unat (?e - ?r) = unat (?w - ?r) + unat (?e - ?w)" by (rule in_ring.used_append [OF lim])
  have send: "can_send n (?a\<lparr>cons_e := E\<rparr>)" "can_send n ?a" if "n \<le> 3 * INPUT_BUF" for n E
    using assms(6) that m(1) by (auto simp: can_send_def lock_simps)
  have ctl: "C (CHR ''P'') = 16" "C (CHR ''U'') = 21" "C (CHR ''H'') = 8" "C (CHR ''D'') = 4" by (simp_all add: C_def)
  let ?u = "\<lambda>echo B W E P. ?a\<lparr>uart_sent := uart_sent s @ echo, uart_room := uart_room s - length echo,
      cons_buf := B, cons_w := W, cons_e := E, proc := P\<rparr>"
  consider (kill) "c = 21" | (bksp) "c = 8 \<or> c = 0x7f" "?e \<noteq> ?w" | (noback) "c = 8 \<or> c = 0x7f" "?e = ?w"
    | (drop) "c \<notin> {21, 8, 0x7f}" "\<not> unat (?e - ?r) < INPUT_BUF" | (store) "c \<notin> {21, 8, 0x7f}" "unat (?e - ?r) < INPUT_BUF"
    by blast
  then show ?thesis
  proof cases
    case kill
    have "kill_line (unat (?e - ?w) + 1) ?a = Ret () (sends (line_echo c (line_abs s)) (?a\<lparr>cons_e := ?w\<rparr>))"
      using kill_line_eq [of ?a "unat (?e - ?w) + 1"] send lim nl kill
      by (simp add: line_echo_def line_abs_def ctl)
    moreover have "sends (line_echo c (line_abs s)) (?a\<lparr>cons_e := ?w\<rparr>) = ?u (line_echo c (line_abs s)) ?b ?w ?w (proc s)"
      using deep by (simp add: sends_deep)
    ultimately have "?eq ?b ?w ?w (proc s)"
      using kill acq cons_leave [OF assms(1) refl, of "proc s" ?w ?w ?b]
      by (simp add: consoleintr_def ctl line_edit_def line_abs_def del: kill_line.simps)
    then show ?thesis by - (rule exI [of _ ?b], rule exI [of _ ?w], rule exI [of _ ?w], rule exI [of _ "proc s"], assumption)
  next
    case bksp
    have "length (con_line s) \<noteq> 0" using in_ring.used_unwrite [OF bksp(2)] by simp
    then have "con_line s \<noteq> []" by (metis list.size(3))
    then have "line_echo c (line_abs s) = [8, 32, 8]"
      using bksp(1) by (auto simp: line_echo_def line_abs_def ctl)
    moreover have "consputc BACKSPACE (?a\<lparr>cons_e := ?e - 1\<rparr>) = Ret () (sends [8, 32, 8] (?a\<lparr>cons_e := ?e - 1\<rparr>))"
      using send(1) [of 3] by (intro consputc_backspace) (simp add: INPUT_BUF_def)
    moreover have "sends [8, 32, 8] (?a\<lparr>cons_e := ?e - 1\<rparr>) = ?u [8, 32, 8] ?b ?w (?e - 1) (proc s)"
      using deep by (simp add: sends_deep)
    ultimately have "?eq ?b ?w (?e - 1) (proc s)"
      using bksp acq cons_leave [OF assms(1) refl, of "proc s" "?e - 1" ?w ?b] in_ring.ring_unwrite [OF bksp(2)]
      by (auto simp: consoleintr_def ctl line_edit_def line_abs_def)
    then show ?thesis by - (rule exI [of _ ?b], rule exI [of _ ?w], rule exI [of _ "?e - 1"], rule exI [of _ "proc s"], assumption)
  next
    case noback
    then have "line_echo c (line_abs s) = []" by (auto simp: line_echo_def line_abs_def ctl)
    then have "?eq ?b ?w ?e (proc s)"
      using noback acq cons_leave [OF assms(1), of ?a "proc s" ?e ?w ?b "uart_room s" "uart_sent s"]
      by (auto simp: consoleintr_def ctl line_edit_def line_abs_def)
    then show ?thesis by - (rule exI [of _ ?b], rule exI [of _ ?w], rule exI [of _ ?e], rule exI [of _ "proc s"], assumption)
  next
    case drop
    then have "line_echo c (line_abs s) = []" using er by (auto simp: line_echo_def line_abs_def ctl)
    then have "?eq ?b ?w ?e (proc s)"
      using drop assms(3,5) er acq cons_leave [OF assms(1), of ?a "proc s" ?e ?w ?b "uart_room s" "uart_sent s"]
      by (auto simp: consoleintr_def ctl line_edit_def line_abs_def)
    then show ?thesis by - (rule exI [of _ ?b], rule exI [of _ ?w], rule exI [of _ ?e], rule exI [of _ "proc s"], assumption)
  next
    case store
    define d where "d = (if c = 13 then 10 else c)"
    have d: "0 < d" "d < 256" using assms(3,4) by (auto simp: d_def)
    define b :: byte where "b = of_int d"
    have ub: "uint b = d" using d by (simp add: b_def unsigned_of_int take_bit_int_eq_self)
    have echo: "line_echo c (line_abs s) = [b]"
      using store er by (auto simp: line_echo_def line_abs_def ctl d_def b_def)
    have "consputc d ?a = Ret () (sends [b] ?a)"
      using consputc_byte [of ?a b] send(2) [of 1] ub by (simp add: INPUT_BUF_def)
    then have put: "consputc d ?a = Ret () (?a\<lparr>uart_sent := uart_sent s @ [b], uart_room := uart_room s - 1\<rparr>)"
      using deep by (simp add: sends_deep)
    let ?B = "?b(unat ?e mod INPUT_BUF := b)"
    have wl: "ring_list INPUT_BUF ?B ?r ?w = con_ready s" using store er by (intro in_ring.ring_write_beyond) simp
    have we: "ring_list INPUT_BUF ?B ?w (?e + 1) = con_line s @ [b]" using store er by (intro in_ring.ring_write) simp
    have we1: "unat (?e + 1 - ?w) = unat (?e - ?w) + 1" using store er by (intro in_ring.used_write) simp
    have re: "ring_list INPUT_BUF ?B ?r (?e + 1) = con_ready s @ con_line s @ [b]"
      using in_ring.ring_append [of ?w ?r "?e + 1" ?B] wl we we1 store er by simp
    have full: "?e + 1 = ?r + of_nat INPUT_BUF \<longleftrightarrow> length (con_ready s) + length (con_line s) + 1 = INPUT_BUF"
      using in_ring.full_iff [of "?e + 1" ?r] in_ring.used_write [of ?e ?r] store er by simp
    have ne: "?e + 1 \<noteq> ?w" using we1 by auto
    let ?commit = "d = 10 \<or> d = 4 \<or> ?e + 1 = ?r + of_nat INPUT_BUF"
    let ?P = "wake_table Chan_cons (cur s) [0..<NPROC] (proc s)"
    have spec: "line_edit c (line_abs s) = (if ?commit then (con_ready s @ con_line s @ [b], []) else (con_ready s, con_line s @ [b]))"
      using store er assms(3,5) unfolding full by (simp add: line_edit_def line_abs_def ctl d_def [symmetric] b_def Let_def add.assoc)
    show ?thesis
    proof (cases ?commit)
      case True
      have "wakeup Chan_cons (?a\<lparr>uart_sent := uart_sent s @ [b], uart_room := uart_room s - 1, cons_buf := ?B, cons_e := ?e + 1,
          cons_w := ?e + 1\<rparr>) = Ret () (?a\<lparr>uart_sent := uart_sent s @ [b], uart_room := uart_room s - 1, cons_buf := ?B,
          cons_w := ?e + 1, cons_e := ?e + 1, proc := ?P\<rparr>)"
        using m deep by (simp add: wakeup_locked lock_simps settle_cpus_deep)
      then have "?eq ?B (?e + 1) (?e + 1) ?P"
        using True store assms(3,5) acq put echo spec re ne cons_leave [OF assms(1) refl, of ?P "?e + 1" "?e + 1" ?B "uart_room s - 1" "uart_sent s @ [b]"]
        by (simp add: consoleintr_def ctl d_def [symmetric] b_def [symmetric] Let_def)
      then show ?thesis by - (rule exI [of _ ?B], rule exI [of _ "?e + 1"], rule exI [of _ "?e + 1"], rule exI [of _ ?P], assumption)
    next
      case False
      then have "?eq ?B ?w (?e + 1) (proc s)"
        using store assms(3,5) acq put echo spec wl we cons_leave [OF assms(1), of "?a\<lparr>uart_sent := uart_sent s @ [b], uart_room := uart_room s - 1, cons_buf := ?B, cons_e := ?e + 1\<rparr>"
          "proc s" "?e + 1" ?w ?B "uart_room s - 1" "uart_sent s @ [b]"]
        by (simp add: consoleintr_def ctl d_def [symmetric] b_def [symmetric] Let_def)
      then show ?thesis by - (rule exI [of _ ?B], rule exI [of _ ?w], rule exI [of _ "?e + 1"], rule exI [of _ "proc s"], assumption)
    qed
  qed
qed

lemma byte_of_int_eq_10: "0 \<le> c \<Longrightarrow> c < 256 \<Longrightarrow> (of_int c :: byte) = 10 \<longleftrightarrow> c = 10"
proof
  assume c: "0 \<le> c" "c < 256" and e: "(of_int c :: byte) = 10"
  have "uint (of_int c :: byte) = c" using c by (simp add: unsigned_of_int take_bit_int_eq_self)
  then show "c = 10" unfolding e by simp
qed simp

lemma cons_ok_abs:
  "cons_ok s \<longleftrightarrow> length (fst (line_abs s)) + length (snd (line_abs s)) \<le> INPUT_BUF \<and> 10 \<notin> set (snd (line_abs s))"
  by (simp add: cons_ok_def line_abs_def)

lemma line_edit_ok:
  assumes "length (fst st) + length (snd st) \<le> INPUT_BUF" and "10 \<notin> set (snd st)" and "0 < c" and "c < 256"
  shows "length (fst (line_edit c st)) + length (snd (line_edit c st)) \<le> INPUT_BUF \<and> 10 \<notin> set (snd (line_edit c st))"
  using assms byte_of_int_eq_10 [of c]
  by (cases st) (auto simp: line_edit_def Let_def C_def dest: in_set_butlastD)

text \<open>
  C8. The console's input interrupt handler implements the line discipline on two strings,
  the finished input and the line being edited: a character is appended and echoed, carriage
  return becomes newline, backspace and delete remove the last character of the line and
  Control-U the whole line, each blanked on the screen, and newline, Control-D or a full buffer hand
  the line to the readers, who are made runnable. Input that does not fit is dropped.
\<close>

theorem consoleintr_refines:
  assumes "calm s" and "cons_ok s" and "0 < c" and "c < 256" and "c \<noteq> C (CHR ''P'')" and "can_send (3 * INPUT_BUF) s"
  shows "\<exists>t. consoleintr c s = Ret () t \<and> line_abs t = line_edit c (line_abs s)
    \<and> uart_sent t = uart_sent s @ line_echo c (line_abs s) \<and> cons_ok t \<and> calm t
    \<and> (fst (line_abs t) \<noteq> fst (line_abs s) \<longrightarrow>
        (\<forall>p<NPROC. cur s \<noteq> Some p \<longrightarrow> p_state (proc s p) = SLEEPING \<longrightarrow> p_chan (proc s p) = Some Chan_cons \<longrightarrow>
           p_state (proc t p) = RUNNABLE))"
proof -
  obtain B W E P where eq: "consoleintr c s = Ret () (settle s\<lparr>uart_sent := uart_sent s @ line_echo c (line_abs s),
        uart_room := uart_room s - length (line_echo c (line_abs s)), cons_buf := B, cons_w := W, cons_e := E, proc := P\<rparr>)"
    and abs: "(ring_list INPUT_BUF B (cons_r s) W, ring_list INPUT_BUF B W E) = line_edit c (line_abs s)"
    and P: "P = (if W \<noteq> cons_w s then wake_table Chan_cons (cur s) [0..<NPROC] (proc s) else proc s)"
    using consoleintr_eq [OF assms] by blast
  define t where "t = settle s\<lparr>uart_sent := uart_sent s @ line_echo c (line_abs s),
        uart_room := uart_room s - length (line_echo c (line_abs s)), cons_buf := B, cons_w := W, cons_e := E, proc := P\<rparr>"
  have la: "line_abs t = line_edit c (line_abs s)" using abs by (simp add: line_abs_def t_def)
  show ?thesis
  proof (intro exI conjI impI allI)
    show "consoleintr c s = Ret () t" using eq by (simp only: t_def)
    show "line_abs t = line_edit c (line_abs s)" by (rule la)
    show "uart_sent t = uart_sent s @ line_echo c (line_abs s)" by (simp add: t_def)
    show "cons_ok t" using line_edit_ok [of "line_abs s" c] assms(2-4) unfolding cons_ok_abs la by simp
    show "calm t" using assms(1) by (simp add: t_def calm_def lock_simps)
  next
    fix p assume new: "fst (line_abs t) \<noteq> fst (line_abs s)" and p: "p < NPROC" "cur s \<noteq> Some p"
      "p_state (proc s p) = SLEEPING" "p_chan (proc s p) = Some Chan_cons"
    have "W \<noteq> cons_w s"
    proof
      assume W: "W = cons_w s"
      then have "length (fst (line_edit c (line_abs s))) = length (con_ready s)" using abs by (metis fst_conv length_ring_list)
      then have "fst (line_edit c (line_abs s)) = con_ready s"
        by (auto simp: line_edit_def line_abs_def Let_def split: if_splits)
      then show False using new unfolding la by (simp add: line_abs_def)
    qed
    then show "p_state (proc t p) = RUNNABLE" using p by (simp add: t_def P wake_table_def woken_def)
  qed
qed

section \<open>Reading from the console\<close>

text \<open>
  What a reader that wants \<open>k\<close> more bytes gets from the finished input, and what stays; it
  has read something already if \<open>got\<close>. \<open>None\<close> means that it has to wait.
\<close>

fun line_input :: "nat \<Rightarrow> bool \<Rightarrow> byte list \<Rightarrow> (byte list \<times> byte list) option" where
  "line_input 0 got rdy = Some ([], rdy)"
| "line_input (Suc k) got [] = None"
| "line_input (Suc k) got (c # rdy) =
     (if c = 4 then Some ([], if got then c # rdy else rdy)
      else if c = 10 then Some ([c], rdy)
      else map_option (\<lambda>(bs, rest). (c # bs, rest)) (line_input k True rdy))"

lemma write_at_Cons: "write_at (write_at d k [c]) (Suc k) bs = write_at d k (c # bs)"
  by (auto simp: write_at_def fun_eq_iff nth_Cons')

lemma write_at_Nil [simp]: "write_at d k [] = d"
  by (auto simp: write_at_def fun_eq_iff)

lemma uint_C_D: "uint (c :: byte) = C (CHR ''D'') \<longleftrightarrow> c = 4"
  by (simp add: C_def word_uint_eq_iff)

lemma consoleread_loop_eq:
  assumes "cpu_ok s" and "0 < noff (cpus s (hart s))" and "locked (locks s Cons_lock)" and "lk_cpu (locks s Cons_lock) = Some (hart s)"
    and "line_input k got (con_ready s) = Some (bs, rest)" and "got \<longleftrightarrow> int k < target"
    and "int k \<le> target"
  shows "\<exists>R. consoleread_loop k target (Obj d j) s =
      res_bind (release Cons_lock (s\<lparr>cons_r := R\<rparr>)) (\<lambda>_ s. Ret (target - int k + int (length bs), Obj (write_at d j bs) (j + length bs)) s)
    \<and> ring_list INPUT_BUF (cons_buf s) R (cons_w s) = rest \<and> unat (cons_w s - R) \<le> unat (cons_w s - cons_r s)"
  using assms
proof (induction k arbitrary: s got bs d j)
  case 0
  then show ?case by (intro exI [of _ "cons_r s"]) (simp add: consoleread_end_def)
next
  case (Suc k)
  let ?r = "cons_r s" and ?w = "cons_w s"
  let ?c = "cons_buf s (unat ?r mod INPUT_BUF)"
  have ne: "?w \<noteq> ?r" using Suc.prems(5) by auto
  have rdy: "con_ready s = ?c # ring_list INPUT_BUF (cons_buf s) (?r + 1) ?w" by (rule in_ring.ring_read [OF ne])
  have less: "unat (?w - (?r + 1)) \<le> unat (?w - ?r)" using in_ring.used_read [OF ne] by simp
  consider (eof) "?c = 4" | (nl) "?c = 10" | (more) "?c \<noteq> 4" "?c \<noteq> 10" by blast
  then show ?case
  proof cases
    case eof
    then have bs: "bs = []" "rest = (if got then con_ready s else ring_list INPUT_BUF (cons_buf s) (?r + 1) ?w)"
      using Suc.prems(5) rdy by auto
    have "consoleread_loop (Suc k) target (Obj d j) s =
        consoleread_end target (int (Suc k)) (Obj d j) (s\<lparr>cons_r := if got then ?r else ?r + 1\<rparr>)"
      using ne eof Suc.prems(6) by (simp add: uint_C_D)
    then show ?thesis
      using bs less by (intro exI [of _ "if got then ?r else ?r + 1"]) (simp add: consoleread_end_def)
  next
    case nl
    then have bs: "bs = [10]" "rest = ring_list INPUT_BUF (cons_buf s) (?r + 1) ?w" using Suc.prems(5) rdy by auto
    have "consoleread_loop (Suc k) target (Obj d j) s =
        consoleread_end target (int k) (Obj (write_at d j [10]) (Suc j)) (s\<lparr>cons_r := ?r + 1\<rparr>)"
      using ne nl Suc.prems(1,2) by (simp add: uint_C_D either_copyout_def lock_simps settle_cpus_deep Let_def)
    then show ?thesis using bs less by (intro exI [of _ "?r + 1"]) (simp add: consoleread_end_def)
  next
    case more
    let ?s = "s\<lparr>cons_r := ?r + 1\<rparr>"
    obtain bs' where bs: "bs = ?c # bs'" "line_input k True (con_ready ?s) = Some (bs', rest)"
      using Suc.prems(5) rdy more by auto
    have "consoleread_loop (Suc k) target (Obj d j) s = consoleread_loop k target (Obj (write_at d j [?c]) (Suc j)) ?s"
      using ne more Suc.prems(1,2) by (simp add: uint_C_D either_copyout_def lock_simps settle_cpus_deep Let_def)
    moreover obtain R where
      "consoleread_loop k target (Obj (write_at d j [?c]) (Suc j)) ?s =
        res_bind (release Cons_lock (?s\<lparr>cons_r := R\<rparr>)) (\<lambda>_ s. Ret (target - int k + int (length bs'),
          Obj (write_at (write_at d j [?c]) (Suc j) bs') (Suc j + length bs')) s)"
      "ring_list INPUT_BUF (cons_buf s) R ?w = rest" "unat (?w - R) \<le> unat (?w - (?r + 1))"
      using Suc.IH [of ?s True bs' "write_at d j [?c]" "Suc j"] Suc.prems bs(2) by auto
    ultimately show ?thesis using bs less by (intro exI [of _ R]) (simp add: write_at_Cons algebra_simps)
  qed
qed


definition demo_console :: cons_state where
  "demo_console = uart_state.extend (demo_uart\<lparr>uart_room := 1000\<rparr>)
     (cons_state.fields ((\<lambda>_. 0)(126 := 104, 127 := 105, 0 := 10, 1 := 120)) 0xFFFFFFFE 1 2)"

lemma demo_console_simps [simp]:
  "calm demo_console" "cons_ok demo_console" "can_send (3 * INPUT_BUF) demo_console"
  "con_ready demo_console = [104, 105, 10]" "con_line demo_console = [120]"
proof -
  have f: "hart demo_console = hart demo_uart" "sie demo_console = sie demo_uart" "cpus demo_console = cpus demo_uart"
    "locks demo_console = locks demo_uart" "panicked demo_console = panicked demo_uart"
    "uart_regs demo_console = uart_regs demo_uart" "uart_room demo_console = 1000"
    and r: "cons_buf demo_console = (\<lambda>_. 0)(126 := 104, 127 := 105, 0 := 10, 1 := 120)"
    "cons_r demo_console = 0xFFFFFFFE" "cons_w demo_console = 1" "cons_e demo_console = 2"
    by (simp_all add: demo_console_def demo_uart_def uart_state.defs cons_state.defs sleep_state.defs)
  show "calm demo_console" using demo_uart_simps(1) f by (simp add: calm_def)
  show "can_send (3 * INPUT_BUF) demo_console"
    using demo_uart_simps(1,4,5) f by (simp add: can_send_def calm_def INPUT_BUF_def uart_ok_def)
  show 1: "con_ready demo_console = [104, 105, 10]" and 2: "con_line demo_console = [120]"
    by (simp_all add: r ring_list_def INPUT_BUF_def upt_rec)
  then show "cons_ok demo_console" by (simp add: cons_ok_def INPUT_BUF_def) (simp add: r)
qed

theorem consoleintr_refines_witness:
  "\<exists>t. consoleintr 13 demo_console = Ret () t \<and> line_abs t = ([104, 105, 10, 120, 10], [])"
proof -
  have "line_abs demo_console = ([104, 105, 10], [120])" by (simp add: line_abs_def)
  then have "line_edit 13 (line_abs demo_console) = ([104, 105, 10, 120, 10], [])"
    by (simp add: line_edit_def C_def INPUT_BUF_def Let_def)
  then show ?thesis using consoleintr_refines [OF demo_console_simps(1,2), of 13] demo_console_simps(3) by (auto simp: C_def)
qed


end
