(* ===== verification/Virtio.thy ===== *)
theory Virtio
  imports Console
begin

text \<open>
  The virtio disk driver, \<open>kernel/virtio_disk.c\<close>, with \<open>struct buf\<close> of \<open>kernel/buf.h\<close>
  that it transfers. The memory that driver and device share is the record \<open>virtq\<close>: the
  descriptors, the available and the used ring, the request headers and the status bytes. An
  address in a descriptor is the object it points to. A \<open>struct buf *\<close> is the index into
  \<open>bcache.buf\<close>, and the contents of a block is the function from byte index to byte.

  The device is the field \<open>vdev\<close>, a parameter: a function on the shared memory, the data of
  the buffers and the disk image. The theorems assume of it what the virtio specification
  promises for a block request, the predicate \<open>virtio_spec\<close>. The registers that the driver
  reads are the field \<open>mmio\<close>, those it writes are recorded in \<open>mmio_log\<close>.
\<close>

section \<open>State\<close>

type_synonym block = cptr

definition BSIZE :: nat where "BSIZE = 1024"
definition NUM :: nat where "NUM = 8"

record buf =
  b_valid :: bool
  b_disk :: bool
  b_dev :: uint
  b_blockno :: uint
  b_refcnt :: uint
  b_prev :: nat
  b_next :: nat
  b_data :: block

datatype dma = D_null | D_op nat | D_data nat | D_status nat

record virtq_desc =
  d_addr :: dma
  d_len :: uint
  d_flags :: ushort
  d_next :: ushort

record virtio_blk_req =
  r_type :: uint
  r_reserved :: uint
  r_sector :: uint64

record virtq =
  v_desc :: "nat \<Rightarrow> virtq_desc"
  v_avail :: "nat \<Rightarrow> ushort"
  v_avail_idx :: ushort
  v_used :: "nat \<Rightarrow> uint"
  v_used_idx :: ushort
  v_ops :: "nat \<Rightarrow> virtio_blk_req"
  v_status :: "nat \<Rightarrow> byte"

type_synonym device = "virtq \<Rightarrow> (nat \<Rightarrow> block) \<Rightarrow> (nat \<Rightarrow> block) \<Rightarrow> virtq \<times> (nat \<Rightarrow> block) \<times> (nat \<Rightarrow> block)"

text \<open>\<open>disk_hist\<close> is a ghost: the blocks written so far with their contents, in order.\<close>

record disk_state = cons_state +
  bufs :: "nat \<Rightarrow> buf"
  vq :: virtq
  vfree :: "nat \<Rightarrow> bool"
  vused_idx :: ushort
  vinfo_b :: "nat \<Rightarrow> nat option"
  vpages :: uint64
  mmio :: "uint64 \<Rightarrow> uint"
  mmio_log :: "(uint64 \<times> uint) list"
  vdev :: device
  disk_img :: "nat \<Rightarrow> block"
  disk_hist :: "(nat \<times> block) list"

definition VRING_DESC_F_NEXT :: ushort where "VRING_DESC_F_NEXT = 1"
definition VRING_DESC_F_WRITE :: ushort where "VRING_DESC_F_WRITE = 2"
definition VIRTIO_BLK_T_IN :: uint where "VIRTIO_BLK_T_IN = 0"
definition VIRTIO_BLK_T_OUT :: uint where "VIRTIO_BLK_T_OUT = 1"
definition VIRTIO_MMIO_MAGIC_VALUE :: uint64 where "VIRTIO_MMIO_MAGIC_VALUE = 0x000"
definition VIRTIO_MMIO_VERSION :: uint64 where "VIRTIO_MMIO_VERSION = 0x004"
definition VIRTIO_MMIO_DEVICE_ID :: uint64 where "VIRTIO_MMIO_DEVICE_ID = 0x008"
definition VIRTIO_MMIO_VENDOR_ID :: uint64 where "VIRTIO_MMIO_VENDOR_ID = 0x00c"
definition VIRTIO_MMIO_DEVICE_FEATURES :: uint64 where "VIRTIO_MMIO_DEVICE_FEATURES = 0x010"
definition VIRTIO_MMIO_DRIVER_FEATURES :: uint64 where "VIRTIO_MMIO_DRIVER_FEATURES = 0x020"
definition VIRTIO_MMIO_GUEST_PAGE_SIZE :: uint64 where "VIRTIO_MMIO_GUEST_PAGE_SIZE = 0x028"
definition VIRTIO_MMIO_QUEUE_SEL :: uint64 where "VIRTIO_MMIO_QUEUE_SEL = 0x030"
definition VIRTIO_MMIO_QUEUE_NUM_MAX :: uint64 where "VIRTIO_MMIO_QUEUE_NUM_MAX = 0x034"
definition VIRTIO_MMIO_QUEUE_NUM :: uint64 where "VIRTIO_MMIO_QUEUE_NUM = 0x038"
definition VIRTIO_MMIO_QUEUE_PFN :: uint64 where "VIRTIO_MMIO_QUEUE_PFN = 0x040"
definition VIRTIO_MMIO_QUEUE_NOTIFY :: uint64 where "VIRTIO_MMIO_QUEUE_NOTIFY = 0x050"
definition VIRTIO_MMIO_INTERRUPT_STATUS :: uint64 where "VIRTIO_MMIO_INTERRUPT_STATUS = 0x060"
definition VIRTIO_MMIO_INTERRUPT_ACK :: uint64 where "VIRTIO_MMIO_INTERRUPT_ACK = 0x064"
definition VIRTIO_MMIO_STATUS :: uint64 where "VIRTIO_MMIO_STATUS = 0x070"

definition mmio_write :: "uint64 \<Rightarrow> uint \<Rightarrow> 'a disk_state_scheme \<Rightarrow> 'a disk_state_scheme" where
  "mmio_write r v s = s\<lparr>mmio_log := mmio_log s @ [(r, v)]\<rparr>"

definition upd_buf :: "nat \<Rightarrow> (buf \<Rightarrow> buf) \<Rightarrow> 'a disk_state_scheme \<Rightarrow> 'a disk_state_scheme" where
  "upd_buf b f s = s\<lparr>bufs := (bufs s)(b := f (bufs s b))\<rparr>"

section \<open>Initialisation\<close>

definition null_desc :: virtq_desc where
  "null_desc = \<lparr>d_addr = D_null, d_len = 0, d_flags = 0, d_next = 0\<rparr>"

text \<open>
  The features that the driver refuses: \<open>VIRTIO_BLK_F_RO\<close>, \<open>SCSI\<close>, \<open>CONFIG_WCE\<close>,
  \<open>MQ\<close>, \<open>VIRTIO_F_ANY_LAYOUT\<close>, \<open>VIRTIO_RING_F_EVENT_IDX\<close> and \<open>INDIRECT_DESC\<close>.
\<close>

definition refused_features :: "nat list" where
  "refused_features = [5, 7, 11, 12, 27, 29, 28]"

definition virtio_disk_init :: "'a disk_state_scheme \<Rightarrow> ('a disk_state_scheme, unit) res" where
  "virtio_disk_init s =
     (let s = initlock Vdisk_lock ''virtio_disk'' s in
      if mmio s VIRTIO_MMIO_MAGIC_VALUE \<noteq> 0x74726976 \<or> mmio s VIRTIO_MMIO_VERSION \<noteq> 1 \<or>
         mmio s VIRTIO_MMIO_DEVICE_ID \<noteq> 2 \<or> mmio s VIRTIO_MMIO_VENDOR_ID \<noteq> 0x554d4551
      then Panic ''could not find virtio disk''
      else
        let s = mmio_write VIRTIO_MMIO_STATUS 1 s;
            s = mmio_write VIRTIO_MMIO_STATUS 3 s;
            features = fold (\<lambda>i f. f AND NOT (push_bit i 1)) refused_features (mmio s VIRTIO_MMIO_DEVICE_FEATURES);
            s = mmio_write VIRTIO_MMIO_DRIVER_FEATURES features s;
            s = mmio_write VIRTIO_MMIO_STATUS 11 s;
            s = mmio_write VIRTIO_MMIO_STATUS 15 s;
            s = mmio_write VIRTIO_MMIO_GUEST_PAGE_SIZE 4096 s;
            s = mmio_write VIRTIO_MMIO_QUEUE_SEL 0 s;
            mx = mmio s VIRTIO_MMIO_QUEUE_NUM_MAX
        in if mx = 0 then Panic ''virtio disk has no queue 0''
           else if mx < of_nat NUM then Panic ''virtio disk max queue too short''
           else
             let s = mmio_write VIRTIO_MMIO_QUEUE_NUM (of_nat NUM) s;
                 s = s\<lparr>vq := (vq s)\<lparr>v_desc := \<lambda>_. null_desc, v_avail := \<lambda>_. 0, v_avail_idx := 0, v_used := \<lambda>_. 0, v_used_idx := 0\<rparr>\<rparr>;
                 s = mmio_write VIRTIO_MMIO_QUEUE_PFN (ucast (drop_bit 12 (vpages s))) s
             in Ret () (s\<lparr>vfree := \<lambda>i. i < NUM \<or> vfree s i\<rparr>))"

text \<open>
  The regions of \<open>disk.pages\<close>: offsets of the available ring, behind the descriptors, and of
  the used ring, in the second page.
\<close>

definition avail_offset :: nat where "avail_offset = NUM * 16"
definition used_offset :: nat where "used_offset = 4096"

section \<open>Descriptors\<close>

definition alloc_desc :: "'a disk_state_scheme \<Rightarrow> int \<times> 'a disk_state_scheme" where
  "alloc_desc s =
     (case find (vfree s) [0..<NUM] of
        Some i \<Rightarrow> (int i, s\<lparr>vfree := (vfree s)(i := False)\<rparr>)
      | None \<Rightarrow> (-1, s))"

definition free_desc :: "int \<Rightarrow> 'a disk_state_scheme \<Rightarrow> ('a disk_state_scheme, unit) res" where
  "free_desc i s =
     (if i \<ge> int NUM then Panic ''free_desc 1''
      else if vfree s (nat i) then Panic ''free_desc 2''
      else
        let s = s\<lparr>vq := (vq s)\<lparr>v_desc := (v_desc (vq s))(nat i := null_desc)\<rparr>, vfree := (vfree s)(nat i := True)\<rparr>
        in wakeup Chan_disk_free s)"

text \<open>A chain frees at most every descriptor once before \<open>free_desc\<close> panics.\<close>

primrec free_chain :: "nat \<Rightarrow> nat \<Rightarrow> 'a disk_state_scheme \<Rightarrow> ('a disk_state_scheme, unit) res" where
  "free_chain 0 i s = OutOfFuel"
| "free_chain (Suc n) i s =
     (let flag = d_flags (v_desc (vq s) i);
          nxt = d_next (v_desc (vq s) i)
      in res_bind (free_desc (int i) s) (\<lambda>_ s.
         if flag AND VRING_DESC_F_NEXT \<noteq> 0 then free_chain n (unat nxt) s else Ret () s))"

text \<open>The loop of \<open>alloc3_desc\<close>, with the indices allocated so far\<close>

primrec alloc3_loop :: "nat \<Rightarrow> nat list \<Rightarrow> 'a disk_state_scheme \<Rightarrow> ('a disk_state_scheme, nat list option) res" where
  "alloc3_loop 0 idx s = Ret (Some idx) s"
| "alloc3_loop (Suc n) idx s =
     (case alloc_desc s of (i, s) \<Rightarrow>
        if i < 0 then res_bind (res_for idx (\<lambda>j. free_desc (int j)) s) (\<lambda>_ s. Ret None s)
        else alloc3_loop n (idx @ [nat i]) s)"

definition alloc3_desc :: "'a disk_state_scheme \<Rightarrow> ('a disk_state_scheme, nat list option) res" where
  "alloc3_desc s = alloc3_loop 3 [] s"

section \<open>Requests\<close>

definition set_desc :: "nat \<Rightarrow> virtq_desc \<Rightarrow> 'a disk_state_scheme \<Rightarrow> 'a disk_state_scheme" where
  "set_desc i d s = s\<lparr>vq := (vq s)\<lparr>v_desc := (v_desc (vq s))(i := d)\<rparr>\<rparr>"

text \<open>From the request header to the notification of the device\<close>

definition virtio_submit :: "nat \<Rightarrow> bool \<Rightarrow> nat list \<Rightarrow> 'a disk_state_scheme \<Rightarrow> 'a disk_state_scheme" where
  "virtio_submit b wr idx s =
     (let sector = (ucast (b_blockno (bufs s b) * 2) :: uint64);
          i0 = idx ! 0; i1 = idx ! 1; i2 = idx ! 2;
          s = s\<lparr>vq := (vq s)\<lparr>v_ops := (v_ops (vq s))(i0 :=
                \<lparr>r_type = if wr then VIRTIO_BLK_T_OUT else VIRTIO_BLK_T_IN, r_reserved = 0, r_sector = sector\<rparr>)\<rparr>\<rparr>;
          s = set_desc i0 \<lparr>d_addr = D_op i0, d_len = 16, d_flags = VRING_DESC_F_NEXT, d_next = of_nat i1\<rparr> s;
          s = set_desc i1 \<lparr>d_addr = D_data b, d_len = of_nat BSIZE,
                d_flags = (if wr then 0 else VRING_DESC_F_WRITE) OR VRING_DESC_F_NEXT, d_next = of_nat i2\<rparr> s;
          s = s\<lparr>vq := (vq s)\<lparr>v_status := (v_status (vq s))(i0 := 0xff)\<rparr>\<rparr>;
          s = set_desc i2 \<lparr>d_addr = D_status i0, d_len = 1, d_flags = VRING_DESC_F_WRITE, d_next = 0\<rparr> s;
          s = upd_buf b (\<lambda>x. x\<lparr>b_disk := True\<rparr>) s;
          s = s\<lparr>vinfo_b := (vinfo_b s)(i0 := Some b)\<rparr>;
          s = s\<lparr>vq := (vq s)\<lparr>v_avail := (v_avail (vq s))(unat (v_avail_idx (vq s)) mod NUM := of_nat i0)\<rparr>\<rparr>;
          s = s\<lparr>vq := (vq s)\<lparr>v_avail_idx := v_avail_idx (vq s) + 1\<rparr>\<rparr>
      in mmio_write VIRTIO_MMIO_QUEUE_NOTIFY 0 s)"

text \<open>The completion loop of the interrupt handler\<close>

primrec virtio_intr_loop :: "nat \<Rightarrow> 'a disk_state_scheme \<Rightarrow> ('a disk_state_scheme, unit) res" where
  "virtio_intr_loop 0 s = OutOfFuel"
| "virtio_intr_loop (Suc n) s =
     (if vused_idx s = v_used_idx (vq s) then Ret () s
      else
        let id = unat (v_used (vq s) (unat (vused_idx s) mod NUM)) in
        if v_status (vq s) id \<noteq> 0 then Panic ''virtio_disk_intr status''
        else
          let b = the (vinfo_b s id) in
          res_bind (wakeup (Chan_buf b) (upd_buf b (\<lambda>x. x\<lparr>b_disk := False\<rparr>) s)) (\<lambda>_ s.
          virtio_intr_loop n (s\<lparr>vused_idx := vused_idx s + 1\<rparr>)))"

definition virtio_disk_intr :: "'a disk_state_scheme \<Rightarrow> ('a disk_state_scheme, unit) res" where
  "virtio_disk_intr s =
     res_bind (acquire Vdisk_lock s) (\<lambda>_ s.
     let s = mmio_write VIRTIO_MMIO_INTERRUPT_ACK (mmio s VIRTIO_MMIO_INTERRUPT_STATUS AND 3) s in
     res_bind (virtio_intr_loop (unat (v_used_idx (vq s) - vused_idx s) + 1) s) (\<lambda>_ s.
     release Vdisk_lock s))"

text \<open>
  The device runs: it may change the shared memory, the data of the buffers and the image. The
  ghost history records the block when the device has written one.
\<close>

definition run_device :: "bool \<Rightarrow> nat \<Rightarrow> 'a disk_state_scheme \<Rightarrow> 'a disk_state_scheme" where
  "run_device wr b s =
     (case vdev s (vq s) (\<lambda>i. b_data (bufs s i)) (disk_img s) of (q, data, img) \<Rightarrow>
        s\<lparr>vq := q, bufs := \<lambda>i. (bufs s i)\<lparr>b_data := data i\<rparr>, disk_img := img,
          disk_hist := disk_hist s @
            (if wr then [(unat (b_blockno (bufs s b)), img (unat (b_blockno (bufs s b))))] else [])\<rparr>)"

text \<open>
  The loop \<open>while(b->disk == 1) sleep(b, &disk.vdisk_lock)\<close> as its caller sees it: the lock
  is given up, the device completes the request and its interrupt is handled, and the lock is
  taken again. That a process which sleeps comes back this way is \<open>sleep_wakeup_handoff\<close>.
\<close>

definition disk_wait :: "bool \<Rightarrow> nat \<Rightarrow> 'a disk_state_scheme \<Rightarrow> ('a disk_state_scheme, unit) res" where
  "disk_wait wr b s =
     (if \<not> b_disk (bufs s b) then Ret () s
      else
        res_bind (release Vdisk_lock s) (\<lambda>_ s.
        res_bind (virtio_disk_intr (run_device wr b s)) (\<lambda>_ s.
        res_bind (acquire Vdisk_lock s) (\<lambda>_ s.
        if b_disk (bufs s b) then sleep (Chan_buf b) Vdisk_lock s else Ret () s))))"

definition virtio_disk_rw :: "nat \<Rightarrow> bool \<Rightarrow> 'a disk_state_scheme \<Rightarrow> ('a disk_state_scheme, unit) res" where
  "virtio_disk_rw b wr s =
     res_bind (acquire Vdisk_lock s) (\<lambda>_ s.
     res_bind (alloc3_desc s) (\<lambda>r s.
     case r of
       None \<Rightarrow> sleep Chan_disk_free Vdisk_lock s
     | Some idx \<Rightarrow>
         res_bind (disk_wait wr b (virtio_submit b wr idx s)) (\<lambda>_ s.
         let s = s\<lparr>vinfo_b := (vinfo_b s)(idx ! 0 := None)\<rparr> in
         res_bind (free_chain (NUM + 1) (idx ! 0) s) (\<lambda>_ s.
         release Vdisk_lock s))))"

section \<open>What the device promises\<close>

text \<open>
  A chain of three descriptors for block \<open>k\<close>, as the virtio specification (section 5.2)
  describes a block request, the only one the device has not answered yet: it transfers the
  block, sets the status to 0 and adds the chain to the used ring. Nothing else changes.
\<close>

definition virtio_spec :: "device \<Rightarrow> bool" where
  "virtio_spec dev \<longleftrightarrow> (\<forall>q data img i0 i1 i2 b k wr.
     v_avail_idx q = v_used_idx q + 1 \<longrightarrow>
     v_avail q (unat (v_used_idx q) mod NUM) = of_nat i0 \<longrightarrow> i0 < NUM \<longrightarrow> i1 < NUM \<longrightarrow> i2 < NUM \<longrightarrow>
     v_desc q i0 = \<lparr>d_addr = D_op i0, d_len = 16, d_flags = VRING_DESC_F_NEXT, d_next = of_nat i1\<rparr> \<longrightarrow>
     v_desc q i1 = \<lparr>d_addr = D_data b, d_len = of_nat BSIZE,
       d_flags = (if wr then 0 else VRING_DESC_F_WRITE) OR VRING_DESC_F_NEXT, d_next = of_nat i2\<rparr> \<longrightarrow>
     v_desc q i2 = \<lparr>d_addr = D_status i0, d_len = 1, d_flags = VRING_DESC_F_WRITE, d_next = 0\<rparr> \<longrightarrow>
     v_ops q i0 = \<lparr>r_type = if wr then VIRTIO_BLK_T_OUT else VIRTIO_BLK_T_IN, r_reserved = 0, r_sector = of_nat (2 * k)\<rparr> \<longrightarrow>
     k < 2 ^ 31 \<longrightarrow>
     dev q data img =
       (q\<lparr>v_used := (v_used q)(unat (v_used_idx q) mod NUM := of_nat i0), v_used_idx := v_used_idx q + 1,
          v_status := (v_status q)(i0 := 0)\<rparr>,
        if wr then data else data(b := img k), if wr then img(k := data b) else img))"

text \<open>Between two requests: all descriptors are free and the rings are even.\<close>

definition vdisk_ok :: "'a disk_state_scheme \<Rightarrow> bool" where
  "vdisk_ok s \<longleftrightarrow> virtio_spec (vdev s) \<and> (\<forall>i<NUM. vfree s i)
     \<and> v_avail_idx (vq s) = v_used_idx (vq s) \<and> vused_idx s = v_used_idx (vq s)"

text \<open>The process table after wakeups: other processes may have become runnable.\<close>

definition woken_procs :: "nat option \<Rightarrow> (nat \<Rightarrow> proc) \<Rightarrow> (nat \<Rightarrow> proc) \<Rightarrow> bool" where
  "woken_procs me t u \<longleftrightarrow>
     (\<forall>p. u p = t p \<or> me \<noteq> Some p \<and> p_state (t p) = SLEEPING \<and> u p = (t p)\<lparr>p_state := RUNNABLE\<rparr>)"

lemma woken_procs_refl [simp]: "woken_procs me t t"
  by (simp add: woken_procs_def)

lemma woken_procs_trans:
  assumes "woken_procs me t u" and "woken_procs me u v"
  shows "woken_procs me t v"
  unfolding woken_procs_def
proof
  fix p
  have "u p = t p \<or> me \<noteq> Some p \<and> p_state (t p) = SLEEPING \<and> u p = (t p)\<lparr>p_state := RUNNABLE\<rparr>"
    "v p = u p \<or> me \<noteq> Some p \<and> p_state (u p) = SLEEPING \<and> v p = (u p)\<lparr>p_state := RUNNABLE\<rparr>"
    using assms by (simp_all add: woken_procs_def)
  then show "v p = t p \<or> me \<noteq> Some p \<and> p_state (t p) = SLEEPING \<and> v p = (t p)\<lparr>p_state := RUNNABLE\<rparr>" by auto
qed

lemma woken_procs_wake [simp]: "woken_procs me t (wake_table ch me ps t)"
  by (auto simp: woken_procs_def wake_table_def woken_def)

lemma woken_procs_my: "woken_procs (Some p) t u \<Longrightarrow> u p = t p"
  by (auto simp: woken_procs_def)

lemma woken_procs_fields:
  assumes "woken_procs me t u"
  shows "p_pid (u p) = p_pid (t p)" "p_pagetable (u p) = p_pagetable (t p)" "p_ofile (u p) = p_ofile (t p)"
    "p_cwd (u p) = p_cwd (t p)" "p_sz (u p) = p_sz (t p)" "p_killed (u p) = p_killed (t p)"
proof -
  have "u p = t p \<or> u p = (t p)\<lparr>p_state := RUNNABLE\<rparr>" using assms by (auto simp: woken_procs_def)
  then show "p_pid (u p) = p_pid (t p)" "p_pagetable (u p) = p_pagetable (t p)" "p_ofile (u p) = p_ofile (t p)"
    "p_cwd (u p) = p_cwd (t p)" "p_sz (u p) = p_sz (t p)" "p_killed (u p) = p_killed (t p)" by auto
qed

lemma woken_procs_sleeper:
  "woken_procs me t u \<Longrightarrow> p_state (t p) = SLEEPING \<Longrightarrow> u p = t p \<or> p_state (u p) = RUNNABLE"
  by (auto simp: woken_procs_def)

text \<open>Inside a critical section\<close>

definition deep :: "'a mach_scheme \<Rightarrow> bool" where
  "deep s \<longleftrightarrow> cpu_ok s \<and> 0 < noff (cpus s (hart s)) \<and> (\<forall>p<NPROC. lock_free (Proc_lock p) s)"

lemma wakeup_deep: "deep s \<Longrightarrow> wakeup ch s = Ret () (s\<lparr>proc := wake_table ch (cur s) [0..<NPROC] (proc s)\<rparr>)"
  by (simp add: deep_def wakeup_locked settle_cpus_deep)

lemma free_desc_ok:
  "deep s \<Longrightarrow> i < NUM \<Longrightarrow> \<not> vfree s i \<Longrightarrow> free_desc (int i) s =
     Ret () (s\<lparr>vq := (vq s)\<lparr>v_desc := (v_desc (vq s))(i := null_desc)\<rparr>, vfree := (vfree s)(i := True),
       proc := wake_table Chan_disk_free (cur s) [0..<NPROC] (proc s)\<rparr>)"
  by (simp add: free_desc_def deep_def wakeup_locked settle_cpus_deep Let_def)

lemma alloc3_all_free:
  "\<forall>i<NUM. vfree s i \<Longrightarrow> alloc3_desc s = Ret (Some [0, 1, 2]) (s\<lparr>vfree := (vfree s)(0 := False, 1 := False, 2 := False)\<rparr>)"
  by (simp add: alloc3_desc_def alloc_desc_def numeral_3_eq_3 numeral_2_eq_2 NUM_def upt_rec)

lemma free_chain_last:
  assumes "deep s" and "i < NUM" and "\<not> vfree s i" and "d_flags (v_desc (vq s) i) AND VRING_DESC_F_NEXT = 0"
  shows "free_chain (Suc n) i s =
     Ret () (s\<lparr>vq := (vq s)\<lparr>v_desc := (v_desc (vq s))(i := null_desc)\<rparr>, vfree := (vfree s)(i := True),
       proc := wake_table Chan_disk_free (cur s) [0..<NPROC] (proc s)\<rparr>)"
  using assms by (simp add: free_desc_ok)

lemma free_chain_next:
  assumes "deep s" and "i < NUM" and "\<not> vfree s i" and "d_flags (v_desc (vq s) i) AND VRING_DESC_F_NEXT \<noteq> 0"
  shows "free_chain (Suc n) i s =
     free_chain n (unat (d_next (v_desc (vq s) i)))
      (s\<lparr>vq := (vq s)\<lparr>v_desc := (v_desc (vq s))(i := null_desc)\<rparr>, vfree := (vfree s)(i := True),
       proc := wake_table Chan_disk_free (cur s) [0..<NPROC] (proc s)\<rparr>)"
  using assms by (simp add: free_desc_ok Let_def)

abbreviation in_lock :: "lockid \<Rightarrow> 'a mach_scheme \<Rightarrow> 'a mach_scheme" where
  "in_lock lk s \<equiv> s\<lparr>sie := (sie s)(hart s := False), cpus := enter_cpus (hart s) (sie s) (cpus s),
     locks := take_lock lk (hart s) (locks s)\<rparr>"

lemma calm_acquire: "calm s \<Longrightarrow> acquire lk s = Ret () (in_lock lk s)"
  using calmD(2) by (rule acquire_free)

lemma deep_in_lock: "calm s \<Longrightarrow> lk \<notin> range Proc_lock \<Longrightarrow> deep (in_lock lk s)"
  using calmD [of s] cpus_okD [of "hart s" "sie s" "cpus s"] by (auto simp: deep_def lock_simps)

text \<open>The interrupt handler with one answer in the used ring\<close>

lemma virtio_intr_one:
  assumes "calm s" and "v_used_idx (vq s) = vused_idx s + 1" and "v_used (vq s) (unat (vused_idx s) mod NUM) = of_nat i"
    and "i < NUM" and "v_status (vq s) i = 0" and "vinfo_b s i = Some b"
  shows "virtio_disk_intr s = Ret () (settle s\<lparr>
    mmio_log := mmio_log s @ [(VIRTIO_MMIO_INTERRUPT_ACK, mmio s VIRTIO_MMIO_INTERRUPT_STATUS AND 3)],
    bufs := (bufs s)(b := (bufs s b)\<lparr>b_disk := False\<rparr>),
    proc := wake_table (Chan_buf b) (cur s) [0..<NPROC] (proc s), vused_idx := vused_idx s + 1\<rparr>)"
proof -
  let ?a = "mmio_write VIRTIO_MMIO_INTERRUPT_ACK (mmio s VIRTIO_MMIO_INTERRUPT_STATUS AND 3) (in_lock Vdisk_lock s)"
  have d: "deep (upd_buf b (\<lambda>x. x\<lparr>b_disk := False\<rparr>) ?a)"
    using deep_in_lock [OF assms(1), of Vdisk_lock] by (auto simp: deep_def upd_buf_def mmio_write_def)
  have id: "unat (v_used (vq ?a) (unat (vused_idx ?a) mod NUM)) = i" using assms(3,4) by (simp add: NUM_def mmio_write_def)
  have n: "unat (v_used_idx (vq ?a) - vused_idx ?a) = 1" using assms(2) by (simp add: mmio_write_def)
  have "virtio_intr_loop (Suc (Suc 0)) ?a = Ret () ((upd_buf b (\<lambda>x. x\<lparr>b_disk := False\<rparr>) ?a)
      \<lparr>proc := wake_table (Chan_buf b) (cur s) [0..<NPROC] (proc s), vused_idx := vused_idx s + 1\<rparr>)"
    using assms(2,5,6) id wakeup_deep [OF d, of "Chan_buf b"]
    by (simp add: upd_buf_def mmio_write_def Let_def c_proc_lock_simps)
  then have "virtio_disk_intr s = release Vdisk_lock ((upd_buf b (\<lambda>x. x\<lparr>b_disk := False\<rparr>) ?a)
      \<lparr>proc := wake_table (Chan_buf b) (cur s) [0..<NPROC] (proc s), vused_idx := vused_idx s + 1\<rparr>)"
    using n by (simp add: virtio_disk_intr_def calm_acquire [OF assms(1)] mmio_write_def del: virtio_intr_loop.simps)
  then show ?thesis using calmD [OF assms(1)] by (simp add: lock_simps upd_buf_def mmio_write_def)
qed

text \<open>
  The shared memory after the request on descriptors 0, 1, 2 is submitted, and after it has been
  answered
\<close>

definition req_queue :: "nat \<Rightarrow> bool \<Rightarrow> uint \<Rightarrow> virtq \<Rightarrow> virtq" where
  "req_queue b wr blockno q = q\<lparr>
     v_ops := (v_ops q)(0 := \<lparr>r_type = if wr then VIRTIO_BLK_T_OUT else VIRTIO_BLK_T_IN, r_reserved = 0, r_sector = ucast (blockno * 2)\<rparr>),
     v_desc := (v_desc q)(0 := \<lparr>d_addr = D_op 0, d_len = 16, d_flags = VRING_DESC_F_NEXT, d_next = 1\<rparr>,
       1 := \<lparr>d_addr = D_data b, d_len = of_nat BSIZE, d_flags = (if wr then 0 else VRING_DESC_F_WRITE) OR VRING_DESC_F_NEXT, d_next = 2\<rparr>,
       2 := \<lparr>d_addr = D_status 0, d_len = 1, d_flags = VRING_DESC_F_WRITE, d_next = 0\<rparr>),
     v_status := (v_status q)(0 := 0xff),
     v_avail := (v_avail q)(unat (v_avail_idx q) mod NUM := 0),
     v_avail_idx := v_avail_idx q + 1\<rparr>"

definition ans_queue :: "virtq \<Rightarrow> virtq" where
  "ans_queue q = q\<lparr>v_used := (v_used q)(unat (v_used_idx q) mod NUM := 0), v_used_idx := v_used_idx q + 1,
     v_status := (v_status q)(0 := 0)\<rparr>"

lemma virtio_submit_eq:
  "virtio_submit b wr [0, 1, 2] s = s\<lparr>vq := req_queue b wr (b_blockno (bufs s b)) (vq s),
     bufs := (bufs s)(b := (bufs s b)\<lparr>b_disk := True\<rparr>), vinfo_b := (vinfo_b s)(0 := Some b),
     mmio_log := mmio_log s @ [(VIRTIO_MMIO_QUEUE_NOTIFY, 0)]\<rparr>"
  by (simp add: virtio_submit_def Let_def set_desc_def upd_buf_def mmio_write_def req_queue_def numeral_2_eq_2)

lemma run_device_req:
  assumes "virtio_spec (vdev s)" and "vq s = req_queue b wr (b_blockno (bufs s b)) q" and "v_avail_idx q = v_used_idx q"
    and "unat (b_blockno (bufs s b)) = k" and "k < 2 ^ 31"
  shows "run_device wr b s = s\<lparr>vq := ans_queue (vq s),
    bufs := if wr then bufs s else (bufs s)(b := (bufs s b)\<lparr>b_data := disk_img s k\<rparr>),
    disk_img := if wr then (disk_img s)(k := b_data (bufs s b)) else disk_img s,
    disk_hist := disk_hist s @ (if wr then [(k, b_data (bufs s b))] else [])\<rparr>"
proof -
  let ?n = "b_blockno (bufs s b)"
  have "?n = of_nat k" unfolding assms(4) [symmetric] by simp
  then have "?n * 2 = of_nat (2 * k)" by simp
  moreover have "unat (of_nat (2 * k) :: uint) = 2 * k" using assms(5) by (intro unat_of_nat_32) simp
  ultimately have sector: "(ucast (?n * 2) :: uint64) = of_nat (2 * k)" by (simp only: ucast_32_64_of_nat)
  have "vdev s (vq s) (\<lambda>i. b_data (bufs s i)) (disk_img s) =
     ((vq s)\<lparr>v_used := (v_used (vq s))(unat (v_used_idx (vq s)) mod NUM := of_nat 0), v_used_idx := v_used_idx (vq s) + 1,
          v_status := (v_status (vq s))(0 := 0)\<rparr>,
        if wr then \<lambda>i. b_data (bufs s i) else (\<lambda>i. b_data (bufs s i))(b := disk_img s k),
        if wr then (disk_img s)(k := b_data (bufs s b)) else disk_img s)"
    using assms(1) [unfolded virtio_spec_def, rule_format, of "vq s" 0 1 2 b wr k "\<lambda>i. b_data (bufs s i)" "disk_img s"]
      assms(2,3,5) sector
    by (simp add: req_queue_def NUM_def)
  then show ?thesis
    using assms(4) by (auto simp: run_device_def ans_queue_def fun_eq_iff)
qed

text \<open>Freeing the chain of descriptors 0, 1, 2\<close>

lemma free_chain_012:
  assumes "deep s" and "\<not> vfree s 0" "\<not> vfree s 1" "\<not> vfree s 2"
    and "d_flags (v_desc (vq s) 0) AND VRING_DESC_F_NEXT \<noteq> 0" "d_next (v_desc (vq s) 0) = 1"
    and "d_flags (v_desc (vq s) 1) AND VRING_DESC_F_NEXT \<noteq> 0" "d_next (v_desc (vq s) 1) = 2"
    and "d_flags (v_desc (vq s) 2) AND VRING_DESC_F_NEXT = 0"
  shows "free_chain (NUM + 1) 0 s =
     Ret () (s\<lparr>vq := (vq s)\<lparr>v_desc := (v_desc (vq s))(0 := null_desc, 1 := null_desc, 2 := null_desc)\<rparr>,
       vfree := (vfree s)(0 := True, 1 := True, 2 := True),
       proc := wake_table Chan_disk_free (cur s) [0..<NPROC] (proc s)\<rparr>)"
proof -
  let ?P = "wake_table Chan_disk_free (cur s) [0..<NPROC] (proc s)"
  let ?s1 = "s\<lparr>vq := (vq s)\<lparr>v_desc := (v_desc (vq s))(0 := null_desc)\<rparr>, vfree := (vfree s)(0 := True), proc := ?P\<rparr>"
  let ?s2 = "?s1\<lparr>vq := (vq s)\<lparr>v_desc := (v_desc (vq s))(0 := null_desc, 1 := null_desc)\<rparr>,
    vfree := (vfree s)(0 := True, 1 := True), proc := ?P\<rparr>"
  have d: "deep ?s1" "deep ?s2" using assms(1) by (simp_all add: deep_def)
  have n: "0 < NUM" "1 < NUM" "2 < NUM" by (simp_all add: NUM_def)
  have "free_chain (NUM + 1) 0 s = free_chain (Suc (Suc 6)) 1 ?s1"
    using free_chain_next [OF assms(1) n(1) assms(2,5), of 8] assms(6) by (simp add: NUM_def del: free_chain.simps)
  also have "\<dots> = free_chain (Suc 6) 2 ?s2"
    using free_chain_next [OF d(1) n(2), of "Suc 6"] assms(3,7,8) by (simp del: free_chain.simps)
  also have "\<dots> = Ret () (s\<lparr>vq := (vq s)\<lparr>v_desc := (v_desc (vq s))(0 := null_desc, 1 := null_desc, 2 := null_desc)\<rparr>,
       vfree := (vfree s)(0 := True, 1 := True, 2 := True), proc := ?P\<rparr>)"
    using free_chain_last [OF d(2) n(3), of 6] assms(4,9) by (simp del: free_chain.simps)
  finally show ?thesis .
qed

lemma virtio_disk_rw_eq:
  assumes "calm s" and "vdisk_ok s" and "unat (b_blockno (bufs s b)) = k" and "k < 2 ^ 31" and "\<not> b_disk (bufs s b)"
  shows "\<exists>t. virtio_disk_rw b wr s = Ret () t \<and> vdisk_ok t \<and> calm t \<and> woken_procs (cur s) (proc s) (proc t)
    \<and> t = settle s\<lparr>proc := proc t, vq := vq t, vfree := vfree t, vused_idx := vused_idx t, vinfo_b := vinfo_b t, mmio_log := mmio_log t,
        bufs := if wr then bufs s else (bufs s)(b := (bufs s b)\<lparr>b_data := disk_img s k\<rparr>),
        disk_img := if wr then (disk_img s)(k := b_data (bufs s b)) else disk_img s,
        disk_hist := disk_hist s @ (if wr then [(k, b_data (bufs s b))] else [])\<rparr>"
proof -
  note m = calmD [OF assms(1)]
  have v: "virtio_spec (vdev s)" "\<forall>i<NUM. vfree s i" "v_avail_idx (vq s) = v_used_idx (vq s)" "vused_idx s = v_used_idx (vq s)"
    using assms(2) by (simp_all add: vdisk_ok_def)
  define F where "F = (vfree s)(0 := False, 1 := False, 2 := False)"
  define Q where "Q = req_queue b wr (b_blockno (bufs s b)) (vq s)"
  define I where "I = (vinfo_b s)(0 := Some b)"
  define M where "M = mmio_log s @ [(VIRTIO_MMIO_QUEUE_NOTIFY, 0)]"
  define B where "B = (bufs s)(b := (bufs s b)\<lparr>b_disk := True\<rparr>)"
  define B2 where "B2 = (if wr then B else B(b := (B b)\<lparr>b_data := disk_img s k\<rparr>))"
  define img where "img = (if wr then (disk_img s)(k := b_data (bufs s b)) else disk_img s)"
  define hist where "hist = disk_hist s @ (if wr then [(k, b_data (bufs s b))] else [])"
  let ?L = "in_lock Vdisk_lock"
  let ?s3 = "settle s\<lparr>vfree := F, vq := Q, bufs := B, vinfo_b := I, mmio_log := M\<rparr>"
  let ?s4 = "settle s\<lparr>vfree := F, vq := ans_queue Q, bufs := B2, vinfo_b := I, mmio_log := M, disk_img := img, disk_hist := hist\<rparr>"
  define B5 where "B5 = B2(b := (B2 b)\<lparr>b_disk := False\<rparr>)"
  define P5 where "P5 = wake_table (Chan_buf b) (cur s) [0..<NPROC] (proc s)"
  define M5 where "M5 = M @ [(VIRTIO_MMIO_INTERRUPT_ACK, mmio s VIRTIO_MMIO_INTERRUPT_STATUS AND 3)]"
  let ?s5 = "settle s\<lparr>vfree := F, vq := ans_queue Q, bufs := B5, vinfo_b := I, mmio_log := M5, disk_img := img, disk_hist := hist,
    proc := P5, vused_idx := vused_idx s + 1\<rparr>"
  have submit: "virtio_submit b wr [0, 1, 2] (?L s\<lparr>vfree := F\<rparr>) = ?L s\<lparr>vfree := F, vq := Q, bufs := B, vinfo_b := I, mmio_log := M\<rparr>"
    unfolding virtio_submit_eq by (simp add: Q_def B_def I_def M_def)
  have rel: "release Vdisk_lock (?L s\<lparr>vfree := F, vq := Q, bufs := B, vinfo_b := I, mmio_log := M\<rparr>) = Ret () ?s3"
    using m by (simp add: lock_simps)
  have bn: "b_blockno (B b) = b_blockno (bufs s b)" "b_data (B b) = b_data (bufs s b)" by (simp_all add: B_def)
  have dev: "run_device wr b ?s3 = ?s4"
    using run_device_req [of ?s3 b wr "vq s" k] v assms(3,4) bn by (simp add: Q_def B2_def img_def hist_def)
  have "calm ?s4" using assms(1) by (simp add: calm_def lock_simps)
  moreover have "v_used_idx (vq ?s4) = vused_idx ?s4 + 1" "v_used (vq ?s4) (unat (vused_idx ?s4) mod NUM) = of_nat 0"
    "v_status (vq ?s4) 0 = 0" "vinfo_b ?s4 0 = Some b"
    using v by (simp_all add: ans_queue_def Q_def req_queue_def I_def)
  ultimately have intr: "virtio_disk_intr ?s4 = Ret () ?s5"
    using virtio_intr_one [of ?s4 0 b] by (simp add: NUM_def B5_def P5_def M5_def lock_simps)
  have calm5: "calm ?s5" using assms(1) by (simp add: calm_def lock_simps)
  have nd: "\<not> b_disk (B5 b)" by (simp add: B5_def)
  have wait: "disk_wait wr b (?L s\<lparr>vfree := F, vq := Q, bufs := B, vinfo_b := I, mmio_log := M\<rparr>) = Ret () (?L ?s5)"
    using rel dev intr calm_acquire [OF calm5, of Vdisk_lock] nd by (simp add: disk_wait_def B_def)
  let ?s6 = "?L ?s5\<lparr>vinfo_b := I(0 := None)\<rparr>"
  define Q7 where "Q7 = (ans_queue Q)\<lparr>v_desc := (v_desc (ans_queue Q))(0 := null_desc, 1 := null_desc, 2 := null_desc)\<rparr>"
  define F7 where "F7 = F(0 := True, 1 := True, 2 := True)"
  define P7 where "P7 = wake_table Chan_disk_free (cur s) [0..<NPROC] P5"
  have "deep (?L ?s5)" using calm5 by (intro deep_in_lock) auto
  then have d6: "deep ?s6" by (simp add: deep_def)
  have chain: "free_chain (NUM + 1) 0 ?s6 = Ret () (?s6\<lparr>vq := Q7, vfree := F7, proc := P7\<rparr>)"
    using free_chain_012 [OF d6]
    by (simp add: F_def Q7_def F7_def P7_def Q_def ans_queue_def req_queue_def VRING_DESC_F_NEXT_def VRING_DESC_F_WRITE_def lock_simps)
  let ?t = "settle s\<lparr>vfree := F7, vq := Q7, bufs := B5, vinfo_b := I(0 := None), mmio_log := M5, disk_img := img, disk_hist := hist,
    proc := P7, vused_idx := vused_idx s + 1\<rparr>"
  have "release Vdisk_lock (?s6\<lparr>vq := Q7, vfree := F7, proc := P7\<rparr>) = Ret () ?t"
    using m by (simp add: lock_simps)
  moreover have "alloc3_desc (?L s) = Ret (Some [0, 1, 2]) (?L s\<lparr>vfree := F\<rparr>)"
    using alloc3_all_free [of "?L s"] v(2) by (simp add: F_def)
  ultimately have run: "virtio_disk_rw b wr s = Ret () ?t"
    using submit wait chain by (simp add: virtio_disk_rw_def calm_acquire [OF assms(1)] del: free_chain.simps)
  have "B5 = (if wr then bufs s else (bufs s)(b := (bufs s b)\<lparr>b_data := disk_img s k\<rparr>))"
    using assms(5) by (auto simp: B5_def B2_def B_def fun_eq_iff)
  moreover have "vdisk_ok ?t"
    using v by (auto simp: vdisk_ok_def F7_def F_def Q7_def ans_queue_def Q_def req_queue_def)
  moreover have "calm ?t" using assms(1) by (simp add: calm_def lock_simps)
  moreover have "woken_procs (cur s) (proc s) P7"
    unfolding P7_def P5_def by (rule woken_procs_trans [OF woken_procs_wake woken_procs_wake])
  ultimately show ?thesis using run by (intro exI [of _ ?t]) (simp add: img_def hist_def)
qed


text \<open>
  The available ring starts 128 bytes behind the descriptors in \<open>disk.pages\<close> and lies before
  the used ring.
\<close>

lemma virtio_layout: "avail_offset = 0x80 \<and> avail_offset + 4 + 2 * NUM \<le> used_offset"
  by (simp add: avail_offset_def used_offset_def NUM_def)

section \<open>A disk\<close>

definition demo_device :: device where
  "demo_device q data img =
     (let h = unat (v_avail q (unat (v_used_idx q) mod NUM));
          d = v_desc q (unat (d_next (v_desc q h)));
          k = unat (r_sector (v_ops q h)) div 2;
          q' = q\<lparr>v_used := (v_used q)(unat (v_used_idx q) mod NUM := of_nat h), v_used_idx := v_used_idx q + 1,
                 v_status := (v_status q)(h := 0)\<rparr>
      in case d_addr d of
           D_data b \<Rightarrow> if r_type (v_ops q h) = VIRTIO_BLK_T_OUT then (q', data, img(k := data b)) else (q', data(b := img k), img)
         | _ \<Rightarrow> (q', data, img))"

lemma demo_device_spec: "virtio_spec demo_device"
proof -
  have h: "unat (of_nat i :: ushort) = i" if "i < NUM" for i using that by (simp add: unat_of_nat NUM_def)
  have k: "unat (of_nat (2 * k) :: uint64) div 2 = k" if "k < 2 ^ 31" for k :: nat
  proof -
    have "unat (of_nat (2 * k) :: uint64) = 2 * k" using that by (intro unat_of_nat_64) simp
    then show ?thesis by simp
  qed
  show ?thesis unfolding virtio_spec_def
  proof (intro allI impI)
    fix q :: virtq and data img i0 i1 i2 b k wr
    assume a: "v_avail q (unat (v_used_idx q) mod NUM) = of_nat i0" "i0 < NUM" "i1 < NUM"
      "v_desc q i0 = \<lparr>d_addr = D_op i0, d_len = 16, d_flags = VRING_DESC_F_NEXT, d_next = of_nat i1\<rparr>"
      "v_desc q i1 = \<lparr>d_addr = D_data b, d_len = of_nat BSIZE,
        d_flags = (if wr then 0 else VRING_DESC_F_WRITE) OR VRING_DESC_F_NEXT, d_next = of_nat i2\<rparr>"
      "v_ops q i0 = \<lparr>r_type = if wr then VIRTIO_BLK_T_OUT else VIRTIO_BLK_T_IN, r_reserved = 0, r_sector = of_nat (2 * k)\<rparr>"
      "k < 2 ^ 31"
    have k': "unat (r_sector (v_ops q i0)) div 2 = k" using k [OF a(7)] a(6) by simp
    show "demo_device q data img =
       (q\<lparr>v_used := (v_used q)(unat (v_used_idx q) mod NUM := of_nat i0), v_used_idx := v_used_idx q + 1,
          v_status := (v_status q)(i0 := 0)\<rparr>, if wr then data else data(b := img k), if wr then img(k := data b) else img)"
      using a(1-6) h k' by (simp add: demo_device_def Let_def VIRTIO_BLK_T_IN_def VIRTIO_BLK_T_OUT_def)
  qed
qed

definition free_buf :: buf where
  "free_buf = \<lparr>b_valid = False, b_disk = False, b_dev = 0, b_blockno = 0, b_refcnt = 0, b_prev = 0, b_next = 0, b_data = \<lambda>_. 0\<rparr>"

definition demo_disk :: disk_state where
  "demo_disk = cons_state.extend demo_console
     (disk_state.fields ((\<lambda>_. free_buf)(3 := free_buf\<lparr>b_blockno := 7, b_data := \<lambda>_. 42\<rparr>))
       \<lparr>v_desc = \<lambda>_. null_desc, v_avail = \<lambda>_. 0, v_avail_idx = 0xFFFF, v_used = \<lambda>_. 0, v_used_idx = 0xFFFF,
         v_ops = \<lambda>_. \<lparr>r_type = 0, r_reserved = 0, r_sector = 0\<rparr>, v_status = \<lambda>_. 0\<rparr>
       (\<lambda>_. True) 0xFFFF (\<lambda>_. None) 0x80010000 (\<lambda>_. 0) [] demo_device (\<lambda>k _. of_nat k) [])"

lemma demo_disk_fields [simp]:
  "hart demo_disk = hart demo_console" "sie demo_disk = sie demo_console" "cpus demo_disk = cpus demo_console"
  "locks demo_disk = locks demo_console" "proc demo_disk = proc demo_console" "sleeplocks demo_disk = sleeplocks demo_console"
  "vdev demo_disk = demo_device" "disk_img demo_disk = (\<lambda>k _. of_nat k)"
  "bufs demo_disk = (\<lambda>_. free_buf)(3 := free_buf\<lparr>b_blockno := 7, b_data := \<lambda>_. 42\<rparr>)"
  by (simp_all add: demo_disk_def cons_state.defs disk_state.defs)

lemma demo_disk_ok [simp]: "calm demo_disk" "vdisk_ok demo_disk"
proof -
  show "calm demo_disk" using demo_console_simps(1) by (simp add: calm_def)
  have "vfree demo_disk = (\<lambda>_. True)" "v_avail_idx (vq demo_disk) = 0xFFFF" "v_used_idx (vq demo_disk) = 0xFFFF" "vused_idx demo_disk = 0xFFFF"
    by (simp_all add: demo_disk_def cons_state.defs disk_state.defs)
  then show "vdisk_ok demo_disk" by (simp add: vdisk_ok_def demo_device_spec)
qed


end
