(* ===== verification/Bio.thy ===== *)
theory Bio
  imports Virtio
begin

text \<open>
  The buffer cache, \<open>kernel/bio.c\<close>. \<open>bcache.head\<close> is the buffer with index \<open>NBUF\<close>; the
  \<open>prev\<close> and \<open>next\<close> pointers are indices. The two searches of \<open>bget\<close> follow the
  pointers; their fuel is the number of buffers plus one, which the invariant that the
  pointers form one cycle shows to be enough.
\<close>

section \<open>Operations\<close>

definition NBUF :: nat where "NBUF = 30"

definition binit_one :: "nat \<Rightarrow> 'a disk_state_scheme \<Rightarrow> 'a disk_state_scheme" where
  "binit_one b s =
     (let s = upd_buf b (\<lambda>x. x\<lparr>b_next := b_next (bufs s NBUF)\<rparr>) s;
          s = upd_buf b (\<lambda>x. x\<lparr>b_prev := NBUF\<rparr>) s;
          s = initsleeplock (BufLock b) ''buffer'' s;
          s = upd_buf (b_next (bufs s NBUF)) (\<lambda>x. x\<lparr>b_prev := b\<rparr>) s
      in upd_buf NBUF (\<lambda>h. h\<lparr>b_next := b\<rparr>) s)"

definition binit :: "'a disk_state_scheme \<Rightarrow> 'a disk_state_scheme" where
  "binit s =
     (let s = initlock Bcache_lock ''bcache'' s;
          s = upd_buf NBUF (\<lambda>h. h\<lparr>b_prev := NBUF, b_next := NBUF\<rparr>) s
      in fold binit_one [0..<NBUF] s)"

primrec bget_find :: "nat \<Rightarrow> uint \<Rightarrow> uint \<Rightarrow> nat \<Rightarrow> 'a disk_state_scheme \<Rightarrow> ('a disk_state_scheme, nat option) res" where
  "bget_find 0 dev blockno b s = OutOfFuel"
| "bget_find (Suc n) dev blockno b s =
     (if b = NBUF then Ret None s
      else if b_dev (bufs s b) = dev \<and> b_blockno (bufs s b) = blockno then Ret (Some b) s
      else bget_find n dev blockno (b_next (bufs s b)) s)"

primrec bget_lru :: "nat \<Rightarrow> nat \<Rightarrow> 'a disk_state_scheme \<Rightarrow> ('a disk_state_scheme, nat option) res" where
  "bget_lru 0 b s = OutOfFuel"
| "bget_lru (Suc n) b s =
     (if b = NBUF then Ret None s
      else if b_refcnt (bufs s b) = 0 then Ret (Some b) s
      else bget_lru n (b_prev (bufs s b)) s)"

definition bget :: "uint \<Rightarrow> uint \<Rightarrow> 'a disk_state_scheme \<Rightarrow> ('a disk_state_scheme, nat) res" where
  "bget dev blockno s =
     res_bind (acquire Bcache_lock s) (\<lambda>_ s.
     res_bind (bget_find (NBUF + 1) dev blockno (b_next (bufs s NBUF)) s) (\<lambda>r s.
     case r of
       Some b \<Rightarrow>
         let s = upd_buf b (\<lambda>x. x\<lparr>b_refcnt := b_refcnt x + 1\<rparr>) s in
         res_bind (release Bcache_lock s) (\<lambda>_ s.
         res_bind (acquiresleep (BufLock b) s) (\<lambda>_ s. Ret b s))
     | None \<Rightarrow>
         res_bind (bget_lru (NBUF + 1) (b_prev (bufs s NBUF)) s) (\<lambda>r s.
         case r of
           Some b \<Rightarrow>
             let s = upd_buf b (\<lambda>x. x\<lparr>b_dev := dev, b_blockno := blockno, b_valid := False, b_refcnt := 1\<rparr>) s in
             res_bind (release Bcache_lock s) (\<lambda>_ s.
             res_bind (acquiresleep (BufLock b) s) (\<lambda>_ s. Ret b s))
         | None \<Rightarrow> Panic ''bget: no buffers'')))"

definition bread :: "uint \<Rightarrow> uint \<Rightarrow> 'a disk_state_scheme \<Rightarrow> ('a disk_state_scheme, nat) res" where
  "bread dev blockno s =
     res_bind (bget dev blockno s) (\<lambda>b s.
     if \<not> b_valid (bufs s b) then
       res_bind (virtio_disk_rw b False s) (\<lambda>_ s.
       Ret b (upd_buf b (\<lambda>x. x\<lparr>b_valid := True\<rparr>) s))
     else Ret b s)"

definition bwrite :: "nat \<Rightarrow> 'a disk_state_scheme \<Rightarrow> ('a disk_state_scheme, unit) res" where
  "bwrite b s =
     res_bind (holdingsleep (BufLock b) s) (\<lambda>h s.
     if \<not> h then Panic ''bwrite'' else virtio_disk_rw b True s)"

text \<open>The list manipulation of \<open>brelse\<close>, statement by statement\<close>

definition to_front :: "nat \<Rightarrow> 'a disk_state_scheme \<Rightarrow> 'a disk_state_scheme" where
  "to_front b s =
     (let s = upd_buf (b_next (bufs s b)) (\<lambda>x. x\<lparr>b_prev := b_prev (bufs s b)\<rparr>) s;
          s = upd_buf (b_prev (bufs s b)) (\<lambda>x. x\<lparr>b_next := b_next (bufs s b)\<rparr>) s;
          s = upd_buf b (\<lambda>x. x\<lparr>b_next := b_next (bufs s NBUF)\<rparr>) s;
          s = upd_buf b (\<lambda>x. x\<lparr>b_prev := NBUF\<rparr>) s;
          s = upd_buf (b_next (bufs s NBUF)) (\<lambda>x. x\<lparr>b_prev := b\<rparr>) s
      in upd_buf NBUF (\<lambda>x. x\<lparr>b_next := b\<rparr>) s)"

definition brelse :: "nat \<Rightarrow> 'a disk_state_scheme \<Rightarrow> ('a disk_state_scheme, unit) res" where
  "brelse b s =
     res_bind (holdingsleep (BufLock b) s) (\<lambda>h s.
     if \<not> h then Panic ''brelse''
     else
       res_bind (releasesleep (BufLock b) s) (\<lambda>_ s.
       res_bind (acquire Bcache_lock s) (\<lambda>_ s.
       let s = upd_buf b (\<lambda>x. x\<lparr>b_refcnt := b_refcnt x - 1\<rparr>) s;
           s = (if b_refcnt (bufs s b) = 0 then to_front b s else s)
       in release Bcache_lock s)))"

definition bpin :: "nat \<Rightarrow> 'a disk_state_scheme \<Rightarrow> ('a disk_state_scheme, unit) res" where
  "bpin b s =
     res_bind (acquire Bcache_lock s) (\<lambda>_ s.
     release Bcache_lock (upd_buf b (\<lambda>x. x\<lparr>b_refcnt := b_refcnt x + 1\<rparr>) s))"

definition bunpin :: "nat \<Rightarrow> 'a disk_state_scheme \<Rightarrow> ('a disk_state_scheme, unit) res" where
  "bunpin b s =
     res_bind (acquire Bcache_lock s) (\<lambda>_ s.
     release Bcache_lock (upd_buf b (\<lambda>x. x\<lparr>b_refcnt := b_refcnt x - 1\<rparr>) s))"

section \<open>The list of buffers\<close>

fun linked :: "(nat \<Rightarrow> nat) \<Rightarrow> (nat \<Rightarrow> nat) \<Rightarrow> nat list \<Rightarrow> bool" where
  "linked nx pv (a # b # l) \<longleftrightarrow> nx a = b \<and> pv b = a \<and> linked nx pv (b # l)"
| "linked nx pv _ \<longleftrightarrow> True"

lemma linked_append: "linked nx pv (xs @ a # ys) \<longleftrightarrow> linked nx pv (xs @ [a]) \<and> linked nx pv (a # ys)"
proof (induction xs)
  case (Cons x xs)
  then show ?case by (cases xs) auto
qed simp

lemma linked_cong:
  "(\<forall>a\<in>set (butlast l). nx' a = nx a) \<Longrightarrow> (\<forall>a\<in>set (tl l). pv' a = pv a) \<Longrightarrow> linked nx' pv' l = linked nx pv l"
proof (induction nx pv l rule: linked.induct)
  case (1 nx pv a b l)
  then show ?case by (cases l) auto
qed auto

text \<open>Taking an element out of a cycle and putting it in behind the head\<close>

lemma unlink:
  assumes l: "linked nx pv (h # us @ b # vs @ [h])" and d: "distinct (h # us @ b # vs)"
  shows "linked (nx(pv b := nx b)) (pv(nx b := pv b)) (h # us @ vs @ [h])"
proof -
  define p where "p = last (h # us)"
  define n where "n = hd (vs @ [h])"
  have hu: "h # us = butlast (h # us) @ [p]" unfolding p_def by (rule append_butlast_last_id [symmetric]) simp
  obtain ws where vs: "vs @ [h] = n # ws" unfolding n_def by (cases "vs @ [h]") auto
  let ?q = "butlast (h # us)"
  have l1: "linked nx pv (?q @ p # b # n # ws)" using l hu vs by (metis append.assoc append_Cons append_Nil)
  then have pn: "nx p = b" "pv b = p" "nx b = n" "pv n = b" and lq: "linked nx pv (?q @ [p])" and lw: "linked nx pv (n # ws)"
    using linked_append [of nx pv ?q p "b # n # ws"] by auto
  have p_in: "p \<in> set (h # us)" unfolding p_def by (rule last_in_set) simp
  have n_in: "n \<in> set (vs @ [h])" using vs by simp
  have "linked (nx(p := n)) (pv(n := p)) (?q @ [p])"
  proof (subst linked_cong [of _ _ nx _ pv])
    have "p \<notin> set ?q" using d hu by (metis distinct_append distinct_butlast distinct.simps(2) not_distinct_conv_prefix append.assoc append_Cons)
    then show "\<forall>a\<in>set (butlast (?q @ [p])). (nx(p := n)) a = nx a" by auto
    have "set (tl (?q @ [p])) = set us" using hu by (metis list.sel(3))
    moreover have "n \<notin> set us" using n_in d by auto
    ultimately show "\<forall>a\<in>set (tl (?q @ [p])). (pv(n := p)) a = pv a" by auto
  qed (rule lq)
  moreover have "linked (nx(p := n)) (pv(n := p)) (n # ws)"
  proof (subst linked_cong [of _ _ nx _ pv])
    have "butlast (n # ws) = vs" using vs by (metis butlast_snoc)
    moreover have "p \<notin> set vs" using p_in d by auto
    ultimately show "\<forall>a\<in>set (butlast (n # ws)). (nx(p := n)) a = nx a" by auto
    have "distinct (vs @ [h])" using d by auto
    then have "n \<notin> set ws" using vs by (metis distinct.simps(2))
    then show "\<forall>a\<in>set (tl (n # ws)). (pv(n := p)) a = pv a" by auto
  qed (rule lw)
  ultimately have "linked (nx(p := n)) (pv(n := p)) (?q @ p # n # ws)"
    using linked_append [of _ _ ?q p "n # ws"] by simp
  moreover have "?q @ p # n # ws = h # us @ vs @ [h]" using hu vs by (metis append.assoc append_Cons append_Nil)
  ultimately show ?thesis using pn by simp
qed

lemma link_front:
  assumes l: "linked nx pv (h # ws @ [h])" and d: "b \<notin> set (h # ws)" "h \<notin> set ws" "distinct ws"
  shows "linked (nx(b := nx h, h := b)) (pv(b := h, nx h := b)) (h # b # ws @ [h])"
proof -
  obtain f r where fr: "ws @ [h] = f # r" by (cases "ws @ [h]") auto
  have f: "nx h = f" "linked nx pv (f # r)" using l fr by auto
  have "f \<noteq> b" using fr d by (cases ws) auto
  have "linked (nx(b := f, h := b)) (pv(b := h, f := b)) (f # r)"
  proof (subst linked_cong [of _ _ nx _ pv])
    have "butlast (f # r) = ws" using fr by (metis butlast_snoc)
    then show "\<forall>a\<in>set (butlast (f # r)). (nx(b := f, h := b)) a = nx a" using d by auto
    have "distinct (ws @ [h])" using d by auto
    then have "f \<notin> set r" using fr by (metis distinct.simps(2))
    moreover have "b \<notin> set r" using fr d by (metis Un_iff list.set_intros(2) set_append set_simps(1,2) empty_iff insert_iff)
    ultimately show "\<forall>a\<in>set (tl (f # r)). (pv(b := h, f := b)) a = pv a" by auto
  qed (rule f)
  then show ?thesis using f(1) fr \<open>f \<noteq> b\<close> d by auto
qed

definition lru :: "(nat \<Rightarrow> buf) \<Rightarrow> nat list \<Rightarrow> bool" where
  "lru B xs \<longleftrightarrow> distinct xs \<and> set xs = {0..<NBUF} \<and>
     linked (\<lambda>i. b_next (B i)) (\<lambda>i. b_prev (B i)) (NBUF # xs @ [NBUF])"

lemma bget_find_eq:
  "linked (\<lambda>i. b_next (bufs s i)) pv (a # ys @ [NBUF]) \<Longrightarrow> NBUF \<notin> set ys \<Longrightarrow> length ys < n \<Longrightarrow>
   bget_find n dev blockno (b_next (bufs s a)) s =
     Ret (find (\<lambda>b. b_dev (bufs s b) = dev \<and> b_blockno (bufs s b) = blockno) ys) s"
proof (induction n arbitrary: a ys)
  case (Suc n)
  then show ?case by (cases ys) auto
qed simp

lemma bget_lru_eq:
  "linked nx (\<lambda>i. b_prev (bufs s i)) (NBUF # ys @ [a]) \<Longrightarrow> NBUF \<notin> set ys \<Longrightarrow> length ys < n \<Longrightarrow>
   bget_lru n (b_prev (bufs s a)) s = Ret (find (\<lambda>b. b_refcnt (bufs s b) = 0) (rev ys)) s"
proof (induction n arbitrary: a ys)
  case (Suc n)
  show ?case
  proof (cases ys rule: rev_cases)
    case Nil
    then show ?thesis using Suc.prems by simp
  next
    case (snoc zs z)
    then have l: "linked nx (\<lambda>i. b_prev (bufs s i)) ((NBUF # zs) @ z # [a])" using Suc.prems(1) by simp
    from linked_append [THEN iffD1, OF l]
    have "b_prev (bufs s a) = z" "linked nx (\<lambda>i. b_prev (bufs s i)) (NBUF # zs @ [z])" by auto
    then show ?thesis using Suc.IH [of zs z] Suc.prems snoc by simp
  qed
qed simp

text \<open>The buffers with other pointers\<close>

definition relink :: "(nat \<Rightarrow> buf) \<Rightarrow> (nat \<Rightarrow> nat) \<Rightarrow> (nat \<Rightarrow> nat) \<Rightarrow> nat \<Rightarrow> buf" where
  "relink B nx pv = (\<lambda>i. (B i)\<lparr>b_next := nx i, b_prev := pv i\<rparr>)"

lemma relink_simps [simp]:
  "b_next (relink B nx pv i) = nx i" "b_prev (relink B nx pv i) = pv i"
  "upd_buf j (\<lambda>x. x\<lparr>b_next := v\<rparr>) (s\<lparr>bufs := relink B nx pv\<rparr>) = s\<lparr>bufs := relink B (nx(j := v)) pv\<rparr>"
  "upd_buf j (\<lambda>x. x\<lparr>b_prev := v\<rparr>) (s\<lparr>bufs := relink B nx pv\<rparr>) = s\<lparr>bufs := relink B nx (pv(j := v))\<rparr>"
proof -
  have "(relink B nx pv)(j := (relink B nx pv j)\<lparr>b_next := v\<rparr>) = relink B (nx(j := v)) pv"
    "(relink B nx pv)(j := (relink B nx pv j)\<lparr>b_prev := v\<rparr>) = relink B nx (pv(j := v))"
    by (simp_all add: relink_def fun_eq_iff)
  then show "upd_buf j (\<lambda>x. x\<lparr>b_next := v\<rparr>) (s\<lparr>bufs := relink B nx pv\<rparr>) = s\<lparr>bufs := relink B (nx(j := v)) pv\<rparr>"
    "upd_buf j (\<lambda>x. x\<lparr>b_prev := v\<rparr>) (s\<lparr>bufs := relink B nx pv\<rparr>) = s\<lparr>bufs := relink B nx (pv(j := v))\<rparr>"
    by (simp_all add: upd_buf_def)
qed (simp_all add: relink_def)

lemma relink_self: "s\<lparr>bufs := relink (bufs s) (\<lambda>i. b_next (bufs s i)) (\<lambda>i. b_prev (bufs s i))\<rparr> = s"
  by (simp add: relink_def)

lemma to_front_eq:
  assumes "b \<noteq> NBUF" and "nx b \<noteq> b" and "pv b \<noteq> b"
  shows "to_front b (s\<lparr>bufs := relink B nx pv\<rparr>) =
    (let nx1 = nx(pv b := nx b); pv1 = pv(nx b := pv b)
     in s\<lparr>bufs := relink B (nx1(b := nx1 NBUF, NBUF := b)) (pv1(b := NBUF, nx1 NBUF := b))\<rparr>)"
  using assms by (simp add: to_front_def)

lemma lru_to_front:
  fixes s :: "'a disk_state_scheme"
  assumes "lru (bufs s) xs" and "b < NBUF"
  shows "\<exists>B ys. to_front b s = s\<lparr>bufs := B\<rparr> \<and> lru B ys
    \<and> (\<forall>i. \<exists>n p. B i = (bufs s i)\<lparr>b_next := n, b_prev := p\<rparr>)"
proof -
  define nx where "nx = (\<lambda>i. b_next (bufs s i))"
  define pv where "pv = (\<lambda>i. b_prev (bufs s i))"
  have l: "linked nx pv (NBUF # xs @ [NBUF])" and d: "distinct xs" and xs: "set xs = {0..<NBUF}"
    using assms(1) by (auto simp: lru_def nx_def pv_def)
  obtain us vs where uv: "xs = us @ b # vs" using assms(2) xs split_list [of b xs] by auto
  have dd: "distinct (NBUF # us @ b # vs)" using d xs uv by (metis atLeastLessThan_iff distinct.simps(2) less_irrefl)
  define nx1 where "nx1 = nx(pv b := nx b)"
  define pv1 where "pv1 = pv(nx b := pv b)"
  have l1: "linked nx1 pv1 (NBUF # (us @ vs) @ [NBUF])"
    using unlink [of nx pv NBUF us b vs] l dd uv by (simp add: nx1_def pv1_def)
  define nx2 where "nx2 = nx1(b := nx1 NBUF, NBUF := b)"
  define pv2 where "pv2 = pv1(b := NBUF, nx1 NBUF := b)"
  have l2: "linked nx2 pv2 (NBUF # b # (us @ vs) @ [NBUF])"
    unfolding nx2_def pv2_def using dd by (intro link_front [OF l1]) auto
  have nb: "nx b \<noteq> b" "pv b \<noteq> b"
  proof -
    have "linked nx pv ((NBUF # us) @ b # (vs @ [NBUF]))" using l uv by simp
    from linked_append [THEN iffD1, OF this]
    have a: "linked nx pv ((NBUF # us) @ [b])" "linked nx pv (b # vs @ [NBUF])" by auto
    show "nx b \<noteq> b" using a(2) dd by (cases vs) auto
    have "linked nx pv (butlast (NBUF # us) @ last (NBUF # us) # [b])"
      using a(1) by (metis append.assoc append_Cons append_Nil append_butlast_last_id list.distinct(1))
    from linked_append [THEN iffD1, OF this] have "pv b = last (NBUF # us)" by simp
    moreover have "last (NBUF # us) \<in> set (NBUF # us)" by (rule last_in_set) simp
    ultimately show "pv b \<noteq> b" using dd by auto
  qed
  have "to_front b (s\<lparr>bufs := relink (bufs s) nx pv\<rparr>) = s\<lparr>bufs := relink (bufs s) nx2 pv2\<rparr>"
    using to_front_eq [of b nx pv "bufs s" s] assms(2) nb by (simp add: nx2_def pv2_def nx1_def pv1_def Let_def)
  then have tf: "to_front b s = s\<lparr>bufs := relink (bufs s) nx2 pv2\<rparr>"
    unfolding nx_def pv_def relink_self .
  have "lru (relink (bufs s) nx2 pv2) (b # us @ vs)"
    using l2 dd uv xs by (auto simp: lru_def)
  moreover have "\<exists>n p. relink (bufs s) nx2 pv2 i = (bufs s i)\<lparr>b_next := n, b_prev := p\<rparr>" for i
    unfolding relink_def by blast
  ultimately show ?thesis using tf by blast
qed

section \<open>Invariant and contents of the cache\<close>

definition ROOTDEV :: uint where "ROOTDEV = 1"

abbreviation slocked :: "nat \<Rightarrow> 'a sleep_state_scheme \<Rightarrow> bool" where
  "slocked b s \<equiv> sl_locked (sleeplocks s (BufLock b))"

abbreviation is_block :: "buf \<Rightarrow> nat \<Rightarrow> bool" where
  "is_block x n \<equiv> b_dev x = ROOTDEV \<and> unat (b_blockno x) = n"

text \<open>
  The pointers form one cycle, a block is in at most one buffer, buffers of the disk are valid,
  a buffer nobody refers to is not locked and agrees with the disk.
\<close>

definition bufs_ok :: "(nat \<Rightarrow> buf) \<Rightarrow> (nat \<Rightarrow> block) \<Rightarrow> (slid \<Rightarrow> sleeplock) \<Rightarrow> bool" where
  "bufs_ok B img L \<longleftrightarrow> (\<exists>xs. lru B xs) \<and> (\<forall>i<NBUF. \<not> b_disk (B i))
     \<and> (\<forall>i<NBUF. \<forall>j<NBUF. \<forall>n. is_block (B i) n \<longrightarrow> is_block (B j) n \<longrightarrow> i = j)
     \<and> (\<forall>i<NBUF. b_dev (B i) = ROOTDEV \<longrightarrow> b_valid (B i))
     \<and> (\<forall>i<NBUF. b_refcnt (B i) = 0 \<longrightarrow> \<not> sl_locked (L (BufLock i))
          \<and> (\<forall>n. is_block (B i) n \<longrightarrow> b_data (B i) = img n))"

definition bio_ok :: "'a disk_state_scheme \<Rightarrow> bool" where
  "bio_ok s \<longleftrightarrow> calm s \<and> vdisk_ok s \<and> bufs_ok (bufs s) (disk_img s) (sleeplocks s)"

definition buf_of :: "(nat \<Rightarrow> buf) \<Rightarrow> nat \<Rightarrow> nat option" where
  "buf_of B n = find (\<lambda>i. is_block (B i) n) [0..<NBUF]"

text \<open>The contents of block \<open>n\<close> that the kernel sees: that of its buffer, if it has one\<close>

definition view :: "'a disk_state_scheme \<Rightarrow> nat \<Rightarrow> block" where
  "view s n = (case buf_of (bufs s) n of Some i \<Rightarrow> b_data (bufs s i) | None \<Rightarrow> disk_img s n)"

lemma find_SomeD: "find P xs = Some b \<Longrightarrow> b \<in> set xs \<and> P b"
  by (induction xs) (auto split: if_splits)

lemma find_unique:
  assumes "i \<in> set xs" and "P i" and "\<And>j. j \<in> set xs \<Longrightarrow> P j \<Longrightarrow> j = i"
  shows "find P xs = Some i"
proof (cases "find P xs")
  case None
  then show ?thesis using assms(1,2) by (simp add: find_None_iff)
next
  case (Some j)
  then have "j \<in> set xs" "P j" by (auto simp: find_Some_iff)
  then show ?thesis using Some assms(3) by simp
qed

lemma buf_of_Some:
  assumes "bufs_ok B img L" and "i < NBUF" and "is_block (B i) n"
  shows "buf_of B n = Some i"
  using assms unfolding buf_of_def by (intro find_unique) (auto simp: bufs_ok_def)

lemma buf_of_SomeD: "buf_of B n = Some i \<Longrightarrow> i < NBUF \<and> is_block (B i) n"
  by (auto simp: buf_of_def find_Some_iff)

lemma buf_of_None: "buf_of B n = None \<longleftrightarrow> (\<forall>i<NBUF. \<not> is_block (B i) n)"
  by (auto simp: buf_of_def find_None_iff)

lemma view_buf: "bufs_ok (bufs s) img L \<Longrightarrow> i < NBUF \<Longrightarrow> is_block (bufs s i) n \<Longrightarrow> view s n = b_data (bufs s i)"
  by (simp add: view_def buf_of_Some)

text \<open>Only the parts of the state that the cache and the disk use have changed.\<close>

definition bio_frame :: "'a disk_state_scheme \<Rightarrow> 'a disk_state_scheme \<Rightarrow> bool" where
  "bio_frame s t \<longleftrightarrow> t = s\<lparr>cpus := cpus t, proc := proc t, sleeplocks := sleeplocks t, bufs := bufs t, vq := vq t,
       vfree := vfree t, vused_idx := vused_idx t, vinfo_b := vinfo_b t, mmio_log := mmio_log t, disk_img := disk_img t,
       disk_hist := disk_hist t\<rparr>
     \<and> woken_procs (cur s) (proc s) (proc t) \<and> c_proc (cpus t (hart s)) = cur s
     \<and> noff (cpus t (hart s)) = noff (cpus s (hart s))"

lemma bio_frame_refl [simp]: "bio_frame s s"
  by (simp add: bio_frame_def)

lemma bio_frame_more:
  assumes "bio_frame s t"
  shows "hart t = hart s" "sie t = sie s" "locks t = locks s" "mem t = mem s" "freelist t = freelist s"
    "disk_state.more t = disk_state.more s" "cur t = cur s" "vdev t = vdev s" "woken_procs (cur s) (proc s) (proc t)"
    "noff (cpus t (hart t)) = noff (cpus s (hart s))"
proof -
  have e: "t = s\<lparr>cpus := cpus t, proc := proc t, sleeplocks := sleeplocks t, bufs := bufs t, vq := vq t,
       vfree := vfree t, vused_idx := vused_idx t, vinfo_b := vinfo_b t, mmio_log := mmio_log t, disk_img := disk_img t,
       disk_hist := disk_hist t\<rparr>" and w: "woken_procs (cur s) (proc s) (proc t)" and c: "c_proc (cpus t (hart s)) = cur s"
    and n: "noff (cpus t (hart s)) = noff (cpus s (hart s))"
    using assms by (auto simp: bio_frame_def)
  show h: "hart t = hart s" and "sie t = sie s" "locks t = locks s" "mem t = mem s" "freelist t = freelist s"
    "disk_state.more t = disk_state.more s" "vdev t = vdev s"
    by (subst e, simp)+
  then show "cur t = cur s" "woken_procs (cur s) (proc s) (proc t)" "noff (cpus t (hart t)) = noff (cpus s (hart s))"
    using c w n by simp_all
qed

lemma bio_frame_trans:
  assumes "bio_frame s t" and "bio_frame t u"
  shows "bio_frame s u"
proof -
  have t: "t = s\<lparr>cpus := cpus t, proc := proc t, sleeplocks := sleeplocks t, bufs := bufs t, vq := vq t,
       vfree := vfree t, vused_idx := vused_idx t, vinfo_b := vinfo_b t, mmio_log := mmio_log t, disk_img := disk_img t,
       disk_hist := disk_hist t\<rparr>" using assms(1) by (simp add: bio_frame_def)
  have u: "u = t\<lparr>cpus := cpus u, proc := proc u, sleeplocks := sleeplocks u, bufs := bufs u, vq := vq u,
       vfree := vfree u, vused_idx := vused_idx u, vinfo_b := vinfo_b u, mmio_log := mmio_log u, disk_img := disk_img u,
       disk_hist := disk_hist u\<rparr>" using assms(2) by (simp add: bio_frame_def)
  have e: "t\<lparr>cpus := a, proc := b, sleeplocks := c, bufs := d, vq := e,
       vfree := f, vused_idx := g, vinfo_b := h, mmio_log := i, disk_img := j, disk_hist := k\<rparr> =
      s\<lparr>cpus := a, proc := b, sleeplocks := c, bufs := d, vq := e,
       vfree := f, vused_idx := g, vinfo_b := h, mmio_log := i, disk_img := j, disk_hist := k\<rparr>" for a b c d e f g h i j k
    by (subst t) simp
  have "u = s\<lparr>cpus := cpus u, proc := proc u, sleeplocks := sleeplocks u, bufs := bufs u, vq := vq u,
       vfree := vfree u, vused_idx := vused_idx u, vinfo_b := vinfo_b u, mmio_log := mmio_log u, disk_img := disk_img u,
       disk_hist := disk_hist u\<rparr>" by (rule trans [OF u e])
  moreover have "woken_procs (cur s) (proc s) (proc u)"
    by (rule woken_procs_trans [OF bio_frame_more(9) [OF assms(1)] bio_frame_more(9) [OF assms(2), unfolded bio_frame_more(7) [OF assms(1)]]])
  moreover have "c_proc (cpus u (hart s)) = cur s" "noff (cpus u (hart s)) = noff (cpus s (hart s))"
    using bio_frame_more(1,7,10) [OF assms(1)] bio_frame_more(1,7,10) [OF assms(2)] by simp_all
  ultimately show ?thesis unfolding bio_frame_def by (intro conjI)
qed

lemma bio_frame_my:
  assumes "bio_frame s t" and "calm s"
  shows "p_pid (my t) = p_pid (my s)"
  using bio_frame_more(7) [OF assms(1)] woken_procs_fields(1) [OF bio_frame_more(9) [OF assms(1)]] by simp

lemma calm_frame: "bio_frame s t \<Longrightarrow> calm s \<Longrightarrow> cpus_ok (hart t) (sie t) (cpus t) \<Longrightarrow> calm t"
  using bio_frame_more [of s t] by (simp add: calm_def)

section \<open>What the operations do\<close>

abbreviation take_sleep :: "slid \<Rightarrow> 32 word \<Rightarrow> (slid \<Rightarrow> sleeplock) \<Rightarrow> slid \<Rightarrow> sleeplock" where
  "take_sleep l pid L \<equiv> L(l := (L l)\<lparr>sl_locked := True, sl_pid := pid\<rparr>)"

lemma lru_finds:
  assumes "bufs_ok B img L" and "lru B xs" and "unat bn = n"
  shows "find (\<lambda>b. b_dev (B b) = ROOTDEV \<and> b_blockno (B b) = bn) xs = buf_of B n"
proof -
  have xs: "set xs = {0..<NBUF}" using assms(2) by (simp add: lru_def)
  have eq: "(b_dev (B b) = ROOTDEV \<and> b_blockno (B b) = bn) = is_block (B b) n" for b
    using assms(3) by (auto simp: word_unat_eq_iff)
  show ?thesis
  proof (cases "buf_of B n")
    case None
    then have "find (\<lambda>b. is_block (B b) n) xs = None" using xs by (auto simp: buf_of_None find_None_iff)
    then show ?thesis using None by (simp only: eq)
  next
    case (Some i)
    then have i: "i < NBUF" "is_block (B i) n" using buf_of_SomeD by blast+
    then show ?thesis using xs assms(1) Some unfolding eq
      by (simp, intro find_unique) (auto simp: bufs_ok_def)
  qed
qed

lemma bget_cached:
  assumes "bio_ok s" and "unat bn = n" and "buf_of (bufs s) n = Some b" and "\<not> slocked b s"
  shows "bget ROOTDEV bn s = Ret b (settle s\<lparr>bufs := (bufs s)(b := (bufs s b)\<lparr>b_refcnt := b_refcnt (bufs s b) + 1\<rparr>),
    sleeplocks := take_sleep (BufLock b) (p_pid (my s)) (sleeplocks s)\<rparr>)"
proof -
  have c: "calm s" and ok: "bufs_ok (bufs s) (disk_img s) (sleeplocks s)" using assms(1) by (simp_all add: bio_ok_def)
  obtain xs where xs: "lru (bufs s) xs" using ok by (auto simp: bufs_ok_def)
  then have l: "linked (\<lambda>i. b_next (bufs s i)) (\<lambda>i. b_prev (bufs s i)) (NBUF # xs @ [NBUF])" "NBUF \<notin> set xs" "length xs = NBUF"
    by (auto simp: lru_def dest!: distinct_card)
  let ?a = "in_lock Bcache_lock s"
  have find: "bget_find (NBUF + 1) ROOTDEV bn (b_next (bufs s NBUF)) ?a = Ret (Some b) ?a"
    using bget_find_eq [of ?a _ NBUF xs "NBUF + 1" ROOTDEV bn] l lru_finds [OF ok xs assms(2)] assms(3) by simp
  let ?B = "(bufs s)(b := (bufs s b)\<lparr>b_refcnt := b_refcnt (bufs s b) + 1\<rparr>)"
  have rel: "release Bcache_lock (?a\<lparr>bufs := ?B\<rparr>) = Ret () (settle s\<lparr>bufs := ?B\<rparr>)" using calmD [OF c] by (simp add: lock_simps)
  have c': "calm (settle s\<lparr>bufs := ?B\<rparr>)" using c by (simp add: calm_def lock_simps)
  show ?thesis
    using find rel acquiresleep_free [OF c', of "BufLock b"] assms(4)
    by (simp add: bget_def calm_acquire [OF c] upd_buf_def lock_simps Let_def del: bget_find.simps bget_lru.simps)
qed

lemma bget_fresh:
  assumes "bio_ok s" and "unat bn = n" and "buf_of (bufs s) n = None" and "\<exists>i<NBUF. b_refcnt (bufs s i) = 0"
  shows "\<exists>b<NBUF. b_refcnt (bufs s b) = 0 \<and> bget ROOTDEV bn s =
    Ret b (settle s\<lparr>bufs := (bufs s)(b := (bufs s b)\<lparr>b_dev := ROOTDEV, b_blockno := bn, b_valid := False, b_refcnt := 1\<rparr>),
    sleeplocks := take_sleep (BufLock b) (p_pid (my s)) (sleeplocks s)\<rparr>)"
proof -
  have c: "calm s" and ok: "bufs_ok (bufs s) (disk_img s) (sleeplocks s)" using assms(1) by (simp_all add: bio_ok_def)
  obtain xs where xs: "lru (bufs s) xs" using ok by (auto simp: bufs_ok_def)
  then have l: "linked (\<lambda>i. b_next (bufs s i)) (\<lambda>i. b_prev (bufs s i)) (NBUF # xs @ [NBUF])" "NBUF \<notin> set xs" "length xs = NBUF"
    and sx: "set xs = {0..<NBUF}" by (auto simp: lru_def dest!: distinct_card)
  let ?a = "in_lock Bcache_lock s"
  have find: "bget_find (NBUF + 1) ROOTDEV bn (b_next (bufs s NBUF)) ?a = Ret None ?a"
    using bget_find_eq [of ?a _ NBUF xs "NBUF + 1" ROOTDEV bn] l lru_finds [OF ok xs assms(2)] assms(3) by simp
  obtain b where b: "List.find (\<lambda>b. b_refcnt (bufs s b) = 0) (rev xs) = Some b"
    using assms(4) sx by (cases "List.find (\<lambda>b. b_refcnt (bufs s b) = 0) (rev xs)") (auto simp: find_None_iff)
  then have "b \<in> set (rev xs)" and ref: "b_refcnt (bufs s b) = 0" using find_SomeD by fast+
  then have bN: "b < NBUF" using sx by simp
  have lru: "bget_lru (NBUF + 1) (b_prev (bufs s NBUF)) ?a = Ret (Some b) ?a"
    using bget_lru_eq [of _ ?a xs NBUF "NBUF + 1"] l b by simp
  let ?B = "(bufs s)(b := (bufs s b)\<lparr>b_dev := ROOTDEV, b_blockno := bn, b_valid := False, b_refcnt := 1\<rparr>)"
  have rel: "release Bcache_lock (?a\<lparr>bufs := ?B\<rparr>) = Ret () (settle s\<lparr>bufs := ?B\<rparr>)" using calmD [OF c] by (simp add: lock_simps)
  have c': "calm (settle s\<lparr>bufs := ?B\<rparr>)" using c by (simp add: calm_def lock_simps)
  have "\<not> slocked b s" using ok bN ref by (simp add: bufs_ok_def)
  then show ?thesis
    using find lru rel bN ref acquiresleep_free [OF c', of "BufLock b"]
    by (intro exI [of _ b]) (simp add: bget_def calm_acquire [OF c] upd_buf_def lock_simps Let_def del: bget_find.simps bget_lru.simps)
qed

text \<open>A change of one buffer that keeps the invariant\<close>

lemma lru_cong:
  assumes "lru B xs" and "\<And>i. b_next (B' i) = b_next (B i)" and "\<And>i. b_prev (B' i) = b_prev (B i)"
  shows "lru B' xs"
  using assms by (simp add: lru_def)

lemma bread_spec:
  assumes "bio_ok s" and "unat bn = n" and "n < 2 ^ 31"
    and "case buf_of (bufs s) n of Some i \<Rightarrow> \<not> slocked i s \<and> b_refcnt (bufs s i) + 1 \<noteq> 0
         | None \<Rightarrow> \<exists>i<NBUF. b_refcnt (bufs s i) = 0"
  shows "\<exists>b t. bread ROOTDEV bn s = Ret b t \<and> bio_ok t \<and> bio_frame s t \<and> b < NBUF
    \<and> is_block (bufs t b) n \<and> b_data (bufs t b) = view s n \<and> view t = view s
    \<and> disk_img t = disk_img s \<and> disk_hist t = disk_hist s \<and> \<not> slocked b s
    \<and> sleeplocks t = take_sleep (BufLock b) (p_pid (my s)) (sleeplocks s)
    \<and> (\<forall>i. i \<noteq> b \<longrightarrow> bufs t i = bufs s i)
    \<and> (case buf_of (bufs s) n of Some i \<Rightarrow> b = i \<and> b_refcnt (bufs t b) = b_refcnt (bufs s b) + 1
       | None \<Rightarrow> b_refcnt (bufs s b) = 0 \<and> b_refcnt (bufs t b) = 1)"
proof (cases "buf_of (bufs s) n")
  case (Some b)
  have c: "calm s" and ok: "bufs_ok (bufs s) (disk_img s) (sleeplocks s)" using assms(1) by (simp_all add: bio_ok_def)
  have b: "b < NBUF" "is_block (bufs s b) n" using Some buf_of_SomeD by blast+
  let ?B = "(bufs s)(b := (bufs s b)\<lparr>b_refcnt := b_refcnt (bufs s b) + 1\<rparr>)"
  let ?t = "settle s\<lparr>bufs := ?B, sleeplocks := take_sleep (BufLock b) (p_pid (my s)) (sleeplocks s)\<rparr>"
  have u: "\<not> slocked b s" "b_refcnt (bufs s b) + 1 \<noteq> 0" using assms(4) Some by simp_all
  have "bread ROOTDEV bn s = Ret b ?t"
    using bget_cached [OF assms(1,2) Some u(1)] ok b by (simp add: bread_def bufs_ok_def)
  moreover have ok': "bufs_ok ?B (disk_img s) (sleeplocks ?t)"
  proof -
    obtain xs where "lru (bufs s) xs" using ok by (auto simp: bufs_ok_def)
    then have "lru ?B xs" by (rule lru_cong) auto
    then have ex: "\<exists>xs. lru ?B xs" ..
    show ?thesis unfolding bufs_ok_def
      using ok [unfolded bufs_ok_def] u(2) ex by (intro conjI) auto
  qed
  moreover have "calm ?t" using c by (simp add: calm_def lock_simps)
  moreover have "buf_of ?B m = buf_of (bufs s) m" for m
    unfolding buf_of_def by (rule arg_cong [where f = "\<lambda>P. find P [0..<NBUF]"]) auto
  then have "view ?t m = view s m" for m by (auto simp: view_def split: option.split)
  then have "view ?t = view s" by blast
  moreover have "b_data (bufs s b) = view s n" using view_buf [OF ok b] by simp
  moreover have "bio_frame s ?t" by (simp add: bio_frame_def lock_simps)
  ultimately show ?thesis using b u assms(1) Some by (intro exI [of _ b] exI [of _ ?t]) (simp add: bio_ok_def vdisk_ok_def)
next
  case None
  have c: "calm s" and v: "vdisk_ok s" and ok: "bufs_ok (bufs s) (disk_img s) (sleeplocks s)" using assms(1) by (simp_all add: bio_ok_def)
  obtain b where b: "b < NBUF" "b_refcnt (bufs s b) = 0" and get: "bget ROOTDEV bn s =
    Ret b (settle s\<lparr>bufs := (bufs s)(b := (bufs s b)\<lparr>b_dev := ROOTDEV, b_blockno := bn, b_valid := False, b_refcnt := 1\<rparr>),
    sleeplocks := take_sleep (BufLock b) (p_pid (my s)) (sleeplocks s)\<rparr>)"
    using bget_fresh [OF assms(1,2) None] assms(4) None by auto
  have free: "\<not> slocked b s" using ok b by (simp add: bufs_ok_def)
  define s1 where "s1 = settle s\<lparr>bufs := (bufs s)(b := (bufs s b)\<lparr>b_dev := ROOTDEV, b_blockno := bn, b_valid := False, b_refcnt := 1\<rparr>),
    sleeplocks := take_sleep (BufLock b) (p_pid (my s)) (sleeplocks s)\<rparr>"
  have "calm s1" "vdisk_ok s1" "unat (b_blockno (bufs s1 b)) = n" "\<not> b_disk (bufs s1 b)"
    using c v assms(2) ok b by (simp_all add: s1_def calm_def lock_simps vdisk_ok_def bufs_ok_def)
  from virtio_disk_rw_eq [OF this(1-3) assms(3) this(4), of False]
  obtain t where t: "virtio_disk_rw b False s1 = Ret () t" "vdisk_ok t" "calm t" "woken_procs (cur s1) (proc s1) (proc t)"
    and e: "t = settle s1\<lparr>proc := proc t, vq := vq t, vfree := vfree t, vused_idx := vused_idx t, vinfo_b := vinfo_b t, mmio_log := mmio_log t,
        bufs := (bufs s1)(b := (bufs s1 b)\<lparr>b_data := disk_img s1 n\<rparr>),
        disk_img := disk_img s1, disk_hist := disk_hist s1\<rparr>" by auto
  let ?B = "(bufs s)(b := (bufs s b)\<lparr>b_dev := ROOTDEV, b_blockno := bn, b_refcnt := 1, b_data := disk_img s n, b_valid := True\<rparr>)"
  have tb: "bufs t = (bufs s1)(b := (bufs s1 b)\<lparr>b_data := disk_img s1 n\<rparr>)" "disk_img t = disk_img s" "disk_hist t = disk_hist s"
    "sleeplocks t = take_sleep (BufLock b) (p_pid (my s)) (sleeplocks s)" "cpus t = settle_cpus (hart s) (sie s) (cpus s)"
    by (subst e, simp add: s1_def lock_simps)+
  let ?t = "upd_buf b (\<lambda>x. x\<lparr>b_valid := True\<rparr>) t"
  have B: "bufs ?t = ?B" unfolding upd_buf_def using tb by (simp add: s1_def)
  have oth: "disk_img ?t = disk_img s" "disk_hist ?t = disk_hist s" "vdisk_ok ?t = vdisk_ok t" "calm ?t = calm t"
    "sleeplocks ?t = take_sleep (BufLock b) (p_pid (my s)) (sleeplocks s)"
    using tb by (simp_all add: upd_buf_def vdisk_ok_def calm_def)
  have run: "bread ROOTDEV bn s = Ret b ?t" using get t(1) by (simp add: bread_def s1_def)
  have ok': "bufs_ok ?B (disk_img s) (take_sleep (BufLock b) (p_pid (my s)) (sleeplocks s))"
  proof -
    obtain xs where "lru (bufs s) xs" using ok by (auto simp: bufs_ok_def)
    then have "lru ?B xs" by (rule lru_cong) auto
    then have ex: "\<exists>xs. lru ?B xs" ..
    have nn: "\<forall>i<NBUF. \<not> is_block (bufs s i) n" using None by (simp add: buf_of_None)
    show ?thesis unfolding bufs_ok_def
      using ok [unfolded bufs_ok_def] ex nn assms(2) by (intro conjI) auto
  qed
  have vw: "view ?t m = view s m" for m
  proof (cases "m = n")
    case True
    have "buf_of ?B n = Some b" using ok' b assms(2) by (intro buf_of_Some) auto
    then show ?thesis using True B None by (simp add: view_def)
  next
    case False
    then show ?thesis
    proof (cases "buf_of (bufs s) m")
      case (Some i)
      then have i: "i < NBUF" "is_block (bufs s i) m" using buf_of_SomeD by blast+
      show ?thesis
      proof (cases "i = b")
        case True
        then have "b_data (bufs s b) = disk_img s m" using ok i b by (simp add: bufs_ok_def)
        moreover have "buf_of ?B m = None"
          using ok i True False assms(2) unfolding buf_of_None bufs_ok_def by auto
        ultimately show ?thesis using Some True B oth by (simp add: view_def)
      next
        case ib: False
        then have "buf_of ?B m = Some i" using ok' i by (intro buf_of_Some) auto
        then show ?thesis using Some ib B by (simp add: view_def)
      qed
    next
      case None
      then have "buf_of ?B m = None" using False assms(2) by (auto simp: buf_of_None)
      then show ?thesis using None B oth by (simp add: view_def)
    qed
  qed
  have "bio_frame s ?t"
  proof -
    have "t = s\<lparr>cpus := cpus t, proc := proc t, sleeplocks := sleeplocks t, bufs := bufs t, vq := vq t,
       vfree := vfree t, vused_idx := vused_idx t, vinfo_b := vinfo_b t, mmio_log := mmio_log t, disk_img := disk_img t,
       disk_hist := disk_hist t\<rparr>"
      by (rule trans [OF e]) (simp add: tb s1_def lock_simps)
    moreover have "woken_procs (cur s) (proc s) (proc t)" using t(4) by (simp add: s1_def lock_simps)
    moreover have "c_proc (cpus t (hart s)) = cur s" "noff (cpus t (hart s)) = noff (cpus s (hart s))"
      using tb(5) by (simp_all add: lock_simps)
    ultimately have "bio_frame s t" unfolding bio_frame_def by (intro conjI)
    moreover have "bio_frame t ?t" by (simp add: bio_frame_def upd_buf_def)
    ultimately show ?thesis by (rule bio_frame_trans)
  qed
  moreover have "bio_ok ?t" using ok' oth B t(2,3) by (simp add: bio_ok_def)
  moreover have "view ?t = view s" using vw by blast
  moreover have "view s n = disk_img s n" using None by (simp add: view_def)
  ultimately show ?thesis
    using run b free B oth None assms(2) by (intro exI [of _ b] exI [of _ ?t]) simp
qed

definition holds :: "nat \<Rightarrow> 'a sleep_state_scheme \<Rightarrow> bool" where
  "holds b s \<longleftrightarrow> slocked b s \<and> sl_pid (sleeplocks s (BufLock b)) = p_pid (my s)"

lemma buf_of_cong: "(\<And>i. i < NBUF \<Longrightarrow> is_block (B' i) n = is_block (B i) n) \<Longrightarrow> buf_of B' n = buf_of B n"
  unfolding buf_of_def by (rule find_cong) auto

lemma view_cong:
  assumes "\<And>i m. i < NBUF \<Longrightarrow> is_block (bufs t i) m = is_block (bufs s i) m" and "\<And>i. i < NBUF \<Longrightarrow> b_data (bufs t i) = b_data (bufs s i)"
    and "disk_img t = disk_img s"
  shows "view t = view s"
proof
  fix m
  have "buf_of (bufs t) m = buf_of (bufs s) m" by (rule buf_of_cong) (rule assms(1))
  then show "view t m = view s m" using assms(2,3) by (auto simp: view_def split: option.split dest!: buf_of_SomeD)
qed

lemma bwrite_spec:
  assumes "bio_ok s" and "b < NBUF" and "holds b s" and "is_block (bufs s b) n" and "n < 2 ^ 31"
  shows "\<exists>t. bwrite b s = Ret () t \<and> bio_ok t \<and> bio_frame s t \<and> bufs t = bufs s \<and> sleeplocks t = sleeplocks s
    \<and> disk_img t = (disk_img s)(n := b_data (bufs s b)) \<and> disk_hist t = disk_hist s @ [(n, b_data (bufs s b))] \<and> view t = view s"
proof -
  have c: "calm s" and v: "vdisk_ok s" and ok: "bufs_ok (bufs s) (disk_img s) (sleeplocks s)" using assms(1) by (simp_all add: bio_ok_def)
  have "calm (settle s)" "vdisk_ok (settle s)" "unat (b_blockno (bufs (settle s) b)) = n" "\<not> b_disk (bufs (settle s) b)"
    using c v ok assms(2,4) by (simp_all add: calm_def lock_simps vdisk_ok_def bufs_ok_def)
  from virtio_disk_rw_eq [OF this(1-3) assms(5) this(4), of True]
  obtain t where t: "virtio_disk_rw b True (settle s) = Ret () t" "vdisk_ok t" "calm t" "woken_procs (cur s) (proc s) (proc t)"
    and e: "t = settle (settle s)\<lparr>proc := proc t, vq := vq t, vfree := vfree t, vused_idx := vused_idx t, vinfo_b := vinfo_b t, mmio_log := mmio_log t,
        bufs := bufs s, disk_img := (disk_img s)(n := b_data (bufs s b)), disk_hist := disk_hist s @ [(n, b_data (bufs s b))]\<rparr>"
    by (auto simp: lock_simps)
  have tb: "bufs t = bufs s" "disk_img t = (disk_img s)(n := b_data (bufs s b))" "disk_hist t = disk_hist s @ [(n, b_data (bufs s b))]"
    "sleeplocks t = sleeplocks s" "cpus t = settle_cpus (hart s) (sie s) (cpus s)"
    by (subst e, simp add: lock_simps)+
  have run: "bwrite b s = Ret () t" using t(1) assms(3) holdingsleep_eq [OF c] by (simp add: bwrite_def holds_def)
  have "b_refcnt (bufs s b) \<noteq> 0" using ok assms(2,3) by (auto simp: bufs_ok_def holds_def)
  moreover have "i = b" if "i < NBUF" "is_block (bufs s i) n" for i
    using ok that assms(2,4) unfolding bufs_ok_def by blast
  ultimately have "bufs_ok (bufs s) (disk_img t) (sleeplocks s)"
    using ok unfolding bufs_ok_def tb(2) by auto
  then have "bio_ok t" using t(2,3) tb by (simp add: bio_ok_def)
  moreover have "view t m = view s m" for m
    using view_buf [OF ok assms(2,4)] buf_of_Some [OF ok assms(2,4)] tb by (auto simp: view_def split: option.split)
  then have "view t = view s" by blast
  moreover have "bio_frame s t"
  proof -
    have "t = s\<lparr>cpus := cpus t, proc := proc t, sleeplocks := sleeplocks t, bufs := bufs t, vq := vq t,
       vfree := vfree t, vused_idx := vused_idx t, vinfo_b := vinfo_b t, mmio_log := mmio_log t, disk_img := disk_img t,
       disk_hist := disk_hist t\<rparr>"
      by (rule trans [OF e]) (simp add: tb lock_simps)
    moreover have "c_proc (cpus t (hart s)) = cur s" "noff (cpus t (hart s)) = noff (cpus s (hart s))"
      using tb(5) by (simp_all add: lock_simps)
    ultimately show ?thesis using t(4) unfolding bio_frame_def by (intro conjI)
  qed
  ultimately show ?thesis using run tb by blast
qed

lemma set_data_spec:
  assumes "bio_ok s" and "b < NBUF" and "slocked b s" and "is_block (bufs s b) n"
  shows "bio_ok (upd_buf b (\<lambda>x. x\<lparr>b_data := d\<rparr>) s) \<and> bio_frame s (upd_buf b (\<lambda>x. x\<lparr>b_data := d\<rparr>) s)
    \<and> view (upd_buf b (\<lambda>x. x\<lparr>b_data := d\<rparr>) s) = (view s)(n := d)"
proof -
  let ?t = "upd_buf b (\<lambda>x. x\<lparr>b_data := d\<rparr>) s"
  have ok: "bufs_ok (bufs s) (disk_img s) (sleeplocks s)" using assms(1) by (simp add: bio_ok_def)
  have ref: "b_refcnt (bufs s b) \<noteq> 0" using ok assms(2,3) by (auto simp: bufs_ok_def)
  have B: "bufs ?t = (bufs s)(b := (bufs s b)\<lparr>b_data := d\<rparr>)" by (simp add: upd_buf_def)
  obtain xs where "lru (bufs s) xs" using ok by (auto simp: bufs_ok_def)
  then have "lru (bufs ?t) xs" by (rule lru_cong) (simp_all add: B)
  then have ok': "bufs_ok (bufs ?t) (disk_img s) (sleeplocks s)"
    using ok ref unfolding bufs_ok_def B by (intro conjI exI [of _ xs]) auto
  have "bio_ok ?t" using assms(1) ok' by (simp add: bio_ok_def upd_buf_def calm_def vdisk_ok_def)
  moreover have "bio_frame s ?t" by (simp add: bio_frame_def upd_buf_def)
  moreover have "view ?t m = ((view s)(n := d)) m" for m
  proof (cases "m = n")
    case True
    then show ?thesis using view_buf [OF ok', of b n] assms(2,4) B by simp
  next
    case False
    have "buf_of (bufs ?t) m = buf_of (bufs s) m" by (rule buf_of_cong) (simp add: B)
    moreover have "buf_of (bufs s) m \<noteq> Some b" using False assms(4) buf_of_SomeD [of "bufs s" m b] by auto
    ultimately show ?thesis using False B by (auto simp: view_def upd_buf_def split: option.split)
  qed
  then have "view ?t = (view s)(n := d)" by blast
  ultimately show ?thesis by blast
qed

text \<open>The same buffers in another order\<close>

definition relinked :: "(nat \<Rightarrow> buf) \<Rightarrow> (nat \<Rightarrow> buf) \<Rightarrow> bool" where
  "relinked B B' \<longleftrightarrow> (\<forall>i. \<exists>n p. B' i = (B i)\<lparr>b_next := n, b_prev := p\<rparr>)"

lemma relinked_fields:
  assumes "relinked B B'"
  shows "b_dev (B' i) = b_dev (B i)" "b_blockno (B' i) = b_blockno (B i)" "b_valid (B' i) = b_valid (B i)"
    "b_disk (B' i) = b_disk (B i)" "b_data (B' i) = b_data (B i)" "b_refcnt (B' i) = b_refcnt (B i)"
proof -
  obtain n p where "B' i = (B i)\<lparr>b_next := n, b_prev := p\<rparr>" using assms unfolding relinked_def by blast
  then show "b_dev (B' i) = b_dev (B i)" "b_blockno (B' i) = b_blockno (B i)" "b_valid (B' i) = b_valid (B i)"
    "b_disk (B' i) = b_disk (B i)" "b_data (B' i) = b_data (B i)" "b_refcnt (B' i) = b_refcnt (B i)" by simp_all
qed

lemma same_but_links: "\<exists>n p. (x :: buf) = x\<lparr>b_next := n, b_prev := p\<rparr>"
  by (intro exI [of _ "b_next x"] exI [of _ "b_prev x"]) simp

lemma brelse_spec:
  assumes "bio_ok s" and "b < NBUF" and "holds b s" and "is_block (bufs s b) n"
    and "b_refcnt (bufs s b) = 1 \<longrightarrow> b_data (bufs s b) = disk_img s n"
  shows "\<exists>t. brelse b s = Ret () t \<and> bio_ok t \<and> bio_frame s t
    \<and> sleeplocks t = (sleeplocks s)(BufLock b := (sleeplocks s (BufLock b))\<lparr>sl_locked := False, sl_pid := 0\<rparr>)
    \<and> relinked ((bufs s)(b := (bufs s b)\<lparr>b_refcnt := b_refcnt (bufs s b) - 1\<rparr>)) (bufs t)
    \<and> disk_img t = disk_img s \<and> disk_hist t = disk_hist s \<and> view t = view s"
proof -
  have c: "calm s" and ok: "bufs_ok (bufs s) (disk_img s) (sleeplocks s)" using assms(1) by (simp_all add: bio_ok_def)
  define L where "L = (sleeplocks s)(BufLock b := (sleeplocks s (BufLock b))\<lparr>sl_locked := False, sl_pid := 0\<rparr>)"
  define P where "P = wake_table (Chan_sleeplock (BufLock b)) (cur s) [0..<NPROC] (proc s)"
  define B where "B = (bufs s)(b := (bufs s b)\<lparr>b_refcnt := b_refcnt (bufs s b) - 1\<rparr>)"
  let ?s1 = "settle s\<lparr>sleeplocks := L, proc := P\<rparr>"
  have r1: "releasesleep (BufLock b) (settle s) = Ret () ?s1"
    using releasesleep_eq [of "settle s" "BufLock b"] c by (simp add: L_def P_def lock_simps)
  have c1: "calm ?s1" using c by (simp add: calm_def lock_simps)
  obtain xs where xs: "lru (bufs s) xs" using ok by (auto simp: bufs_ok_def)
  then have xB: "lru B xs" by (rule lru_cong) (simp_all add: B_def)
  let ?s2 = "in_lock Bcache_lock ?s1\<lparr>bufs := B\<rparr>"
  have "\<exists>B' ys. (if b_refcnt (B b) = 0 then to_front b ?s2 else ?s2) = ?s2\<lparr>bufs := B'\<rparr> \<and> lru B' ys \<and> relinked B B'"
  proof (cases "b_refcnt (B b) = 0")
    case True
    then show ?thesis using lru_to_front [of ?s2 xs b] xB assms(2) by (auto simp: relinked_def)
  next
    case False
    then show ?thesis using xB same_but_links by (intro exI [of _ B] exI [of _ xs]) (auto simp: relinked_def)
  qed
  then obtain B' ys where B': "(if b_refcnt (B b) = 0 then to_front b ?s2 else ?s2) = ?s2\<lparr>bufs := B'\<rparr>" "lru B' ys" "relinked B B'"
    by blast
  let ?t = "settle s\<lparr>sleeplocks := L, proc := P, bufs := B'\<rparr>"
  have rel: "release Bcache_lock (?s2\<lparr>bufs := B'\<rparr>) = Ret () ?t" using calmD [OF c] by (simp add: lock_simps)
  have h: "holdingsleep (BufLock b) s = Ret True (settle s)" using holdingsleep_eq [OF c, of "BufLock b"] assms(3) by (simp add: holds_def)
  have u: "upd_buf b (\<lambda>x. x\<lparr>b_refcnt := b_refcnt x - 1\<rparr>) (in_lock Bcache_lock ?s1) = ?s2" by (simp add: upd_buf_def B_def)
  have bb: "bufs ?s2 = B" by simp
  have run: "brelse b s = Ret () ?t"
    by (simp only: brelse_def h r1 calm_acquire [OF c1] u bb B'(1) rel res_bind.simps Let_def not_True_eq_False if_False)
  note f = relinked_fields [OF B'(3)]
  have fb: "is_block (B' i) m = is_block (bufs s i) m" "b_data (B' i) = b_data (bufs s i)" for i m
    unfolding f by (simp_all add: B_def)
  have ref: "b_refcnt (B' i) = (if i = b then b_refcnt (bufs s b) - 1 else b_refcnt (bufs s i))" for i
    unfolding f by (simp add: B_def)
  have clean: "b_refcnt (bufs s b) - 1 = 0 \<Longrightarrow> b_data (bufs s b) = disk_img s n" using assms(5) by simp
  have "bufs_ok B' (disk_img s) L"
    unfolding bufs_ok_def
  proof (intro conjI allI impI)
    show "\<exists>xs. lru B' xs" using B'(2) ..
    show "\<not> b_disk (B' i)" if "i < NBUF" for i using ok that unfolding f by (simp add: B_def bufs_ok_def)
    show "i = j" if "i < NBUF" "j < NBUF" "is_block (B' i) m" "is_block (B' j) m" for i j m
      using ok that unfolding fb bufs_ok_def by blast
    show "b_valid (B' i)" if "i < NBUF" "b_dev (B' i) = ROOTDEV" for i
      using ok that unfolding f by (simp add: B_def bufs_ok_def split: if_splits)
    show "\<not> sl_locked (L (BufLock i))" if "i < NBUF" "b_refcnt (B' i) = 0" for i
      using ok that unfolding ref by (auto simp: L_def bufs_ok_def split: if_splits)
    show "b_data (B' i) = disk_img s m" if "i < NBUF" "b_refcnt (B' i) = 0" "is_block (B' i) m" for i m
      using ok that clean assms(2,4) unfolding ref fb by (auto simp: bufs_ok_def split: if_splits)
  qed
  moreover have "calm ?t" using c by (simp add: calm_def lock_simps)
  moreover have "view ?t = view s" by (rule view_cong) (simp_all add: fb)
  moreover have "bio_frame s ?t" by (simp add: bio_frame_def lock_simps P_def)
  ultimately show ?thesis
    using run assms(1) B'(3) by (intro exI [of _ ?t]) (simp add: bio_ok_def vdisk_ok_def L_def B_def)
qed

lemma refcnt_spec:
  assumes "bio_ok s" and "b < NBUF" and "r \<noteq> 0"
  shows "bio_ok (settle s\<lparr>bufs := (bufs s)(b := (bufs s b)\<lparr>b_refcnt := r\<rparr>)\<rparr>)
    \<and> bio_frame s (settle s\<lparr>bufs := (bufs s)(b := (bufs s b)\<lparr>b_refcnt := r\<rparr>)\<rparr>)
    \<and> view (settle s\<lparr>bufs := (bufs s)(b := (bufs s b)\<lparr>b_refcnt := r\<rparr>)\<rparr>) = view s"
proof -
  let ?B = "(bufs s)(b := (bufs s b)\<lparr>b_refcnt := r\<rparr>)"
  have ok: "bufs_ok (bufs s) (disk_img s) (sleeplocks s)" using assms(1) by (simp add: bio_ok_def)
  obtain xs where "lru (bufs s) xs" using ok by (auto simp: bufs_ok_def)
  then have "lru ?B xs" by (rule lru_cong) simp_all
  then have "bufs_ok ?B (disk_img s) (sleeplocks s)"
    using ok assms(3) unfolding bufs_ok_def by (intro conjI exI [of _ xs]) auto
  moreover have "view (settle s\<lparr>bufs := ?B\<rparr>) = view s" by (rule view_cong) simp_all
  ultimately show ?thesis
    using assms(1) by (simp add: bio_ok_def bio_frame_def calm_def vdisk_ok_def lock_simps)
qed

lemma bpin_eq: "calm s \<Longrightarrow> bpin b s = Ret () (settle s\<lparr>bufs := (bufs s)(b := (bufs s b)\<lparr>b_refcnt := b_refcnt (bufs s b) + 1\<rparr>)\<rparr>)"
  using calmD [of s] by (simp add: bpin_def calm_acquire upd_buf_def lock_simps)

lemma bunpin_eq: "calm s \<Longrightarrow> bunpin b s = Ret () (settle s\<lparr>bufs := (bufs s)(b := (bufs s b)\<lparr>b_refcnt := b_refcnt (bufs s b) - 1\<rparr>)\<rparr>)"
  using calmD [of s] by (simp add: bunpin_def calm_acquire upd_buf_def lock_simps)

section \<open>The cache is transparent\<close>

text \<open>
  A client that reads blocks, or overwrites blocks and writes them through, through the cache;
  each access is \<open>bread\<close>, possibly a change of the data and \<open>bwrite\<close>, and \<open>brelse\<close>.
\<close>

datatype bop = BRead uint | BWrite uint block

definition run_bop :: "bop \<Rightarrow> 'a disk_state_scheme \<Rightarrow> ('a disk_state_scheme, block) res" where
  "run_bop op s =
     (case op of
        BRead n \<Rightarrow>
          res_bind (bread ROOTDEV n s) (\<lambda>b s.
          let d = b_data (bufs s b) in
          res_bind (brelse b s) (\<lambda>_ s. Ret d s))
      | BWrite n d \<Rightarrow>
          res_bind (bread ROOTDEV n s) (\<lambda>b s.
          res_bind (bwrite b (upd_buf b (\<lambda>x. x\<lparr>b_data := d\<rparr>) s)) (\<lambda>_ s.
          res_bind (brelse b s) (\<lambda>_ s. Ret d s))))"

primrec run_bops :: "bop list \<Rightarrow> 'a disk_state_scheme \<Rightarrow> ('a disk_state_scheme, block list) res" where
  "run_bops [] s = Ret [] s"
| "run_bops (op # ops) s =
     res_bind (run_bop op s) (\<lambda>d s. res_bind (run_bops ops s) (\<lambda>ds s. Ret (d # ds) s))"

text \<open>The same operations on the bare disk\<close>

primrec spec_bops :: "bop list \<Rightarrow> (nat \<Rightarrow> block) \<Rightarrow> block list \<times> (nat \<Rightarrow> block)" where
  "spec_bops [] img = ([], img)"
| "spec_bops (op # ops) img =
     (case op of
        BRead n \<Rightarrow> (case spec_bops ops img of (ds, img') \<Rightarrow> (img (unat n) # ds, img'))
      | BWrite n d \<Rightarrow> (case spec_bops ops (img(unat n := d)) of (ds, img') \<Rightarrow> (d # ds, img')))"

primrec bop_block :: "bop \<Rightarrow> uint" where
  "bop_block (BRead n) = n"
| "bop_block (BWrite n d) = n"

definition idle :: "'a disk_state_scheme \<Rightarrow> bool" where
  "idle s \<longleftrightarrow> bio_ok s \<and> (\<forall>i<NBUF. b_refcnt (bufs s i) = 0)"

lemma idle_view: "idle s \<Longrightarrow> view s n = disk_img s n"
  by (auto simp: idle_def bio_ok_def bufs_ok_def view_def split: option.split dest!: buf_of_SomeD)

lemma idle_bread:
  assumes "idle s" and "unat bn < 2 ^ 31"
  shows "\<exists>b t. bread ROOTDEV bn s = Ret b t \<and> bio_ok t \<and> b < NBUF \<and> holds b t \<and> is_block (bufs t b) (unat bn)
    \<and> b_data (bufs t b) = disk_img s (unat bn) \<and> disk_img t = disk_img s \<and> b_refcnt (bufs t b) = 1
    \<and> (\<forall>i<NBUF. i \<noteq> b \<longrightarrow> b_refcnt (bufs t i) = 0)"
proof -
  have ok: "bio_ok s" and ref: "\<forall>i<NBUF. b_refcnt (bufs s i) = 0" using assms(1) by (simp_all add: idle_def)
  have "\<exists>i<NBUF. b_refcnt (bufs s i) = 0" using ref by (intro exI [of _ 0]) (simp add: NBUF_def)
  then have "case buf_of (bufs s) (unat bn) of Some i \<Rightarrow> \<not> slocked i s \<and> b_refcnt (bufs s i) + 1 \<noteq> 0
         | None \<Rightarrow> \<exists>i<NBUF. b_refcnt (bufs s i) = 0"
    using ok ref by (auto simp: bio_ok_def bufs_ok_def split: option.split dest!: buf_of_SomeD)
  from bread_spec [OF ok refl assms(2) this]
  obtain b t where t: "bread ROOTDEV bn s = Ret b t" "bio_ok t" "bio_frame s t" "b < NBUF" "is_block (bufs t b) (unat bn)"
    "b_data (bufs t b) = view s (unat bn)" "disk_img t = disk_img s"
    "sleeplocks t = take_sleep (BufLock b) (p_pid (my s)) (sleeplocks s)"
    "\<forall>i. i \<noteq> b \<longrightarrow> bufs t i = bufs s i"
    "case buf_of (bufs s) (unat bn) of Some i \<Rightarrow> b = i \<and> b_refcnt (bufs t b) = b_refcnt (bufs s b) + 1
       | None \<Rightarrow> b_refcnt (bufs s b) = 0 \<and> b_refcnt (bufs t b) = 1" by blast
  have "calm s" using ok by (simp add: bio_ok_def)
  then have "holds b t" using bio_frame_my [OF t(3)] t(8) by (simp add: holds_def)
  moreover have "b_refcnt (bufs t b) = 1" using t(4,10) ref by (auto split: option.splits)
  ultimately show ?thesis using t ref idle_view [OF assms(1)] by (intro exI [of _ b] exI [of _ t]) simp
qed

lemma idle_brelse:
  assumes "bio_ok s" and "b < NBUF" and "holds b s" and "is_block (bufs s b) n" and "b_data (bufs s b) = disk_img s n"
    and "b_refcnt (bufs s b) = 1" and "\<forall>i<NBUF. i \<noteq> b \<longrightarrow> b_refcnt (bufs s i) = 0"
  shows "\<exists>t. brelse b s = Ret () t \<and> idle t \<and> disk_img t = disk_img s"
proof -
  obtain t where t: "brelse b s = Ret () t" "bio_ok t" "disk_img t = disk_img s"
    "relinked ((bufs s)(b := (bufs s b)\<lparr>b_refcnt := b_refcnt (bufs s b) - 1\<rparr>)) (bufs t)"
    using brelse_spec [OF assms(1-4)] assms(5) by blast
  have "b_refcnt (bufs t i) = 0" if "i < NBUF" for i
    unfolding relinked_fields(6) [OF t(4)] using assms(6,7) that by simp
  then show ?thesis using t by (auto simp: idle_def)
qed

lemma run_bop_ok:
  assumes "idle s" and "unat (bop_block op) < 2 ^ 31"
  shows "\<exists>t. idle t \<and> (case op of
      BRead n \<Rightarrow> run_bop op s = Ret (disk_img s (unat n)) t \<and> disk_img t = disk_img s
    | BWrite n d \<Rightarrow> run_bop op s = Ret d t \<and> disk_img t = (disk_img s)(unat n := d))"
proof (cases op)
  case (BRead n)
  obtain b t where t: "bread ROOTDEV n s = Ret b t" "bio_ok t" "b < NBUF" "holds b t" "is_block (bufs t b) (unat n)"
    "b_data (bufs t b) = disk_img s (unat n)" "disk_img t = disk_img s" "b_refcnt (bufs t b) = 1"
    "\<forall>i<NBUF. i \<noteq> b \<longrightarrow> b_refcnt (bufs t i) = 0" using idle_bread [OF assms(1), of n] assms(2) BRead by auto
  obtain u where u: "brelse b t = Ret () u" "idle u" "disk_img u = disk_img t" using idle_brelse [OF t(2-5) _ t(8,9)] t(6,7) by auto
  show ?thesis using t u BRead by (intro exI [of _ u]) (simp add: run_bop_def)
next
  case (BWrite n d)
  obtain b t where t: "bread ROOTDEV n s = Ret b t" "bio_ok t" "b < NBUF" "holds b t" "is_block (bufs t b) (unat n)"
    "disk_img t = disk_img s" "b_refcnt (bufs t b) = 1" "\<forall>i<NBUF. i \<noteq> b \<longrightarrow> b_refcnt (bufs t i) = 0"
    using idle_bread [OF assms(1), of n] assms(2) BWrite by auto
  let ?t = "upd_buf b (\<lambda>x. x\<lparr>b_data := d\<rparr>) t"
  have t': "bio_ok ?t" "holds b ?t" "is_block (bufs ?t b) (unat n)" "disk_img ?t = disk_img s"
    using set_data_spec [OF t(2,3) _ t(5)] t(4,5,6) by (auto simp: holds_def upd_buf_def)
  have lim: "unat n < 2 ^ 31" using assms(2) BWrite by simp
  obtain u where u: "bwrite b ?t = Ret () u" "bio_ok u" "bio_frame ?t u" "bufs u = bufs ?t" "sleeplocks u = sleeplocks ?t"
    "disk_img u = (disk_img s)(unat n := d)"
    using bwrite_spec [OF t'(1) t(3) t'(2,3) lim] t'(4) by (auto simp: upd_buf_def)
  have "calm ?t" using t'(1) by (simp add: bio_ok_def)
  then have "holds b u" using bio_frame_my [OF u(3)] t'(2) u(5) by (simp add: holds_def)
  moreover have "is_block (bufs u b) (unat n)" "b_data (bufs u b) = disk_img u (unat n)" "b_refcnt (bufs u b) = 1"
    "\<forall>i<NBUF. i \<noteq> b \<longrightarrow> b_refcnt (bufs u i) = 0"
    using u(4,6) t'(3) t(7,8) by (simp_all add: upd_buf_def)
  ultimately obtain v where v: "brelse b u = Ret () v" "idle v" "disk_img v = disk_img u" using idle_brelse [OF u(2) t(3)] by blast
  show ?thesis using t u v BWrite by (intro exI [of _ v]) (simp add: run_bop_def)
qed

text \<open>
  C2. The buffer cache is transparent. Any sequence of reads and write-throughs of blocks, of
  any length and in any order, starting from a cache in which no buffer is in use, runs
  without a panic and without running out of buffers; every read returns exactly what the
  bare disk would, and the disk ends up as if there were no cache.
\<close>

theorem bcache_transparent:
  assumes "idle s" and "\<forall>op\<in>set ops. unat (bop_block op) < 2 ^ 31"
  shows "\<exists>t. run_bops ops s = Ret (fst (spec_bops ops (disk_img s))) t \<and> disk_img t = snd (spec_bops ops (disk_img s)) \<and> idle t"
  using assms
proof (induction ops arbitrary: s)
  case (Cons op ops)
  obtain t where t: "idle t" "case op of
      BRead n \<Rightarrow> run_bop op s = Ret (disk_img s (unat n)) t \<and> disk_img t = disk_img s
    | BWrite n d \<Rightarrow> run_bop op s = Ret d t \<and> disk_img t = (disk_img s)(unat n := d)"
    using run_bop_ok [OF Cons.prems(1), of op] Cons.prems(2) by auto
  obtain u where u: "run_bops ops t = Ret (fst (spec_bops ops (disk_img t))) u" "disk_img u = snd (spec_bops ops (disk_img t))" "idle u"
    using Cons.IH [OF t(1)] Cons.prems(2) by auto
  show ?case using t u by (cases op) (auto split: prod.split)
qed simp


section \<open>Initialisation establishes the invariant\<close>

lemma binit_one_links:
  assumes "b \<noteq> NBUF"
  shows "(\<lambda>i. b_next (bufs (binit_one b s) i)) = (\<lambda>i. b_next (bufs s i))(b := b_next (bufs s NBUF), NBUF := b)"
    and "(\<lambda>i. b_prev (bufs (binit_one b s) i)) = (\<lambda>i. b_prev (bufs s i))(b := NBUF, b_next (bufs s NBUF) := b)"
  using assms
  by (auto simp: binit_one_def upd_buf_def Let_def initsleeplock_def upd_sleeplock_def initlock_def upd_lock_def fun_eq_iff)

lemma binit_one_frame:
  "cpu_ok (binit_one b s) = cpu_ok s" "cur (binit_one b s) = cur s"
  "lock_free lk s \<Longrightarrow> lock_free lk (binit_one b s)"
  "vdisk_ok (binit_one b s) = vdisk_ok s" "disk_img (binit_one b s) = disk_img s"
  "b_disk (bufs (binit_one b s) i) = b_disk (bufs s i)" "b_dev (bufs (binit_one b s) i) = b_dev (bufs s i)"
  "b_refcnt (bufs (binit_one b s) i) = b_refcnt (bufs s i)"
  "sleeplocks (binit_one b s) = (sleeplocks s)(BufLock b := \<lparr>sl_locked = False, sl_name = ''buffer'', sl_pid = 0\<rparr>)"
  by (auto simp: binit_one_def upd_buf_def Let_def initsleeplock_def upd_sleeplock_def initlock_def upd_lock_def
      free_lock_def vdisk_ok_def)

lemma binit_fold:
  assumes "k \<le> NBUF" and "b_next (bufs s NBUF) = NBUF" and "b_prev (bufs s NBUF) = NBUF" and "calm s"
  defines "t \<equiv> fold binit_one [0..<k] s"
  shows "linked (\<lambda>i. b_next (bufs t i)) (\<lambda>i. b_prev (bufs t i)) (NBUF # rev [0..<k] @ [NBUF])"
    and "calm t" and "vdisk_ok t = vdisk_ok s" and "disk_img t = disk_img s"
    and "b_disk (bufs t i) = b_disk (bufs s i)" and "b_dev (bufs t i) = b_dev (bufs s i)" and "b_refcnt (bufs t i) = b_refcnt (bufs s i)"
    and "i < k \<Longrightarrow> \<not> sl_locked (sleeplocks t (BufLock i))"
  unfolding t_def using assms(1)
proof (induction k)
  case (Suc k)
  { case 1
    then show ?case
      using link_front [OF Suc.IH(1), of k] by (simp add: binit_one_links) }
  { case 2 then show ?case using Suc.IH(2) by (simp add: calm_def binit_one_frame) }
  { case 3 then show ?case using Suc.IH(3) by (simp add: binit_one_frame) }
  { case 4 then show ?case using Suc.IH(4) by (simp add: binit_one_frame) }
  { case 5 then show ?case using Suc.IH(5) by (simp add: binit_one_frame) }
  { case 6 then show ?case using Suc.IH(6) by (simp add: binit_one_frame) }
  { case 7 then show ?case using Suc.IH(7) by (simp add: binit_one_frame) }
  { case 8 then show ?case using Suc.IH(8) by (auto simp: binit_one_frame less_Suc_eq) }
qed (use assms in simp_all)

lemma binit_idle:
  assumes "calm s" and "vdisk_ok s" and "\<forall>i<NBUF. b_dev (bufs s i) = 0 \<and> b_refcnt (bufs s i) = 0 \<and> \<not> b_disk (bufs s i)"
  shows "idle (binit s)" and "disk_img (binit s) = disk_img s"
proof -
  let ?u = "upd_buf NBUF (\<lambda>h. h\<lparr>b_prev := NBUF, b_next := NBUF\<rparr>) (initlock Bcache_lock ''bcache'' s)"
  let ?t = "fold binit_one [0..<NBUF] ?u"
  have u: "b_next (bufs ?u NBUF) = NBUF" "b_prev (bufs ?u NBUF) = NBUF" "calm ?u" "vdisk_ok ?u" "disk_img ?u = disk_img s"
    "\<forall>i<NBUF. b_dev (bufs ?u i) = 0 \<and> b_refcnt (bufs ?u i) = 0 \<and> \<not> b_disk (bufs ?u i)"
    using assms by (auto simp: calm_def upd_buf_def initlock_def upd_lock_def free_lock_def vdisk_ok_def)
  note t = binit_fold [OF order_refl u(1-3)]
  have "lru (bufs ?t) (rev [0..<NBUF])" unfolding lru_def using t(1) by simp
  moreover have "b_dev (bufs ?t i) = 0" "b_refcnt (bufs ?t i) = 0" "\<not> b_disk (bufs ?t i)" if "i < NBUF" for i
    using u(6) that by (simp_all add: t(5-7))
  moreover have "ROOTDEV \<noteq> 0" by (simp add: ROOTDEV_def)
  ultimately have "idle ?t" using t(2-4,8) u(4)
    by (auto simp: idle_def bio_ok_def bufs_ok_def)
  then show "idle (binit s)" by (simp add: binit_def)
  show "disk_img (binit s) = disk_img s" unfolding binit_def Let_def using t(4) u(5) by simp
qed

theorem bcache_transparent_witness:
  "\<exists>t. run_bops [BRead 5, BWrite 5 (\<lambda>_. 9), BRead 5, BRead 6] (binit demo_disk) = Ret [\<lambda>_. 5, \<lambda>_. 9, \<lambda>_. 9, \<lambda>_. 6] t
     \<and> disk_img t 5 = (\<lambda>_. 9)"
proof -
  have "\<forall>i<NBUF. b_dev (bufs demo_disk i) = 0 \<and> b_refcnt (bufs demo_disk i) = 0 \<and> \<not> b_disk (bufs demo_disk i)"
    by (simp add: free_buf_def)
  note d = binit_idle [OF demo_disk_ok this]
  from bcache_transparent [OF d(1), of "[BRead 5, BWrite 5 (\<lambda>_. 9), BRead 5, BRead 6]"] d(2)
  show ?thesis by auto
qed

end
