(* ===== verification/Cache.thy ===== *)
theory Cache
  imports Bio
begin

text \<open>
  What a client of the buffer cache relies on: which buffers the running process holds, which
  blocks are pinned, and what each cache operation does to the contents of the disk as the
  kernel sees them (\<open>view\<close>), to the disk itself (\<open>disk_img\<close>) and to the history of its
  writes (\<open>disk_hist\<close>). A buffer's reference count is 1 for its holder plus 1 for a pin.
\<close>

section \<open>Holders and pins\<close>

definition held :: "'a sleep_state_scheme \<Rightarrow> nat set" where
  "held s = {i. i < NBUF \<and> slocked i s}"

abbreviation pins :: "nat set \<Rightarrow> buf \<Rightarrow> bool" where
  "pins P x \<equiv> b_dev x = ROOTDEV \<and> unat (b_blockno x) \<in> P"

definition cache_ok :: "nat set \<Rightarrow> 'a disk_state_scheme \<Rightarrow> bool" where
  "cache_ok P s \<longleftrightarrow> bio_ok s
     \<and> (\<forall>i<NBUF. b_refcnt (bufs s i) = of_bool (slocked i s) + of_bool (pins P (bufs s i)))
     \<and> (\<forall>n\<in>P. \<exists>i<NBUF. is_block (bufs s i) n)
     \<and> (\<forall>i<NBUF. slocked i s \<longrightarrow> holds i s)"

lemma cache_okD:
  assumes "cache_ok P s"
  shows "bio_ok s" "calm s" "bufs_ok (bufs s) (disk_img s) (sleeplocks s)"
    "i < NBUF \<Longrightarrow> b_refcnt (bufs s i) = of_bool (slocked i s) + of_bool (pins P (bufs s i))"
    "n \<in> P \<Longrightarrow> \<exists>i<NBUF. is_block (bufs s i) n" "i \<in> held s \<Longrightarrow> holds i s"
  using assms by (auto simp: cache_ok_def bio_ok_def held_def)

lemma cache_unique:
  "cache_ok P s \<Longrightarrow> i < NBUF \<Longrightarrow> j < NBUF \<Longrightarrow> is_block (bufs s i) n \<Longrightarrow> is_block (bufs s j) n \<Longrightarrow> i = j"
  using cache_okD(3) [of P s] by (auto simp: bufs_ok_def)

lemma buf_of_iff:
  assumes "cache_ok P s"
  shows "buf_of (bufs s) n = Some i \<longleftrightarrow> i < NBUF \<and> is_block (bufs s i) n"
proof
  assume "buf_of (bufs s) n = Some i"
  then show "i < NBUF \<and> is_block (bufs s i) n" using buf_of_SomeD by blast
next
  assume i: "i < NBUF \<and> is_block (bufs s i) n"
  then obtain j where "buf_of (bufs s) n = Some j"
    unfolding buf_of_def using find_None_iff [of "\<lambda>i. is_block (bufs s i) n" "[0..<NBUF]"]
    by (cases "find (\<lambda>i. is_block (bufs s i) n) [0..<NBUF]") auto
  moreover from this have "j < NBUF" "is_block (bufs s j) n" using buf_of_SomeD by blast+
  ultimately show "buf_of (bufs s) n = Some i" using cache_unique [OF assms] i by auto
qed

lemma view_held: "cache_ok P s \<Longrightarrow> i < NBUF \<Longrightarrow> is_block (bufs s i) n \<Longrightarrow> view s n = b_data (bufs s i)"
  using buf_of_iff [of P s n i] by (simp add: view_def)

text \<open>A block that is neither pinned nor held is on the disk as the kernel sees it.\<close>

lemma view_clean:
  assumes "cache_ok P s" and "n \<notin> P" and "\<forall>i\<in>held s. \<not> is_block (bufs s i) n"
  shows "view s n = disk_img s n"
proof (cases "buf_of (bufs s) n")
  case (Some i)
  then have i: "i < NBUF" "is_block (bufs s i) n" using buf_of_SomeD by blast+
  then have "b_refcnt (bufs s i) = 0" using cache_okD(4) [OF assms(1), of i] assms(2,3) by (auto simp: held_def)
  then show ?thesis using cache_okD(3) [OF assms(1)] i Some by (auto simp: bufs_ok_def view_def)
qed (simp add: view_def)

lemma free_buffer:
  assumes "cache_ok P s" and "finite P" and "card (held s) + card P < NBUF"
  shows "\<exists>i<NBUF. b_refcnt (bufs s i) = 0"
proof (rule ccontr)
  assume "\<not> ?thesis"
  then have n: "\<forall>i<NBUF. b_refcnt (bufs s i) \<noteq> 0" by blast
  let ?Q = "{i. i < NBUF \<and> pins P (bufs s i)}"
  have "{..<NBUF} \<subseteq> held s \<union> ?Q"
  proof
    fix i assume "i \<in> {..<NBUF}"
    then show "i \<in> held s \<union> ?Q" using n cache_okD(4) [OF assms(1), of i] by (auto simp: held_def)
  qed
  then have "NBUF \<le> card (held s \<union> ?Q)" using card_mono [of "held s \<union> ?Q" "{..<NBUF}"] by (simp add: held_def)
  also have "\<dots> \<le> card (held s) + card ?Q" by (rule card_Un_le)
  finally have "NBUF \<le> card (held s) + card ?Q" .
  moreover have "card ?Q \<le> card P"
  proof (rule card_inj_on_le)
    show "inj_on (\<lambda>i. unat (b_blockno (bufs s i))) ?Q" using cache_unique [OF assms(1)] by (auto simp: inj_on_def)
  qed (use assms(2) in auto)
  ultimately show False using assms(3) by simp
qed

section \<open>What each operation does\<close>

lemma held_take [simp]: "sleeplocks t = take_sleep (BufLock b) p (sleeplocks s) \<Longrightarrow> b < NBUF \<Longrightarrow> held t = insert b (held s)"
  by (auto simp: held_def)

lemma held_drop:
  "sleeplocks t = (sleeplocks s)(BufLock b := (sleeplocks s (BufLock b))\<lparr>sl_locked := False, sl_pid := 0\<rparr>) \<Longrightarrow> held t = held s - {b}"
  by (auto simp: held_def)

lemma holds_frame: "bio_frame s t \<Longrightarrow> calm s \<Longrightarrow> holds i s \<Longrightarrow> sleeplocks t (BufLock i) = sleeplocks s (BufLock i) \<Longrightarrow> holds i t"
  using bio_frame_my [of s t] by (simp add: holds_def)

lemma cache_bread:
  assumes ok: "cache_ok P s" and n: "unat bn = n" "n < 2 ^ 31" and fin: "n \<in> P \<or> finite P \<and> card (held s) + card P < NBUF"
    and nh: "\<forall>i\<in>held s. \<not> is_block (bufs s i) n"
  shows "\<exists>b t. bread ROOTDEV bn s = Ret b t \<and> cache_ok P t \<and> bio_frame s t \<and> b < NBUF \<and> b \<notin> held s
    \<and> held t = insert b (held s) \<and> is_block (bufs t b) n \<and> b_data (bufs t b) = view s n \<and> view t = view s
    \<and> disk_img t = disk_img s \<and> disk_hist t = disk_hist s \<and> (\<forall>i. i \<noteq> b \<longrightarrow> bufs t i = bufs s i)"
proof -
  note k = cache_okD [OF ok]
  have pre: "case buf_of (bufs s) n of Some i \<Rightarrow> \<not> slocked i s \<and> b_refcnt (bufs s i) + 1 \<noteq> 0
         | None \<Rightarrow> \<exists>i<NBUF. b_refcnt (bufs s i) = 0"
  proof (cases "buf_of (bufs s) n")
    case (Some i)
    then have i: "i < NBUF" "is_block (bufs s i) n" using buf_of_SomeD by blast+
    then have "\<not> slocked i s" using nh by (auto simp: held_def)
    then show ?thesis using Some k(4) [OF i(1)] by simp
  next
    case None
    then have "n \<notin> P" using k(5) [of n] buf_of_iff [OF ok, of n] by auto
    then show ?thesis using None fin free_buffer [OF ok] by auto
  qed
  from bread_spec [OF k(1) n pre]
  obtain b t where t: "bread ROOTDEV bn s = Ret b t" "bio_ok t" "bio_frame s t" "b < NBUF" "is_block (bufs t b) n"
    "b_data (bufs t b) = view s n" "view t = view s" "disk_img t = disk_img s" "disk_hist t = disk_hist s" "\<not> slocked b s"
    "sleeplocks t = take_sleep (BufLock b) (p_pid (my s)) (sleeplocks s)" "\<forall>i. i \<noteq> b \<longrightarrow> bufs t i = bufs s i"
    "case buf_of (bufs s) n of Some i \<Rightarrow> b = i \<and> b_refcnt (bufs t b) = b_refcnt (bufs s b) + 1
       | None \<Rightarrow> b_refcnt (bufs s b) = 0 \<and> b_refcnt (bufs t b) = 1" by blast
  have b: "b_refcnt (bufs t b) = 1 + of_bool (pins P (bufs t b)) \<and> (\<forall>m\<in>P. is_block (bufs s b) m \<longrightarrow> is_block (bufs t b) m)"
  proof (cases "buf_of (bufs s) n")
    case (Some i)
    then have "is_block (bufs s b) n" using buf_of_SomeD t(13) by fastforce
    then show ?thesis using Some t(5,10,13) k(4) [OF t(4)] by auto
  next
    case None
    then have "n \<notin> P" using k(5) [of n] buf_of_iff [OF ok, of n] by auto
    moreover have "\<not> pins P (bufs s b)" using None t(10,13) k(4) [OF t(4)] by auto
    ultimately show ?thesis using None t(5,13) by auto
  qed
  have "cache_ok P t" unfolding cache_ok_def
  proof (intro conjI allI impI ballI)
    fix i assume i: "i < NBUF"
    show "b_refcnt (bufs t i) = of_bool (slocked i t) + of_bool (pins P (bufs t i))"
      using b k(4) [OF i] t(11,12) by (cases "i = b") auto
    assume "slocked i t"
    then show "holds i t"
      using t(11) holds_frame [OF t(3) k(2)] k(6) [of i] i bio_frame_my [OF t(3) k(2)]
      by (cases "i = b") (auto simp: held_def holds_def)
  next
    fix m assume "m \<in> P"
    then obtain i where "i < NBUF" "is_block (bufs s i) m" using k(5) by blast
    then show "\<exists>i<NBUF. is_block (bufs t i) m" using b t(12) \<open>m \<in> P\<close> by (intro exI [of _ i]) (cases "i = b"; auto)
  qed (rule t(2))
  moreover have "b \<notin> held s" using t(10) by (simp add: held_def)
  ultimately show ?thesis using t held_take [OF t(11,4)] by blast
qed

lemma cache_set_data:
  fixes d :: block
  assumes ok: "cache_ok P s" and b: "b \<in> held s" "is_block (bufs s b) n"
  defines "t \<equiv> upd_buf b (\<lambda>x. x\<lparr>b_data := d\<rparr>) s"
  shows "cache_ok P t" "bio_frame s t" "view t = (view s)(n := d)" "held t = held s"
    "bufs t = (bufs s)(b := (bufs s b)\<lparr>b_data := d\<rparr>)" "disk_img t = disk_img s" "disk_hist t = disk_hist s"
proof -
  have "b < NBUF" "slocked b s" using b(1) by (simp_all add: held_def)
  from set_data_spec [OF cache_okD(1) [OF ok] this b(2), of d]
  have t: "bio_ok t" "bio_frame s t" "view t = (view s)(n := d)" by (simp_all add: t_def)
  show "bio_frame s t" "view t = (view s)(n := d)" by (fact t)+
  show "held t = held s" "bufs t = (bufs s)(b := (bufs s b)\<lparr>b_data := d\<rparr>)" "disk_img t = disk_img s" "disk_hist t = disk_hist s"
    by (simp_all add: t_def upd_buf_def held_def)
  have "b_refcnt (bufs t i) = b_refcnt (bufs s i)" "b_dev (bufs t i) = b_dev (bufs s i)" "b_blockno (bufs t i) = b_blockno (bufs s i)"
    "sleeplocks t = sleeplocks s" "holds i t = holds i s" for i by (simp_all add: t_def upd_buf_def holds_def)
  then show "cache_ok P t" using ok t(1) by (simp add: cache_ok_def)
qed

lemma cache_bwrite:
  assumes ok: "cache_ok P s" and b: "b \<in> held s" "is_block (bufs s b) n" "n < 2 ^ 31"
  shows "\<exists>t. bwrite b s = Ret () t \<and> cache_ok P t \<and> bio_frame s t \<and> view t = view s \<and> held t = held s \<and> bufs t = bufs s
    \<and> disk_img t = (disk_img s)(n := b_data (bufs s b)) \<and> disk_hist t = disk_hist s @ [(n, b_data (bufs s b))]"
proof -
  note k = cache_okD [OF ok]
  have "b < NBUF" using b(1) by (simp add: held_def)
  from bwrite_spec [OF k(1) this k(6) [OF b(1)] b(2,3)]
  obtain t where t: "bwrite b s = Ret () t" "bio_ok t" "bio_frame s t" "bufs t = bufs s" "sleeplocks t = sleeplocks s"
    "disk_img t = (disk_img s)(n := b_data (bufs s b))" "disk_hist t = disk_hist s @ [(n, b_data (bufs s b))]" "view t = view s" by blast
  have "holds i t = holds i s" for i using bio_frame_my [OF t(3) k(2)] t(5) by (simp add: holds_def)
  then have "cache_ok P t" using ok t(2,4,5) by (simp add: cache_ok_def)
  moreover have "held t = held s" using t(5) by (simp add: held_def)
  ultimately show ?thesis using t by blast
qed

lemma cache_brelse:
  assumes ok: "cache_ok P s" and b: "b \<in> held s" "is_block (bufs s b) n" and cl: "n \<in> P \<or> b_data (bufs s b) = disk_img s n"
  shows "\<exists>t. brelse b s = Ret () t \<and> cache_ok P t \<and> bio_frame s t \<and> view t = view s \<and> held t = held s - {b}
    \<and> disk_img t = disk_img s \<and> disk_hist t = disk_hist s
    \<and> (\<forall>i m. is_block (bufs t i) m = is_block (bufs s i) m) \<and> (\<forall>i. b_data (bufs t i) = b_data (bufs s i))"
proof -
  note k = cache_okD [OF ok]
  have bn: "b < NBUF" "slocked b s" using b(1) by (simp_all add: held_def)
  have "b_refcnt (bufs s b) = 1 \<longrightarrow> b_data (bufs s b) = disk_img s n" using cl k(4) [OF bn(1)] bn(2) b(2) by auto
  from brelse_spec [OF k(1) bn(1) k(6) [OF b(1)] b(2) this]
  obtain t where t: "brelse b s = Ret () t" "bio_ok t" "bio_frame s t"
    "sleeplocks t = (sleeplocks s)(BufLock b := (sleeplocks s (BufLock b))\<lparr>sl_locked := False, sl_pid := 0\<rparr>)"
    "relinked ((bufs s)(b := (bufs s b)\<lparr>b_refcnt := b_refcnt (bufs s b) - 1\<rparr>)) (bufs t)"
    "disk_img t = disk_img s" "disk_hist t = disk_hist s" "view t = view s" by blast
  note f = relinked_fields [OF t(5)]
  have g: "b_dev (bufs t i) = b_dev (bufs s i)" "b_blockno (bufs t i) = b_blockno (bufs s i)" "b_data (bufs t i) = b_data (bufs s i)"
    "b_refcnt (bufs t i) = (if i = b then b_refcnt (bufs s i) - 1 else b_refcnt (bufs s i))" for i
    using f [of i] by (cases "i = b"; simp)+
  have "cache_ok P t" unfolding cache_ok_def
  proof (intro conjI allI impI ballI)
    fix i assume i: "i < NBUF"
    show "b_refcnt (bufs t i) = of_bool (slocked i t) + of_bool (pins P (bufs t i))"
      using k(4) [OF i] t(4) bn(2) by (cases "i = b") (simp_all add: g)
    assume "slocked i t"
    then show "holds i t" using t(4) holds_frame [OF t(3) k(2)] k(6) [of i] i by (cases "i = b") (auto simp: held_def)
  next
    fix m assume "m \<in> P"
    then show "\<exists>i<NBUF. is_block (bufs t i) m" using k(5) by (simp add: g)
  qed (rule t(2))
  then show ?thesis using t held_drop [OF t(4)] g by auto
qed

lemma bpin_locked: "cpu_ok s \<Longrightarrow> lock_free Bcache_lock s \<Longrightarrow>
    bpin b s = Ret () (settle s\<lparr>bufs := (bufs s)(b := (bufs s b)\<lparr>b_refcnt := b_refcnt (bufs s b) + 1\<rparr>)\<rparr>)"
  by (simp add: bpin_def upd_buf_def lock_simps)

text \<open>Changing the reference count of a held buffer to fit another set of pins\<close>

lemma cache_repin:
  assumes ok: "cache_ok P s" and b: "b \<in> held s" "is_block (bufs s b) n" and Q: "Q - {n} = P - {n}"
  defines "t \<equiv> settle s\<lparr>bufs := (bufs s)(b := (bufs s b)\<lparr>b_refcnt := 1 + of_bool (n \<in> Q)\<rparr>)\<rparr>"
  shows "cache_ok Q t" "bio_frame s t" "view t = view s" "held t = held s"
proof -
  note k = cache_okD [OF ok]
  have bn: "b < NBUF" "slocked b s" using b(1) by (simp_all add: held_def)
  have "(1 :: 32 word) + of_bool (n \<in> Q) \<noteq> 0" by simp
  from refcnt_spec [OF k(1) bn(1) this]
  have t: "bio_ok t" "bio_frame s t" "view t = view s" unfolding t_def by blast+
  show "bio_frame s t" "view t = view s" by (fact t)+
  show "held t = held s" by (simp add: t_def held_def)
  have q: "m \<in> Q \<longleftrightarrow> m \<in> P" if "m \<noteq> n" for m using Q that by blast
  show "cache_ok Q t" unfolding cache_ok_def
  proof (intro conjI allI impI ballI)
    fix i assume i: "i < NBUF"
    show "b_refcnt (bufs t i) = of_bool (slocked i t) + of_bool (pins Q (bufs t i))"
    proof (cases "i = b")
      case False
      then have "\<not> is_block (bufs s i) n" using cache_unique [OF ok i bn(1) _ b(2)] by blast
      then show ?thesis using k(4) [OF i] False q by (auto simp: t_def)
    qed (use bn b(2) in \<open>auto simp: t_def\<close>)
    assume "slocked i t"
    then show "holds i t" using k(6) [of i] i by (simp add: t_def held_def holds_def lock_simps)
  next
    fix m assume m: "m \<in> Q"
    show "\<exists>i<NBUF. is_block (bufs t i) m"
    proof (cases "m = n")
      case True
      then show ?thesis using bn b(2) by (intro exI [of _ b]) (simp add: t_def)
    next
      case False
      then obtain i where "i < NBUF" "is_block (bufs s i) m" using k(5) [of m] q m by blast
      then show ?thesis by (intro exI [of _ i]) (auto simp: t_def)
    qed
  qed (rule t(1))
qed

end
