(* ===== verification/Cstruct.thy ===== *)
theory Cstruct
  imports Prelude
begin

text \<open>
  Fields of C structures that live in byte arrays such as disk blocks: reading and writing
  little-endian integers of 16 and 32 bits at an offset, and arrays of them.
\<close>

definition rd16 :: "cptr \<Rightarrow> nat \<Rightarrow> ushort" where
  "rd16 d k = le_word (map d [k..<k + 2])"

definition rd32 :: "cptr \<Rightarrow> nat \<Rightarrow> uint" where
  "rd32 d k = le_word (map d [k..<k + 4])"

definition wr16 :: "cptr \<Rightarrow> nat \<Rightarrow> ushort \<Rightarrow> cptr" where
  "wr16 d k v = write_at d k (le_bytes 2 v)"

definition wr32 :: "cptr \<Rightarrow> nat \<Rightarrow> uint \<Rightarrow> cptr" where
  "wr32 d k v = write_at d k (le_bytes 4 v)"

lemma write_at_same: "length bs = n \<Longrightarrow> map (write_at d k bs) [k..<k + n] = bs"
  by (auto intro: nth_equalityI simp: write_at_def)

lemma write_at_other: "k + length bs \<le> j \<or> j + n \<le> k \<Longrightarrow> map (write_at d k bs) [j..<j + n] = map d [j..<j + n]"
  by (auto simp: write_at_def)

lemma write_at_out: "j < k \<or> k + length bs \<le> j \<Longrightarrow> write_at d k bs j = d j"
  by (auto simp: write_at_def)

lemma rd32_wr32 [simp]: "rd32 (wr32 d k v) k = v"
  unfolding rd32_def wr32_def by (subst write_at_same) (simp_all add: le_word_le_bytes)

lemma rd16_wr16 [simp]: "rd16 (wr16 d k v) k = v"
  unfolding rd16_def wr16_def by (subst write_at_same) (simp_all add: le_word_le_bytes)

lemma rd32_write_at: "k + length bs \<le> j \<or> j + 4 \<le> k \<Longrightarrow> rd32 (write_at d k bs) j = rd32 d j"
  by (simp only: rd32_def write_at_other)

lemma rd16_write_at: "k + length bs \<le> j \<or> j + 2 \<le> k \<Longrightarrow> rd16 (write_at d k bs) j = rd16 d j"
  by (simp only: rd16_def write_at_other)

lemma rd_wr_other [simp]:
  "k + 4 \<le> j \<or> j + 4 \<le> k \<Longrightarrow> rd32 (wr32 d k v) j = rd32 d j"
  "k + 2 \<le> j \<or> j + 4 \<le> k \<Longrightarrow> rd32 (wr16 d k w) j = rd32 d j"
  "k + 4 \<le> j \<or> j + 2 \<le> k \<Longrightarrow> rd16 (wr32 d k v) j = rd16 d j"
  "k + 2 \<le> j \<or> j + 2 \<le> k \<Longrightarrow> rd16 (wr16 d k w) j = rd16 d j"
  by (simp_all add: wr32_def wr16_def rd32_write_at rd16_write_at)

lemma wr_out [simp]:
  "j < k \<or> k + 4 \<le> j \<Longrightarrow> wr32 d k v j = d j"
  "j < k \<or> k + 2 \<le> j \<Longrightarrow> wr16 d k w j = d j"
  by (simp_all add: wr32_def wr16_def write_at_out)

lemma rd_zero [simp]: "rd32 (\<lambda>_. 0) k = 0" "rd16 (\<lambda>_. 0) k = 0"
  by (simp_all add: rd32_def rd16_def map_replicate_const)

lemma rd32_cong: "(\<And>i. k \<le> i \<Longrightarrow> i < k + 4 \<Longrightarrow> d i = e i) \<Longrightarrow> rd32 d k = rd32 e k"
  by (auto simp: rd32_def intro!: arg_cong [of _ _ le_word])

lemma rd16_cong: "(\<And>i. k \<le> i \<Longrightarrow> i < k + 2 \<Longrightarrow> d i = e i) \<Longrightarrow> rd16 d k = rd16 e k"
  by (auto simp: rd16_def intro!: arg_cong [of _ _ le_word])

text \<open>Storing the elements of an array of 32-bit integers one after the other\<close>

definition wr32s :: "cptr \<Rightarrow> nat \<Rightarrow> (nat \<Rightarrow> uint) \<Rightarrow> nat \<Rightarrow> cptr" where
  "wr32s d k f n = fold (\<lambda>i d. wr32 d (k + 4 * i) (f i)) [0..<n] d"

lemma wr32s_0 [simp]: "wr32s d k f 0 = d"
  by (simp add: wr32s_def)

lemma wr32s_Suc: "wr32s d k f (Suc n) = wr32 (wr32s d k f n) (k + 4 * n) (f n)"
  by (simp add: wr32s_def)

lemma rd32_wr32s: "i < n \<Longrightarrow> rd32 (wr32s d k f n) (k + 4 * i) = f i"
proof (induction n)
  case (Suc n)
  then show ?case by (cases "i = n") (auto simp: wr32s_Suc)
qed simp

lemma rd32_wr32s_other: "j + 4 \<le> k \<or> k + 4 * n \<le> j \<Longrightarrow> rd32 (wr32s d k f n) j = rd32 d j"
  by (induction n) (auto simp: wr32s_Suc)

end
