(* ===== verification/Log.thy ===== *)
theory Log
  imports Cache Cstruct
begin

text \<open>
  The file system's write-ahead log, \<open>kernel/log.c\<close>. The on-disk header is the first block
  of the log; its fields are read and written as little-endian integers. A block of data is
  copied whole, as \<open>memmove\<close> of \<open>BSIZE\<close> bytes does with \<open>data[BSIZE]\<close>. A process that
  waits in \<open>begin_op\<close> continues with \<open>begin_op_back\<close>. Lemmas show the operations' effect on
  the disk's contents; the two main results are that a crash at any moment of a commit leaves
  all or nothing of the transaction, and that recovery may itself be interrupted.
\<close>

section \<open>State\<close>

definition MAXOPBLOCKS :: int where "MAXOPBLOCKS = 10"
definition LOGSIZE :: int where "LOGSIZE = MAXOPBLOCKS * 3"

record superblock =
  sb_magic :: uint
  sb_size :: uint
  sb_nblocks :: uint
  sb_ninodes :: uint
  sb_nlog :: uint
  sb_logstart :: uint
  sb_inodestart :: uint
  sb_bmapstart :: uint

record log_state = disk_state +
  log_start :: uint
  log_size :: int
  log_outstanding :: int
  log_committing :: bool
  log_dev :: uint
  lh_n :: int
  lh_block :: "nat \<Rightarrow> uint"

section \<open>Operations\<close>

definition install_one :: "bool \<Rightarrow> nat \<Rightarrow> 'a log_state_scheme \<Rightarrow> ('a log_state_scheme, unit) res" where
  "install_one recovering tail s =
     res_bind (bread (log_dev s) (log_start s + of_nat tail + 1) s) (\<lambda>lbuf s.
     res_bind (bread (log_dev s) (lh_block s tail) s) (\<lambda>dbuf s.
     let s = upd_buf dbuf (\<lambda>x. x\<lparr>b_data := b_data (bufs s lbuf)\<rparr>) s in
     res_bind (bwrite dbuf s) (\<lambda>_ s.
     res_bind (if \<not> recovering then bunpin dbuf s else Ret () s) (\<lambda>_ s.
     res_bind (brelse lbuf s) (\<lambda>_ s.
     brelse dbuf s)))))"

definition install_trans :: "bool \<Rightarrow> 'a log_state_scheme \<Rightarrow> ('a log_state_scheme, unit) res" where
  "install_trans recovering s = res_for [0..<nat (lh_n s)] (install_one recovering) s"

definition read_head :: "'a log_state_scheme \<Rightarrow> ('a log_state_scheme, unit) res" where
  "read_head s =
     res_bind (bread (log_dev s) (log_start s) s) (\<lambda>buf s.
     let lh = b_data (bufs s buf);
         s = s\<lparr>lh_n := sint (rd32 lh 0)\<rparr>;
         s = fold (\<lambda>i s. s\<lparr>lh_block := (lh_block s)(i := rd32 lh (4 + 4 * i))\<rparr>) [0..<nat (lh_n s)] s
     in brelse buf s)"

definition write_head :: "'a log_state_scheme \<Rightarrow> ('a log_state_scheme, unit) res" where
  "write_head s =
     res_bind (bread (log_dev s) (log_start s) s) (\<lambda>buf s.
     let s = upd_buf buf (\<lambda>x. x\<lparr>b_data := wr32 (b_data x) 0 (word_of_int (lh_n s))\<rparr>) s;
         s = upd_buf buf (\<lambda>x. x\<lparr>b_data := wr32s (b_data x) 4 (lh_block s) (nat (lh_n s))\<rparr>) s in
     res_bind (bwrite buf s) (\<lambda>_ s.
     brelse buf s))"

definition recover_from_log :: "'a log_state_scheme \<Rightarrow> ('a log_state_scheme, unit) res" where
  "recover_from_log s =
     res_bind (read_head s) (\<lambda>_ s.
     res_bind (install_trans True s) (\<lambda>_ s.
     write_head (s\<lparr>lh_n := 0\<rparr>)))"

definition initlog :: "uint \<Rightarrow> superblock \<Rightarrow> 'a log_state_scheme \<Rightarrow> ('a log_state_scheme, unit) res" where
  "initlog dev sb s =
     (if int BSIZE \<le> 4 + 4 * LOGSIZE then Panic ''initlog: too big logheader''
      else
        let s = initlock Log_lock ''log'' s;
            s = s\<lparr>log_start := sb_logstart sb, log_size := sint (sb_nlog sb), log_dev := dev\<rparr>
        in recover_from_log s)"

text \<open>One round of the loop of \<open>begin_op\<close>\<close>

definition begin_op_loop :: "'a log_state_scheme \<Rightarrow> ('a log_state_scheme, unit) res" where
  "begin_op_loop s =
     (if log_committing s then sleep Chan_log Log_lock s
      else if lh_n s + (log_outstanding s + 1) * MAXOPBLOCKS > LOGSIZE then sleep Chan_log Log_lock s
      else release Log_lock (s\<lparr>log_outstanding := log_outstanding s + 1\<rparr>))"

definition begin_op :: "'a log_state_scheme \<Rightarrow> ('a log_state_scheme, unit) res" where
  "begin_op s = res_bind (acquire Log_lock s) (\<lambda>_ s. begin_op_loop s)"

definition begin_op_back :: "bool \<Rightarrow> nat \<Rightarrow> 'a log_state_scheme \<Rightarrow> ('a log_state_scheme, unit) res" where
  "begin_op_back ie p s = res_bind (sleep_back ie p Log_lock s) (\<lambda>_ s. begin_op_loop s)"

definition write_log_one :: "nat \<Rightarrow> 'a log_state_scheme \<Rightarrow> ('a log_state_scheme, unit) res" where
  "write_log_one tail s =
     res_bind (bread (log_dev s) (log_start s + of_nat tail + 1) s) (\<lambda>to s.
     res_bind (bread (log_dev s) (lh_block s tail) s) (\<lambda>from s.
     let s = upd_buf to (\<lambda>x. x\<lparr>b_data := b_data (bufs s from)\<rparr>) s in
     res_bind (bwrite to s) (\<lambda>_ s.
     res_bind (brelse from s) (\<lambda>_ s.
     brelse to s))))"

definition write_log :: "'a log_state_scheme \<Rightarrow> ('a log_state_scheme, unit) res" where
  "write_log s = res_for [0..<nat (lh_n s)] write_log_one s"

definition commit :: "'a log_state_scheme \<Rightarrow> ('a log_state_scheme, unit) res" where
  "commit s =
     (if lh_n s > 0 then
        res_bind (write_log s) (\<lambda>_ s.
        res_bind (write_head s) (\<lambda>_ s.
        res_bind (install_trans False s) (\<lambda>_ s.
        write_head (s\<lparr>lh_n := 0\<rparr>))))
      else Ret () s)"

definition end_op :: "'a log_state_scheme \<Rightarrow> ('a log_state_scheme, unit) res" where
  "end_op s =
     res_bind (acquire Log_lock s) (\<lambda>_ s.
     let s = s\<lparr>log_outstanding := log_outstanding s - 1\<rparr> in
     if log_committing s then Panic ''log.committing''
     else
       res_bind
         (if log_outstanding s = 0 then Ret True (s\<lparr>log_committing := True\<rparr>)
          else res_bind (wakeup Chan_log s) (\<lambda>_ s. Ret False s)) (\<lambda>do_commit s.
       res_bind (release Log_lock s) (\<lambda>_ s.
       if do_commit then
         res_bind (commit s) (\<lambda>_ s.
         res_bind (acquire Log_lock s) (\<lambda>_ s.
         res_bind (wakeup Chan_log (s\<lparr>log_committing := False\<rparr>)) (\<lambda>_ s.
         release Log_lock s)))
       else Ret () s)))"

definition log_write :: "nat \<Rightarrow> 'a log_state_scheme \<Rightarrow> ('a log_state_scheme, unit) res" where
  "log_write b s =
     res_bind (acquire Log_lock s) (\<lambda>_ s.
     if lh_n s \<ge> LOGSIZE \<or> lh_n s \<ge> log_size s - 1 then Panic ''too big a transaction''
     else if log_outstanding s < 1 then Panic ''log_write outside of trans''
     else
       let blockno = b_blockno (bufs s b);
           i = length (takeWhile (\<lambda>i. lh_block s i \<noteq> blockno) [0..<nat (lh_n s)]);
           s = s\<lparr>lh_block := (lh_block s)(i := blockno)\<rparr> in
       res_bind
         (if int i = lh_n s then
            res_bind (bpin b s) (\<lambda>_ s. Ret () (s\<lparr>lh_n := lh_n s + 1\<rparr>))
          else Ret () s) (\<lambda>_ s.
       release Log_lock s))"

section \<open>Sequences of block writes\<close>

definition apply_writes :: "(nat \<times> block) list \<Rightarrow> (nat \<Rightarrow> block) \<Rightarrow> nat \<Rightarrow> block" where
  "apply_writes ws img = fold (\<lambda>(n, d) img. img(n := d)) ws img"

lemma apply_writes_simps [simp]:
  "apply_writes [] img = img"
  "apply_writes ((n, d) # ws) img = apply_writes ws (img(n := d))"
  "apply_writes (ws @ ws') img = apply_writes ws' (apply_writes ws img)"
  by (simp_all add: apply_writes_def)

lemma apply_writes_map_of: "apply_writes ws img n = (case map_of (rev ws) n of Some d \<Rightarrow> d | None \<Rightarrow> img n)"
  by (induction ws arbitrary: img rule: rev_induct) (auto split: option.split)

lemma apply_writes_other: "n \<notin> fst ` set ws \<Longrightarrow> apply_writes ws img n = img n"
  by (simp add: apply_writes_map_of map_of_eq_None_iff split: option.split) (metis map_of_eq_None_iff option.distinct(1) set_rev)

lemma apply_writes_over: "fst ` set ws' \<subseteq> fst ` set ws \<Longrightarrow> apply_writes ws (apply_writes ws' img) = apply_writes ws img"
proof
  fix n assume sub: "fst ` set ws' \<subseteq> fst ` set ws"
  show "apply_writes ws (apply_writes ws' img) n = apply_writes ws img n"
  proof (cases "n \<in> fst ` set ws")
    case True
    then obtain d where "map_of (rev ws) n = Some d" using map_of_eq_None_iff [of "rev ws" n] by auto
    then show ?thesis by (simp add: apply_writes_map_of [of ws])
  next
    case False
    then have "n \<notin> fst ` set ws'" using sub by blast
    then show ?thesis using False by (simp add: apply_writes_other)
  qed
qed

lemma apply_writes_inj:
  assumes "inj_on c {..<n}" and "k < n"
  shows "apply_writes (map (\<lambda>k. (c k, d k)) [0..<n]) img (c k) = d k"
  using assms
proof (induction n)
  case (Suc n)
  show ?case
  proof (cases "k = n")
    case False
    then have "c n \<noteq> c k" using Suc.prems by (auto simp: inj_on_def)
    moreover have "inj_on c {..<n}" using Suc.prems(1) by (rule inj_on_subset) auto
    ultimately show ?thesis using Suc False by simp
  qed simp
qed simp

lemma res_for_upto:
  assumes "I 0 s" and "\<And>k s. k < n \<Longrightarrow> I k s \<Longrightarrow> \<exists>t. f k s = Ret () t \<and> I (Suc k) t"
  shows "\<exists>t. res_for [0..<n] f s = Ret () t \<and> I n t"
  using assms(2)
proof (induction n)
  case 0
  then show ?case using assms(1) by simp
next
  case (Suc n)
  then obtain t where "res_for [0..<n] f s = Ret () t" "I n t" by auto
  moreover from this obtain u where "f n t = Ret () u" "I (Suc n) u" using Suc.prems by blast
  ultimately show ?case by (simp add: res_for_append)
qed

section \<open>The log's fields and the cache\<close>

lemma log_frame:
  assumes "bio_frame s t"
  shows "log_start t = log_start s" "log_size t = log_size s" "log_outstanding t = log_outstanding s"
    "log_committing t = log_committing s" "log_dev t = log_dev s" "lh_n t = lh_n s" "lh_block t = lh_block s"
proof -
  have e: "t = s\<lparr>cpus := cpus t, proc := proc t, sleeplocks := sleeplocks t, bufs := bufs t, vq := vq t,
       vfree := vfree t, vused_idx := vused_idx t, vinfo_b := vinfo_b t, mmio_log := mmio_log t, disk_img := disk_img t,
       disk_hist := disk_hist t\<rparr>" using assms by (simp add: bio_frame_def)
  show "log_start t = log_start s" "log_size t = log_size s" "log_outstanding t = log_outstanding s"
    "log_committing t = log_committing s" "log_dev t = log_dev s" "lh_n t = lh_n s" "lh_block t = lh_block s"
    by (subst e, simp)+
qed

lemma cache_log_fields [simp]:
  "cache_ok P (s\<lparr>lh_n := x\<rparr>) = cache_ok P s" "cache_ok P (s\<lparr>lh_block := y\<rparr>) = cache_ok P s"
  "cache_ok P (s\<lparr>log_outstanding := z\<rparr>) = cache_ok P s" "cache_ok P (s\<lparr>log_committing := c\<rparr>) = cache_ok P s"
  "held (s\<lparr>lh_n := x\<rparr>) = held s" "held (s\<lparr>lh_block := y\<rparr>) = held s"
  "held (s\<lparr>log_outstanding := z\<rparr>) = held s" "held (s\<lparr>log_committing := c\<rparr>) = held s"
  "view (s\<lparr>lh_n := x\<rparr>) = view s" "view (s\<lparr>lh_block := y\<rparr>) = view s"
  "view (s\<lparr>log_outstanding := z\<rparr>) = view s" "view (s\<lparr>log_committing := c\<rparr>) = view s"
  by (simp_all add: cache_ok_def bio_ok_def calm_def vdisk_ok_def holds_def held_def view_def fun_eq_iff split: option.split)

section \<open>What the steps of a commit do\<close>

lemma cache_bread2:
  assumes ok: "cache_ok P s" "held s = {}" and fin: "finite P" "card P < NBUF" "n \<in> P \<or> Suc (card P) < NBUF"
    and a: "unat ba = m" "m < 2 ^ 31" and c: "unat bc = n" "n < 2 ^ 31" and ne: "m \<noteq> n"
  shows "\<exists>x y t u. bread ROOTDEV ba s = Ret x t \<and> bread ROOTDEV bc t = Ret y u \<and> cache_ok P u \<and> bio_frame s t \<and> bio_frame s u
    \<and> x \<noteq> y \<and> held u = {x, y} \<and> is_block (bufs u x) m \<and> is_block (bufs u y) n
    \<and> b_data (bufs u x) = view s m \<and> b_data (bufs u y) = view s n \<and> view u = view s
    \<and> disk_img u = disk_img s \<and> disk_hist u = disk_hist s"
proof -
  obtain x t where t: "bread ROOTDEV ba s = Ret x t" "cache_ok P t" "bio_frame s t" "x < NBUF" "held t = {x}" "is_block (bufs t x) m"
    "b_data (bufs t x) = view s m" "view t = view s" "disk_img t = disk_img s" "disk_hist t = disk_hist s"
    using cache_bread [OF ok(1) a] fin ok(2) by auto
  have "\<forall>i\<in>held t. \<not> is_block (bufs t i) n" "n \<in> P \<or> finite P \<and> card (held t) + card P < NBUF"
    using t(5,6) ne fin by auto
  from cache_bread [OF t(2) c this(2,1)]
  obtain y u where u: "bread ROOTDEV bc t = Ret y u" "cache_ok P u" "bio_frame t u" "y \<notin> held t" "held u = insert y (held t)"
    "is_block (bufs u y) n" "b_data (bufs u y) = view t n" "view u = view t" "disk_img u = disk_img t" "disk_hist u = disk_hist t"
    "\<forall>i. i \<noteq> y \<longrightarrow> bufs u i = bufs t i" by blast
  have "x \<noteq> y" using u(4) t(5) by auto
  then have "bufs u x = bufs t x" using u(11) by blast
  then show ?thesis using t u \<open>x \<noteq> y\<close> bio_frame_trans [OF t(3) u(3)]
    by (intro exI [of _ x] exI [of _ y] exI [of _ t] exI [of _ u]) auto
qed

lemma write_log_one_spec:
  assumes ok: "cache_ok P s" "held s = {}" and fin: "finite P" "card P < NBUF" and dev: "log_dev s = ROOTDEV"
    and a: "unat (log_start s + of_nat k + 1) = m" "m < 2 ^ 31" and c: "unat (lh_block s k) = n" "n < 2 ^ 31" "n \<in> P" and ne: "m \<noteq> n"
  shows "\<exists>t. write_log_one k s = Ret () t \<and> cache_ok P t \<and> held t = {} \<and> bio_frame s t \<and> view t = (view s)(m := view s n)
    \<and> disk_img t = (disk_img s)(m := view s n) \<and> disk_hist t = disk_hist s @ [(m, view s n)]"
proof -
  obtain x y t u where u: "bread ROOTDEV (log_start s + of_nat k + 1) s = Ret x t" "bread ROOTDEV (lh_block s k) t = Ret y u" "cache_ok P u"
    "bio_frame s t" "bio_frame s u" "x \<noteq> y" "held u = {x, y}" "is_block (bufs u x) m" "is_block (bufs u y) n"
    "b_data (bufs u x) = view s m" "b_data (bufs u y) = view s n" "view u = view s"
    "disk_img u = disk_img s" "disk_hist u = disk_hist s"
    using cache_bread2 [OF ok fin _ a c(1,2) ne] c(3) by blast
  define v where "v = upd_buf x (\<lambda>z. z\<lparr>b_data := b_data (bufs u y)\<rparr>) u"
  have "x \<in> held u" using u(7) by simp
  note v = cache_set_data [OF u(3) this u(8), of "b_data (bufs u y)", folded v_def]
  have vx: "x \<in> held v" "is_block (bufs v x) m" "b_data (bufs v x) = view s n" and vy: "is_block (bufs v y) n" "y \<in> held v"
    using v(4,5) u(6-9,11) by simp_all
  obtain w where w: "bwrite x v = Ret () w" "cache_ok P w" "bio_frame v w" "view w = view v" "held w = held v" "bufs w = bufs v"
    "disk_img w = (disk_img v)(m := view s n)" "disk_hist w = disk_hist v @ [(m, view s n)]"
    using cache_bwrite [OF v(1) vx(1,2) a(2)] vx(3) by auto
  have "y \<in> held w" "is_block (bufs w y) n" using w(5,6) vy by simp_all
  from cache_brelse [OF w(2) this disjI1 [OF c(3)]]
  obtain r where r: "brelse y w = Ret () r" "cache_ok P r" "bio_frame w r" "view r = view w" "held r = held w - {y}"
    "disk_img r = disk_img w" "disk_hist r = disk_hist w" "\<forall>i m. is_block (bufs r i) m = is_block (bufs w i) m"
    "\<forall>i. b_data (bufs r i) = b_data (bufs w i)" by blast
  have "x \<in> held r" "is_block (bufs r x) m" "b_data (bufs r x) = disk_img r m"
    using r(5,6,8,9) w(5,6,7) vx u(6) by auto
  from cache_brelse [OF r(2) this(1,2) disjI2 [OF this(3)]]
  obtain z where z: "brelse x r = Ret () z" "cache_ok P z" "bio_frame r z" "view z = view r" "held z = held r - {x}"
    "disk_img z = disk_img r" "disk_hist z = disk_hist r" by blast
  have "write_log_one k s = Ret () z"
    unfolding write_log_one_def dev u(1) using u(2) dev w(1) r(1) z(1) log_frame [OF u(4)] by (simp add: v_def)
  moreover have "bio_frame s z" using u(5) v(2) w(3) r(3) z(3) bio_frame_trans by blast
  moreover have "held z = {}" using z(5) r(5) w(5) v(4) u(7) by auto
  ultimately show ?thesis using z r w v u by auto
qed

lemma install_one_spec:
  assumes ok: "cache_ok P s" "held s = {}" and fin: "finite P" "card P < NBUF" "n \<in> P \<or> Suc (card P) < NBUF" and dev: "log_dev s = ROOTDEV"
    and a: "unat (log_start s + of_nat k + 1) = m" "m < 2 ^ 31" "m \<notin> P" and c: "unat (lh_block s k) = n" "n < 2 ^ 31"
    and ne: "m \<noteq> n" and rc: "rc = (n \<notin> P)"
  shows "\<exists>t. install_one rc k s = Ret () t \<and> cache_ok (P - {n}) t \<and> held t = {} \<and> bio_frame s t \<and> view t = (view s)(n := view s m)
    \<and> disk_img t = (disk_img s)(n := view s m) \<and> disk_hist t = disk_hist s @ [(n, view s m)]"
proof -
  obtain x y t u where u: "bread ROOTDEV (log_start s + of_nat k + 1) s = Ret x t" "bread ROOTDEV (lh_block s k) t = Ret y u" "cache_ok P u"
    "bio_frame s t" "bio_frame s u" "x \<noteq> y" "held u = {x, y}" "is_block (bufs u x) m" "is_block (bufs u y) n"
    "b_data (bufs u x) = view s m" "b_data (bufs u y) = view s n" "view u = view s"
    "disk_img u = disk_img s" "disk_hist u = disk_hist s"
    using cache_bread2 [OF ok fin a(1,2) c ne] by blast
  define v where "v = upd_buf y (\<lambda>z. z\<lparr>b_data := b_data (bufs u x)\<rparr>) u"
  have "y \<in> held u" using u(7) by simp
  note v = cache_set_data [OF u(3) this u(9), of "b_data (bufs u x)", folded v_def]
  have vx: "x \<in> held v" "is_block (bufs v x) m" "b_data (bufs v x) = view s m"
    and vy: "is_block (bufs v y) n" "y \<in> held v" "b_data (bufs v y) = view s m"
    using v(4,5) u(6-10) by simp_all
  obtain w where w: "bwrite y v = Ret () w" "cache_ok P w" "bio_frame v w" "view w = view v" "held w = held v" "bufs w = bufs v"
    "disk_img w = (disk_img v)(n := view s m)" "disk_hist w = disk_hist v @ [(n, view s m)]"
    using cache_bwrite [OF v(1) vy(2,1) c(2)] vy(3) by auto
  have wy: "y \<in> held w" "is_block (bufs w y) n" using w(5,6) vy by simp_all
  define p where "p = settle w\<lparr>bufs := (bufs w)(y := (bufs w y)\<lparr>b_refcnt := 1 + of_bool (n \<in> P - {n})\<rparr>)\<rparr>"
  have pq: "\<exists>q. (if \<not> rc then bunpin y w else Ret () w) = Ret () q \<and> cache_ok (P - {n}) q \<and> bio_frame w q \<and> view q = view w
    \<and> held q = held w \<and> disk_img q = disk_img w \<and> disk_hist q = disk_hist w
    \<and> (\<forall>i m. is_block (bufs q i) m = is_block (bufs w i) m) \<and> (\<forall>i. b_data (bufs q i) = b_data (bufs w i))"
  proof (cases "n \<in> P")
    case True
    have "P - {n} - {n} = P - {n}" by simp
    note p = cache_repin [OF w(2) wy this, folded p_def]
    have "y < NBUF" "slocked y w" using wy(1) by (simp_all add: held_def)
    then have "b_refcnt (bufs w y) = 2" using cache_okD(4) [OF w(2)] wy(2) True by simp
    then have "bunpin y w = Ret () p" using bunpin_eq [OF cache_okD(2) [OF w(2)]] by (simp add: p_def)
    then show ?thesis using p True rc by (intro exI [of _ p]) (simp add: p_def)
  next
    case False
    then show ?thesis using rc w(2) by (intro exI [of _ w]) simp
  qed
  then obtain q where q: "(if \<not> rc then bunpin y w else Ret () w) = Ret () q" "cache_ok (P - {n}) q" "bio_frame w q" "view q = view w"
    "held q = held w" "disk_img q = disk_img w" "disk_hist q = disk_hist w" "\<forall>i m. is_block (bufs q i) m = is_block (bufs w i) m"
    "\<forall>i. b_data (bufs q i) = b_data (bufs w i)" by blast
  have "view s m = disk_img s m" using view_clean [OF ok(1) a(3)] ok(2) by simp
  then have "x \<in> held q" "is_block (bufs q x) m" "b_data (bufs q x) = disk_img q m"
    using q(5,6,8,9) w(5,6,7) vx u(13) v(6) ne by auto
  from cache_brelse [OF q(2) this(1,2) disjI2 [OF this(3)]]
  obtain r where r: "brelse x q = Ret () r" "cache_ok (P - {n}) r" "bio_frame q r" "view r = view q" "held r = held q - {x}"
    "disk_img r = disk_img q" "disk_hist r = disk_hist q" "\<forall>i m. is_block (bufs r i) m = is_block (bufs q i) m"
    "\<forall>i. b_data (bufs r i) = b_data (bufs q i)" by blast
  have "y \<in> held r" "is_block (bufs r y) n" "b_data (bufs r y) = disk_img r n"
    using r(5,6,8,9) q(5,6,8,9) w(5,6,7) vy u(6) by auto
  from cache_brelse [OF r(2) this(1,2) disjI2 [OF this(3)]]
  obtain z where z: "brelse y r = Ret () z" "cache_ok (P - {n}) z" "bio_frame r z" "view z = view r" "held z = held r - {y}"
    "disk_img z = disk_img r" "disk_hist z = disk_hist r" by blast
  have "install_one rc k s = Ret () z"
    unfolding install_one_def dev u(1) using u(2) dev w(1) q(1) r(1) z(1) log_frame [OF u(4)] by (simp add: v_def)
  moreover have "bio_frame s z" using u(5) v(2) w(3) q(3) r(3) z(3) bio_frame_trans by blast
  moreover have "held z = {}" using z(5) r(5) q(5) w(5) v(4) u(7) by auto
  ultimately show ?thesis using z r q w v u by auto
qed

section \<open>Commit\<close>

text \<open>
  The log lies in blocks \<open>L\<close> to \<open>L + Z - 1\<close>; a header with \<open>n\<close> entries \<open>f\<close> fits it, and
  the blocks it names are outside.
\<close>

definition log_fits :: "nat \<Rightarrow> nat \<Rightarrow> nat \<Rightarrow> (nat \<Rightarrow> uint) \<Rightarrow> bool" where
  "log_fits L Z n f \<longleftrightarrow> L + Z < 2 ^ 31 \<and> n < Z \<and> int Z \<le> LOGSIZE
     \<and> (\<forall>k<n. unat (f k) < 2 ^ 31 \<and> unat (f k) \<notin> {L..<L + Z})"

abbreviation lhome :: "'a log_state_scheme \<Rightarrow> nat \<Rightarrow> nat" where
  "lhome s k \<equiv> unat (lh_block s k)"

definition logged :: "'a log_state_scheme \<Rightarrow> nat set" where
  "logged s = lhome s ` {..<nat (lh_n s)}"

lemma log_fitsD:
  fixes w :: uint
  assumes "log_fits L Z n f" and "unat w = L" and "k < n"
  shows "unat (w + of_nat k + 1) = Suc (L + k)" "Suc (L + k) < 2 ^ 31" "Suc (L + k) \<in> {L..<L + Z}"
    "unat (f k) < 2 ^ 31" "unat (f k) \<notin> {L..<L + Z}" "Suc (L + j) \<noteq> unat (f k) \<or> n \<le> j"
proof -
  have b: "L + Z < 2 ^ 31" "n < Z" using assms(1) by (simp_all add: log_fits_def)
  have "w = of_nat L" using assms(2) by auto
  then have e: "w + of_nat k + 1 = of_nat (Suc (L + k))" by simp
  have "Suc (L + k) < 2 ^ 32" using b assms(3) by simp
  then show "unat (w + of_nat k + 1) = Suc (L + k)" unfolding e by (rule unat_of_nat_32)
  show "Suc (L + k) < 2 ^ 31" "Suc (L + k) \<in> {L..<L + Z}" using b assms(3) by auto
  show f: "unat (f k) < 2 ^ 31" "unat (f k) \<notin> {L..<L + Z}" using assms by (auto simp: log_fits_def)
  show "Suc (L + j) \<noteq> unat (f k) \<or> n \<le> j" using f(2) b by auto
qed

lemma card_logged: "inj_on (lhome s) {..<nat (lh_n s)} \<Longrightarrow> card (logged s) = nat (lh_n s)"
  by (simp add: logged_def card_image)

lemma finite_logged [simp]: "finite (logged s)"
  by (simp add: logged_def)

lemma write_log_spec:
  assumes ok: "cache_ok (logged s) s" "held s = {}" and dev: "log_dev s = ROOTDEV" and L: "unat (log_start s) = L"
    and fits: "log_fits L Z (nat (lh_n s)) (lh_block s)" and inj: "inj_on (lhome s) {..<nat (lh_n s)}"
  defines "ws \<equiv> map (\<lambda>k. (Suc (L + k), view s (lhome s k))) [0..<nat (lh_n s)]"
  shows "\<exists>t. write_log s = Ret () t \<and> cache_ok (logged s) t \<and> held t = {} \<and> bio_frame s t
    \<and> view t = apply_writes ws (view s) \<and> disk_img t = apply_writes ws (disk_img s) \<and> disk_hist t = disk_hist s @ ws"
proof -
  define W where "W = (\<lambda>k. map (\<lambda>k. (Suc (L + k), view s (lhome s k))) [0..<k])"
  define I where "I = (\<lambda>k t. cache_ok (logged s) t \<and> held t = {} \<and> bio_frame s t
    \<and> view t = apply_writes (W k) (view s) \<and> disk_img t = apply_writes (W k) (disk_img s) \<and> disk_hist t = disk_hist s @ W k)"
  have card: "card (logged s) < NBUF"
    using card_logged [OF inj] fits by (auto simp: log_fits_def LOGSIZE_def MAXOPBLOCKS_def NBUF_def split: if_splits)
  have "\<exists>t. res_for [0..<nat (lh_n s)] write_log_one s = Ret () t \<and> I (nat (lh_n s)) t"
  proof (rule res_for_upto)
    show "I 0 s" using ok by (simp add: I_def W_def)
  next
    fix k t assume k: "k < nat (lh_n s)" and I: "I k t"
    then have t: "cache_ok (logged s) t" "held t = {}" "bio_frame s t" "view t = apply_writes (W k) (view s)"
      "disk_img t = apply_writes (W k) (disk_img s)" "disk_hist t = disk_hist s @ W k" by (simp_all add: I_def)
    note f = log_fitsD [OF fits L k]
    have "lhome s k \<noteq> Suc (L + j)" if "j < k" for j using f(6) [of j] k that by linarith
    then have "lhome s k \<notin> fst ` set (W k)" by (simp add: W_def image_iff)
    then have "view t (lhome s k) = view s (lhome s k)" unfolding t(4) by (intro apply_writes_other) simp
    moreover have "lhome s k \<in> logged s" using k by (auto simp: logged_def)
    moreover note write_log_one_spec [OF t(1,2) finite_logged card, of k "Suc (L + k)" "lhome s k"]
    ultimately show "\<exists>u. write_log_one k t = Ret () u \<and> I (Suc k) u"
      using f(1-5) k dev log_frame [OF t(3)] t bio_frame_trans [OF t(3)] by (auto simp: I_def W_def)
  qed
  then show ?thesis by (simp add: write_log_def I_def W_def ws_def)
qed

lemma install_trans_spec:
  assumes ok: "cache_ok P s" "held s = {}" and dev: "log_dev s = ROOTDEV" and L: "unat (log_start s) = L"
    and fits: "log_fits L Z (nat (lh_n s)) (lh_block s)"
    and P: "if rc then P = {} else P = logged s \<and> inj_on (lhome s) {..<nat (lh_n s)}"
  defines "ws \<equiv> map (\<lambda>k. (lhome s k, view s (Suc (L + k)))) [0..<nat (lh_n s)]"
  shows "\<exists>t. install_trans rc s = Ret () t \<and> cache_ok {} t \<and> held t = {} \<and> bio_frame s t
    \<and> view t = apply_writes ws (view s) \<and> disk_img t = apply_writes ws (disk_img s) \<and> disk_hist t = disk_hist s @ ws"
proof -
  define W where "W = (\<lambda>k. map (\<lambda>k. (lhome s k, view s (Suc (L + k)))) [0..<k])"
  define Q where "Q = (\<lambda>k. P - lhome s ` {..<k})"
  define I where "I = (\<lambda>k t. cache_ok (Q k) t \<and> held t = {} \<and> bio_frame s t
    \<and> view t = apply_writes (W k) (view s) \<and> disk_img t = apply_writes (W k) (disk_img s) \<and> disk_hist t = disk_hist s @ W k)"
  have fin: "finite P" using P by (auto split: if_splits)
  have card: "card P < NBUF"
    using P card_logged [of s] fits by (auto simp: log_fits_def LOGSIZE_def MAXOPBLOCKS_def NBUF_def split: if_splits)
  have "\<exists>t. res_for [0..<nat (lh_n s)] (install_one rc) s = Ret () t \<and> I (nat (lh_n s)) t"
  proof (rule res_for_upto)
    show "I 0 s" using ok by (simp add: I_def W_def Q_def)
  next
    fix k t assume k: "k < nat (lh_n s)" and I: "I k t"
    then have t: "cache_ok (Q k) t" "held t = {}" "bio_frame s t" "view t = apply_writes (W k) (view s)"
      "disk_img t = apply_writes (W k) (disk_img s)" "disk_hist t = disk_hist s @ W k" by (simp_all add: I_def)
    note f = log_fitsD [OF fits L k]
    have "Suc (L + k) \<noteq> lhome s j" if "j < nat (lh_n s)" for j using log_fitsD(6) [OF fits L that, of k] k by simp
    then have nl: "Suc (L + k) \<notin> lhome s ` {..<nat (lh_n s)}" by blast
    have v: "view t (Suc (L + k)) = view s (Suc (L + k))" unfolding t(4)
      by (rule apply_writes_other) (use nl k in \<open>auto simp: W_def image_iff\<close>)
    have "Suc (L + k) \<notin> Q k" using nl P by (auto simp: Q_def logged_def split: if_splits)
    moreover have ni: "\<not> rc \<Longrightarrow> lhome s k \<in> Q k" using P k by (fastforce simp: Q_def logged_def inj_on_def)
    then have "rc = (lhome s k \<notin> Q k)" using P by (cases rc) (auto simp: Q_def)
    moreover have "finite (Q k)" "card (Q k) < NBUF" using fin card card_mono [OF fin, of "Q k"] by (auto simp: Q_def)
    moreover have "lhome s k \<in> Q k \<or> Suc (card (Q k)) < NBUF"
      using P ni by (cases rc) (simp_all add: Q_def NBUF_def)
    moreover have "Q (Suc k) = Q k - {lhome s k}" by (auto simp: Q_def lessThan_Suc)
    moreover have "Suc (L + k) \<noteq> lhome s k" using f(6) k by auto
    ultimately show "\<exists>u. install_one rc k t = Ret () u \<and> I (Suc k) u"
      using install_one_spec [OF t(1,2), of "lhome s k" k "Suc (L + k)" rc] f(1,2,4) dev log_frame [OF t(3)] t v
        bio_frame_trans [OF t(3)] by (auto simp: I_def W_def)
  qed
  moreover have "Q (nat (lh_n s)) = {}" using P by (auto simp: Q_def logged_def split: if_splits)
  ultimately show ?thesis by (simp add: install_trans_def I_def W_def ws_def)
qed

definition head_bytes :: "block \<Rightarrow> int \<Rightarrow> (nat \<Rightarrow> uint) \<Rightarrow> block" where
  "head_bytes d n f = wr32s (wr32 d 0 (word_of_int n)) 4 f (nat n)"

lemma head_bytes_roundtrip:
  "0 \<le> n \<Longrightarrow> n < 2 ^ 31 \<Longrightarrow> sint (rd32 (head_bytes d n f) 0) = n"
  "k < nat n \<Longrightarrow> rd32 (head_bytes d n f) (4 + 4 * k) = f k"
proof -
  assume n: "0 \<le> n" "n < 2 ^ 31"
  then obtain m where m: "n = int m" "m < 2 ^ 31" using zero_le_imp_eq_int by force
  have "rd32 (head_bytes d n f) 0 = of_nat m" by (simp add: head_bytes_def rd32_wr32s_other m)
  moreover have "unat (of_nat m :: uint) = m" using m(2) by simp
  ultimately show "sint (rd32 (head_bytes d n f) 0) = n" using m by (simp add: sint_32)
qed (simp add: head_bytes_def rd32_wr32s)

lemma write_head_spec:
  assumes ok: "cache_ok P s" "held s = {}" and dev: "log_dev s = ROOTDEV" and L: "unat (log_start s) = L" "L < 2 ^ 31"
    and P: "finite P" "card P < NBUF"
  defines "d \<equiv> head_bytes (view s L) (lh_n s) (lh_block s)"
  shows "\<exists>t. write_head s = Ret () t \<and> cache_ok P t \<and> held t = {} \<and> bio_frame s t
    \<and> view t = (view s)(L := d) \<and> disk_img t = (disk_img s)(L := d) \<and> disk_hist t = disk_hist s @ [(L, d)]"
proof -
  have "L \<in> P \<or> finite P \<and> card (held s) + card P < NBUF" "\<forall>i\<in>held s. \<not> is_block (bufs s i) L" using P ok(2) by auto
  from cache_bread [OF ok(1) L this]
  obtain b t where t: "bread ROOTDEV (log_start s) s = Ret b t" "cache_ok P t" "bio_frame s t" "b < NBUF" "held t = {b}" "is_block (bufs t b) L"
    "b_data (bufs t b) = view s L" "view t = view s" "disk_img t = disk_img s" "disk_hist t = disk_hist s" using ok(2) by auto
  define v where "v = upd_buf b (\<lambda>x. x\<lparr>b_data := d\<rparr>) t"
  have v_eq: "upd_buf b (\<lambda>x. x\<lparr>b_data := wr32s (b_data x) 4 (lh_block s) (nat (lh_n s))\<rparr>)
      (upd_buf b (\<lambda>x. x\<lparr>b_data := wr32 (b_data x) 0 (word_of_int (lh_n s))\<rparr>) t) = v"
    using t(7) by (simp add: v_def upd_buf_def d_def head_bytes_def)
  have "b \<in> held t" using t(5) by simp
  note v = cache_set_data [OF t(2) this t(6), of d, folded v_def]
  have vb: "b \<in> held v" "is_block (bufs v b) L" "b_data (bufs v b) = d" using v(4,5) t(5,6) by simp_all
  obtain w where w: "bwrite b v = Ret () w" "cache_ok P w" "bio_frame v w" "view w = view v" "held w = held v" "bufs w = bufs v"
    "disk_img w = (disk_img v)(L := d)" "disk_hist w = disk_hist v @ [(L, d)]"
    using cache_bwrite [OF v(1) vb(1,2) L(2)] vb(3) by auto
  have "b \<in> held w" "is_block (bufs w b) L" "b_data (bufs w b) = disk_img w L" using w(5-7) vb by simp_all
  from cache_brelse [OF w(2) this(1,2) disjI2 [OF this(3)]]
  obtain z where z: "brelse b w = Ret () z" "cache_ok P z" "bio_frame w z" "view z = view w" "held z = held w - {b}"
    "disk_img z = disk_img w" "disk_hist z = disk_hist w" by blast
  have "lh_n (upd_buf b f t) = lh_n s" "lh_block (upd_buf b f t) = lh_block s" "lh_n t = lh_n s" for f
    using log_frame [OF t(3)] by (simp_all add: upd_buf_def)
  then have "write_head s = Ret () z"
    unfolding write_head_def dev t(1) using w(1) z(1) v_eq by simp
  moreover have "bio_frame s z" using t(3) v(2) w(3) z(3) bio_frame_trans by blast
  moreover have "held z = {}" using z(5) w(5) v(4) t(5) by auto
  ultimately show ?thesis using z w v t by auto
qed

text \<open>The writes of a commit, in order: the log blocks, the header, the home blocks, the empty header.\<close>

definition commit_writes :: "nat \<Rightarrow> int \<Rightarrow> (nat \<Rightarrow> uint) \<Rightarrow> (nat \<Rightarrow> block) \<Rightarrow> (nat \<times> block) list" where
  "commit_writes L n f v =
     map (\<lambda>k. (Suc (L + k), v (unat (f k)))) [0..<nat n] @ [(L, head_bytes (v L) n f)] @
     map (\<lambda>k. (unat (f k), v (unat (f k)))) [0..<nat n] @ [(L, wr32 (head_bytes (v L) n f) 0 0)]"

lemma head_bytes_0 [simp]: "head_bytes d 0 f = wr32 d 0 0"
  by (simp add: head_bytes_def)

lemma bio_frame_lh:
  "bio_frame s t \<Longrightarrow> bio_frame (s\<lparr>lh_n := x\<rparr>) (t\<lparr>lh_n := x\<rparr>)"
  "bio_frame s t \<Longrightarrow> bio_frame (s\<lparr>lh_block := y\<rparr>) (t\<lparr>lh_block := y\<rparr>)"
proof -
  assume a: "bio_frame s t"
  have e: "t = s\<lparr>cpus := cpus t, proc := proc t, sleeplocks := sleeplocks t, bufs := bufs t, vq := vq t,
       vfree := vfree t, vused_idx := vused_idx t, vinfo_b := vinfo_b t, mmio_log := mmio_log t, disk_img := disk_img t,
       disk_hist := disk_hist t\<rparr>" using a by (simp add: bio_frame_def)
  have "t\<lparr>lh_n := x\<rparr> = s\<lparr>lh_n := x, cpus := cpus t, proc := proc t, sleeplocks := sleeplocks t, bufs := bufs t, vq := vq t,
       vfree := vfree t, vused_idx := vused_idx t, vinfo_b := vinfo_b t, mmio_log := mmio_log t, disk_img := disk_img t,
       disk_hist := disk_hist t\<rparr>" by (subst e) simp
  then show "bio_frame (s\<lparr>lh_n := x\<rparr>) (t\<lparr>lh_n := x\<rparr>)" using a by (simp add: bio_frame_def)
  have "t\<lparr>lh_block := y\<rparr> = s\<lparr>lh_block := y, cpus := cpus t, proc := proc t, sleeplocks := sleeplocks t, bufs := bufs t, vq := vq t,
       vfree := vfree t, vused_idx := vused_idx t, vinfo_b := vinfo_b t, mmio_log := mmio_log t, disk_img := disk_img t,
       disk_hist := disk_hist t\<rparr>" by (subst e) simp
  then show "bio_frame (s\<lparr>lh_block := y\<rparr>) (t\<lparr>lh_block := y\<rparr>)" using a by (simp add: bio_frame_def)
qed

lemma commit_spec:
  assumes ok: "cache_ok (logged s) s" "held s = {}" and dev: "log_dev s = ROOTDEV" and L: "unat (log_start s) = L"
    and fits: "log_fits L Z (nat (lh_n s)) (lh_block s)" and inj: "inj_on (lhome s) {..<nat (lh_n s)}" and n: "0 < lh_n s"
  defines "ws \<equiv> commit_writes L (lh_n s) (lh_block s) (view s)"
  shows "\<exists>t. commit s = Ret () t \<and> cache_ok {} t \<and> held t = {} \<and> bio_frame (s\<lparr>lh_n := 0\<rparr>) t
    \<and> view t = apply_writes ws (view s) \<and> disk_img t = apply_writes ws (disk_img s) \<and> disk_hist t = disk_hist s @ ws"
proof -
  let ?n = "nat (lh_n s)"
  let ?v = "view s"
  define W1 where "W1 = map (\<lambda>k. (Suc (L + k), ?v (lhome s k))) [0..<?n]"
  define H where "H = head_bytes (?v L) (lh_n s) (lh_block s)"
  define W2 where "W2 = map (\<lambda>k. (lhome s k, ?v (lhome s k))) [0..<?n]"
  have Lb: "L < 2 ^ 31" using fits by (simp add: log_fits_def)
  have card: "card (logged s) < NBUF"
    using card_logged [OF inj] fits by (auto simp: log_fits_def LOGSIZE_def MAXOPBLOCKS_def NBUF_def split: if_splits)
  obtain t where t: "write_log s = Ret () t" "cache_ok (logged s) t" "held t = {}" "bio_frame s t"
    "view t = apply_writes W1 ?v" "disk_img t = apply_writes W1 (disk_img s)" "disk_hist t = disk_hist s @ W1"
    using write_log_spec [OF ok dev L fits inj] unfolding W1_def by blast
  note tf = log_frame [OF t(4)]
  have "view t L = ?v L" unfolding t(5) by (rule apply_writes_other) (auto simp: W1_def)
  then obtain u where u: "write_head t = Ret () u" "cache_ok (logged s) u" "held u = {}" "bio_frame t u"
    "view u = (view t)(L := H)" "disk_img u = (disk_img t)(L := H)" "disk_hist u = disk_hist t @ [(L, H)]"
    using write_head_spec [OF t(2,3) _ _ Lb finite_logged card] tf dev L by (auto simp: H_def)
  note uf = log_frame [OF u(4)]
  have logu: "logged u = logged s" by (simp add: logged_def tf uf)
  have a: "view u (Suc (L + k)) = ?v (lhome s k)" if "k < ?n" for k
    unfolding u(5) t(5) W1_def using apply_writes_inj [of "\<lambda>k. Suc (L + k)" ?n k] that by (simp add: inj_on_def)
  have "\<exists>v. install_trans False u = Ret () v \<and> cache_ok {} v \<and> held v = {} \<and> bio_frame u v
    \<and> view v = apply_writes W2 (view u) \<and> disk_img v = apply_writes W2 (disk_img u) \<and> disk_hist v = disk_hist u @ W2"
  proof -
    have m: "map (\<lambda>k. (lhome u k, view u (Suc (L + k)))) [0..<nat (lh_n u)] = W2" using a by (simp add: W2_def tf uf)
    have d: "log_dev u = ROOTDEV" "unat (log_start u) = L" "log_fits L Z (nat (lh_n u)) (lh_block u)"
      "if False then logged s = {} else logged s = logged u \<and> inj_on (lhome u) {..<nat (lh_n u)}"
      using dev L fits inj logu by (simp_all add: tf uf)
    from install_trans_spec [OF u(2,3) d] show ?thesis unfolding m .
  qed
  then obtain v where v: "install_trans False u = Ret () v" "cache_ok {} v" "held v = {}" "bio_frame u v"
    "view v = apply_writes W2 (view u)" "disk_img v = apply_writes W2 (disk_img u)" "disk_hist v = disk_hist u @ W2" by blast
  note vf = log_frame [OF v(4)]
  have "lhome s k \<noteq> L" if "k < ?n" for k using log_fitsD(5) [OF fits L that] log_fitsD(3) [OF fits L that] by auto
  then have "L \<notin> fst ` set W2" by (fastforce simp: W2_def)
  then have "view v L = H" unfolding v(5) u(5) by (simp add: apply_writes_other)
  moreover have "cache_ok {} (v\<lparr>lh_n := 0\<rparr>)" "held (v\<lparr>lh_n := 0\<rparr>) = {}" using v by simp_all
  from write_head_spec [OF this _ _ Lb] have
    "\<exists>w. write_head (v\<lparr>lh_n := 0\<rparr>) = Ret () w \<and> cache_ok {} w \<and> held w = {} \<and> bio_frame (v\<lparr>lh_n := 0\<rparr>) w
    \<and> view w = (view v)(L := wr32 (view v L) 0 0) \<and> disk_img w = (disk_img v)(L := wr32 (view v L) 0 0)
    \<and> disk_hist w = disk_hist v @ [(L, wr32 (view v L) 0 0)]" using dev L by (simp add: tf uf vf NBUF_def)
  ultimately obtain w where w: "write_head (v\<lparr>lh_n := 0\<rparr>) = Ret () w" "cache_ok {} w" "held w = {}" "bio_frame (v\<lparr>lh_n := 0\<rparr>) w"
    "view w = (view v)(L := wr32 H 0 0)" "disk_img w = (disk_img v)(L := wr32 H 0 0)" "disk_hist w = disk_hist v @ [(L, wr32 H 0 0)]" by auto
  have ws: "ws = W1 @ [(L, H)] @ W2 @ [(L, wr32 H 0 0)]" by (simp add: ws_def commit_writes_def W1_def W2_def H_def)
  have "commit s = Ret () w" using n t(1) u(1) v(1) w(1) by (simp add: commit_def)
  moreover have "bio_frame s v" using t(4) u(4) v(4) bio_frame_trans by blast
  then have "bio_frame (s\<lparr>lh_n := 0\<rparr>) w" using bio_frame_lh(1) w(4) bio_frame_trans by blast
  ultimately show ?thesis using w(2,3) unfolding ws by (intro exI [of _ w]) (simp add: w(5-7) v(5-7) u(5-7) t(5-7))
qed

section \<open>Recovery\<close>

text \<open>The writes of a recovery from a disk image, and the image it leaves\<close>

definition recovery_writes :: "nat \<Rightarrow> (nat \<Rightarrow> block) \<Rightarrow> (nat \<times> block) list" where
  "recovery_writes L img =
     map (\<lambda>k. (unat (rd32 (img L) (4 + 4 * k)), img (Suc (L + k)))) [0..<nat (sint (rd32 (img L) 0))] @ [(L, wr32 (img L) 0 0)]"

definition recovered :: "nat \<Rightarrow> (nat \<Rightarrow> block) \<Rightarrow> nat \<Rightarrow> block" where
  "recovered L img = apply_writes (recovery_writes L img) img"

definition head_fits :: "nat \<Rightarrow> nat \<Rightarrow> (nat \<Rightarrow> block) \<Rightarrow> bool" where
  "head_fits L Z img \<longleftrightarrow> log_fits L Z (nat (sint (rd32 (img L) 0))) (\<lambda>k. rd32 (img L) (4 + 4 * k))"

lemma fold_blocks:
  "fold (\<lambda>i s. s\<lparr>lh_block := (lh_block s)(i := g i)\<rparr>) [0..<n] s = s\<lparr>lh_block := \<lambda>i. if i < n then g i else lh_block s i\<rparr>"
  by (induction n) (auto simp: fun_eq_iff less_Suc_eq intro!: arg_cong [of _ _ "\<lambda>f. s\<lparr>lh_block := f\<rparr>"])

lemma read_head_spec:
  assumes ok: "cache_ok {} s" "held s = {}" and dev: "log_dev s = ROOTDEV" and L: "unat (log_start s) = L" "L < 2 ^ 31"
  defines "h \<equiv> disk_img s L"
  defines "f \<equiv> (\<lambda>i. if i < nat (sint (rd32 h 0)) then rd32 h (4 + 4 * i) else lh_block s i)"
  shows "\<exists>t. read_head s = Ret () t \<and> cache_ok {} t \<and> held t = {} \<and> bio_frame (s\<lparr>lh_n := sint (rd32 h 0), lh_block := f\<rparr>) t
    \<and> view t = view s \<and> disk_img t = disk_img s \<and> disk_hist t = disk_hist s"
proof -
  have "L \<in> {} \<or> finite {} \<and> card (held s) + card {} < NBUF" "\<forall>i\<in>held s. \<not> is_block (bufs s i) L"
    using ok(2) by (auto simp: NBUF_def)
  from cache_bread [OF ok(1) L this]
  obtain b t where t: "bread ROOTDEV (log_start s) s = Ret b t" "cache_ok {} t" "bio_frame s t" "b < NBUF" "held t = {b}" "is_block (bufs t b) L"
    "b_data (bufs t b) = view s L" "view t = view s" "disk_img t = disk_img s" "disk_hist t = disk_hist s" using ok(2) by auto
  have h: "view s L = h" using view_clean [OF ok(1)] ok(2) by (simp add: h_def)
  let ?t = "t\<lparr>lh_n := sint (rd32 h 0), lh_block := f\<rparr>"
  have "cache_ok {} ?t" "b \<in> held ?t" "is_block (bufs ?t b) L" "b_data (bufs ?t b) = disk_img ?t L"
    using t h by (simp_all add: h_def)
  from cache_brelse [OF this(1-3) disjI2 [OF this(4)]]
  obtain u where u: "brelse b ?t = Ret () u" "cache_ok {} u" "bio_frame ?t u" "view u = view ?t" "held u = held ?t - {b}"
    "disk_img u = disk_img ?t" "disk_hist u = disk_hist ?t" by blast
  have "read_head s = Ret () u"
    unfolding read_head_def dev t(1) using u(1) t(7) h log_frame(7) [OF t(3)] by (simp add: fold_blocks f_def Let_def cong: if_cong)
  moreover have "bio_frame (s\<lparr>lh_n := sint (rd32 h 0), lh_block := f\<rparr>) u"
    using bio_frame_trans [OF bio_frame_lh(2) [OF bio_frame_lh(1) [OF t(3)]] u(3)] .
  ultimately show ?thesis using u t by auto
qed

lemma log_fits_cong: "(\<And>k. k < n \<Longrightarrow> f k = g k) \<Longrightarrow> log_fits L Z n f = log_fits L Z n g"
  by (auto simp: log_fits_def)

lemma recover_spec:
  assumes ok: "cache_ok {} s" "held s = {}" and dev: "log_dev s = ROOTDEV" and L: "unat (log_start s) = L"
    and fits: "head_fits L Z (disk_img s)"
  shows "\<exists>t. recover_from_log s = Ret () t \<and> cache_ok {} t \<and> held t = {} \<and> lh_n t = 0
    \<and> view t = disk_img t \<and> disk_img t = recovered L (disk_img s) \<and> disk_hist t = disk_hist s @ recovery_writes L (disk_img s)"
proof -
  let ?h = "disk_img s L"
  let ?n = "nat (sint (rd32 ?h 0))"
  have Lb: "L < 2 ^ 31" using fits by (simp add: head_fits_def log_fits_def)
  obtain t where t: "read_head s = Ret () t" "cache_ok {} t" "held t = {}"
    "bio_frame (s\<lparr>lh_n := sint (rd32 ?h 0), lh_block := \<lambda>i. if i < ?n then rd32 ?h (4 + 4 * i) else lh_block s i\<rparr>) t"
    "view t = view s" "disk_img t = disk_img s" "disk_hist t = disk_hist s"
    using read_head_spec [OF ok dev L Lb] by blast
  note tf = log_frame [OF t(4), simplified]
  have vs: "view t = disk_img s" using view_clean [OF t(2)] t(3,6) by (auto simp: fun_eq_iff)
  define W where "W = map (\<lambda>k. (unat (rd32 ?h (4 + 4 * k)), disk_img s (Suc (L + k)))) [0..<?n]"
  have "log_fits L Z (nat (lh_n t)) (lh_block t)"
    using fits unfolding head_fits_def tf by (subst log_fits_cong [where g = "\<lambda>k. rd32 ?h (4 + 4 * k)"]) auto
  moreover have m: "map (\<lambda>k. (lhome t k, view t (Suc (L + k)))) [0..<nat (lh_n t)] = W" by (simp add: W_def tf vs)
  have "log_dev t = ROOTDEV" "unat (log_start t) = L" using dev L by (simp_all add: tf)
  ultimately have "\<exists>u. install_trans True t = Ret () u \<and> cache_ok {} u \<and> held u = {} \<and> bio_frame t u
    \<and> view u = apply_writes W (view t) \<and> disk_img u = apply_writes W (disk_img t) \<and> disk_hist u = disk_hist t @ W"
    using install_trans_spec [OF t(2,3), where rc = True and L = L, unfolded m] by simp
  then obtain u where u: "install_trans True t = Ret () u" "cache_ok {} u" "held u = {}" "bio_frame t u"
    "view u = apply_writes W (view t)" "disk_img u = apply_writes W (disk_img t)" "disk_hist u = disk_hist t @ W" by blast
  note uf = log_frame [OF u(4)]
  have "unat (rd32 ?h (4 + 4 * k)) \<noteq> L" if "k < ?n" for k
    using log_fitsD(3,5) [OF fits [unfolded head_fits_def] L that] by auto
  then have "L \<notin> fst ` set W" by (fastforce simp: W_def)
  then have uL: "view u L = ?h" unfolding u(5) vs by (rule apply_writes_other)
  have "cache_ok {} (u\<lparr>lh_n := 0\<rparr>)" "held (u\<lparr>lh_n := 0\<rparr>) = {}" using u by simp_all
  from write_head_spec [OF this _ _ Lb]
  obtain w where w: "write_head (u\<lparr>lh_n := 0\<rparr>) = Ret () w" "cache_ok {} w" "held w = {}" "bio_frame (u\<lparr>lh_n := 0\<rparr>) w"
    "disk_img w = (disk_img u)(L := wr32 ?h 0 0)" "disk_hist w = disk_hist u @ [(L, wr32 ?h 0 0)]"
    using dev L uL by (auto simp: tf uf NBUF_def)
  have "view w = disk_img w" using view_clean [OF w(2)] w(3) by (auto simp: fun_eq_iff)
  moreover have "recover_from_log s = Ret () w" using t(1) u(1) w(1) by (simp add: recover_from_log_def)
  moreover have "lh_n w = 0" using log_frame(6) [OF w(4)] by simp
  moreover have "recovery_writes L (disk_img s) = W @ [(L, wr32 ?h 0 0)]" by (simp add: recovery_writes_def W_def)
  ultimately show ?thesis using w u t by (auto simp: recovered_def)
qed

section \<open>Crashes\<close>

lemma recovered_empty: "sint (rd32 (img L) 0) = 0 \<Longrightarrow> n \<noteq> L \<Longrightarrow> recovered L img n = img n"
  by (simp add: recovered_def recovery_writes_def)

lemma keys_map: "fst ` set (map (\<lambda>k. (c k, d k)) [0..<n]) = c ` {..<n}"
  by force

lemma keys_take: "fst ` set (take i ws) \<subseteq> fst ` set ws"
  using set_take_subset by fast

text \<open>
  A disk image cut off after \<open>j\<close> of the writes of a commit: recovery from it restores the old
  contents up to the writing of the header, the new contents afterwards.
\<close>

lemma commit_crash:
  fixes j :: nat
  assumes fits: "log_fits L Z (nat n) f" and n: "0 < n" and inj: "inj_on (\<lambda>k. unat (f k)) {..<nat n}"
    and empty: "sint (rd32 (img L) 0) = 0" and clean: "\<forall>b. b \<notin> (\<lambda>k. unat (f k)) ` {..<nat n} \<longrightarrow> v b = img b"
  defines "img' \<equiv> apply_writes (take j (commit_writes L n f v)) img"
  shows "head_fits L Z img'" and "b \<notin> {L..<L + Z} \<Longrightarrow> recovered L img' b = (if j \<le> nat n then img b else v b)"
proof -
  let ?n = "nat n"
  let ?c = "\<lambda>k. unat (f k)"
  define W1 where "W1 = map (\<lambda>k. (Suc (L + k), v (?c k))) [0..<?n]"
  define H where "H = head_bytes (v L) n f"
  define W2 where "W2 = map (\<lambda>k. (?c k, v (?c k))) [0..<?n]"
  define X where "X = apply_writes (W1 @ [(L, H)]) img"
  have ws: "commit_writes L n f v = (W1 @ [(L, H)]) @ W2 @ [(L, wr32 H 0 0)]" by (simp add: commit_writes_def W1_def W2_def H_def)
  have Z: "L + Z < 2 ^ 31" "?n < Z" "int Z \<le> LOGSIZE" and out: "\<forall>k<?n. ?c k \<notin> {L..<L + Z}" using fits by (auto simp: log_fits_def)
  have k1: "fst ` set W1 = (\<lambda>k. Suc (L + k)) ` {..<?n}" and k2: "fst ` set W2 = ?c ` {..<?n}" unfolding W1_def W2_def by (rule keys_map)+
  have in1: "fst ` set W1 \<subseteq> {L<..<L + Z}" using k1 Z by auto
  have in2: "fst ` set W2 \<inter> {L..<L + Z} = {}" using k2 out by auto
  have nlt: "n < 2 ^ 31" using Z by (simp add: LOGSIZE_def MAXOPBLOCKS_def)
  have hn: "sint (rd32 H 0) = n" "\<forall>k<?n. rd32 H (4 + 4 * k) = f k"
    using head_bytes_roundtrip [where n = n and d = "v L" and f = f] n nlt by (auto simp: H_def)
  have fit0: "head_fits L Z i" if "sint (rd32 (i L) 0) = 0" for i using that Z n by (simp add: head_fits_def log_fits_def)
  have XL: "X L = H" by (simp add: X_def)
  have Xlog: "X (Suc (L + k)) = v (?c k)" if "k < ?n" for k
    using apply_writes_inj [of "\<lambda>k. Suc (L + k)" ?n k] that by (simp add: X_def W1_def inj_on_def)
  have W2X: "apply_writes W2 X b = v b" if "b \<notin> {L..<L + Z}" for b
  proof (cases "b \<in> ?c ` {..<?n}")
    case True
    then show ?thesis using apply_writes_inj [OF inj] by (auto simp: W2_def)
  next
    case False
    have "apply_writes W2 X b = X b" using False k2 by (simp add: apply_writes_other)
    also have "\<dots> = img b" unfolding X_def by (rule apply_writes_other) (use that in1 Z in auto)
    finally show ?thesis using clean False by simp
  qed
  consider "j \<le> ?n" | i where "j = Suc (?n + i)" "i \<le> ?n" | "2 * ?n + 2 \<le> j"
  proof (cases "j \<le> ?n")
    case False
    then have "j = Suc (?n + (j - Suc ?n))" by simp
    then show ?thesis using that(2) [of "j - Suc ?n"] that(3) by (cases "j - Suc ?n \<le> ?n") auto
  qed (rule that(1))
  then have "head_fits L Z img' \<and> (b \<notin> {L..<L + Z} \<longrightarrow> recovered L img' b = (if j \<le> nat n then img b else v b))"
  proof cases
    case 1
    then have e: "img' = apply_writes (take j W1) img" by (simp add: img'_def ws W1_def)
    have k: "fst ` set (take j W1) \<subseteq> {L<..<L + Z}" by (rule order_trans [OF keys_take in1])
    then have "img' L = img L" unfolding e by (intro apply_writes_other) auto
    then have "sint (rd32 (img' L) 0) = 0" using empty by simp
    moreover have "img' b = img b" if "b \<notin> {L..<L + Z}" unfolding e using k that by (intro apply_writes_other) auto
    ultimately show ?thesis using 1 fit0 Z recovered_empty [of img' L b] by auto
  next
    case (2 i)
    then have e: "img' = apply_writes (take i W2) X" by (simp add: img'_def ws X_def W1_def W2_def)
    have k: "fst ` set (take i W2) \<inter> {L..<L + Z} = {}" using keys_take [of i W2] in2 by blast
    have same: "img' m = X m" if "m \<in> {L..<L + Z}" for m unfolding e using k that by (intro apply_writes_other) auto
    have L: "img' L = H" using same [of L] XL Z by auto
    have log: "img' (Suc (L + k)) = v (?c k)" if "k < ?n" for k using same [of "Suc (L + k)"] Xlog that Z by auto
    have "recovery_writes L img' = W2 @ [(L, wr32 H 0 0)]" using log hn by (simp add: recovery_writes_def L W2_def)
    then have "recovered L img' b = apply_writes W2 img' b" if "b \<noteq> L" using that by (simp add: recovered_def)
    moreover have "apply_writes W2 img' = apply_writes W2 X" unfolding e by (rule apply_writes_over [OF keys_take])
    moreover have "head_fits L Z img'"
      using fits hn unfolding head_fits_def L by (subst log_fits_cong [where g = f]) auto
    ultimately show ?thesis using 2 W2X Z by auto
  next
    case 3
    then have e: "img' = (apply_writes W2 X)(L := wr32 H 0 0)" by (simp add: img'_def ws X_def W1_def W2_def)
    then have "sint (rd32 (img' L) 0) = 0" by simp
    then show ?thesis using 3 n fit0 W2X Z recovered_empty [of img' L b] by (auto simp: e)
  qed
  then show "head_fits L Z img'" "b \<notin> {L..<L + Z} \<Longrightarrow> recovered L img' b = (if j \<le> nat n then img b else v b)" by blast+
qed

lemma recovery_crash:
  fixes j :: nat
  assumes fits: "head_fits L Z img"
  defines "img' \<equiv> apply_writes (take j (recovery_writes L img)) img"
  shows "head_fits L Z img'" and "b \<notin> {L..<L + Z} \<Longrightarrow> recovered L img' b = recovered L img b"
proof -
  let ?h = "img L"
  let ?n = "nat (sint (rd32 ?h 0))"
  let ?c = "\<lambda>k. unat (rd32 ?h (4 + 4 * k))"
  define W where "W = map (\<lambda>k. (?c k, img (Suc (L + k)))) [0..<?n]"
  have ws: "recovery_writes L img = W @ [(L, wr32 ?h 0 0)]" by (simp add: recovery_writes_def W_def)
  have Z: "L + Z < 2 ^ 31" "?n < Z" "int Z \<le> LOGSIZE" and out: "\<forall>k<?n. ?c k \<notin> {L..<L + Z}" using fits by (auto simp: head_fits_def log_fits_def)
  have k: "fst ` set W \<inter> {L..<L + Z} = {}" unfolding W_def keys_map using out by auto
  have "head_fits L Z img' \<and> (b \<notin> {L..<L + Z} \<longrightarrow> recovered L img' b = recovered L img b)"
  proof (cases "j \<le> ?n")
    case True
    then have e: "img' = apply_writes (take j W) img" by (simp add: img'_def ws W_def)
    have "fst ` set (take j W) \<inter> {L..<L + Z} = {}" using keys_take [of j W] k by blast
    then have same: "img' m = img m" if "m \<in> {L..<L + Z}" for m unfolding e using that by (intro apply_writes_other) auto
    have L: "img' L = ?h" using same [of L] Z by auto
    have "img' (Suc (L + k)) = img (Suc (L + k))" if "k < ?n" for k using same [of "Suc (L + k)"] that Z by auto
    then have "recovery_writes L img' = recovery_writes L img" by (simp add: recovery_writes_def L)
    moreover have "apply_writes W img' = apply_writes W img" unfolding e by (rule apply_writes_over [OF keys_take])
    ultimately show ?thesis using fits by (simp add: recovered_def ws head_fits_def L)
  next
    case False
    then have e: "img' = (apply_writes W img)(L := wr32 ?h 0 0)" by (simp add: img'_def ws W_def)
    then have h: "sint (rd32 (img' L) 0) = 0" by simp
    moreover have "recovered L img = img'" by (simp add: recovered_def ws e)
    ultimately show ?thesis using Z recovered_empty [of img' L b] by (auto simp: head_fits_def log_fits_def)
  qed
  then show "head_fits L Z img'" "b \<notin> {L..<L + Z} \<Longrightarrow> recovered L img' b = recovered L img b" by blast+
qed

section \<open>Transactions\<close>

definition log_region :: "'a log_state_scheme \<Rightarrow> nat set" where
  "log_region s = {unat (log_start s)..<unat (log_start s) + nat (log_size s)}"

definition log_ok :: "'a log_state_scheme \<Rightarrow> bool" where
  "log_ok s \<longleftrightarrow> log_dev s = ROOTDEV \<and> 0 \<le> lh_n s \<and> inj_on (lhome s) {..<nat (lh_n s)}
     \<and> log_fits (unat (log_start s)) (nat (log_size s)) (nat (lh_n s)) (lh_block s) \<and> cache_ok (logged s) s"

lemma log_okD:
  assumes "log_ok s"
  shows "log_dev s = ROOTDEV" "0 \<le> lh_n s" "inj_on (lhome s) {..<nat (lh_n s)}"
    "log_fits (unat (log_start s)) (nat (log_size s)) (nat (lh_n s)) (lh_block s)" "cache_ok (logged s) s"
    "calm s" "nat (lh_n s) < NBUF" "card (logged s) = nat (lh_n s)"
proof -
  show "log_dev s = ROOTDEV" "0 \<le> lh_n s" and i: "inj_on (lhome s) {..<nat (lh_n s)}"
    and f: "log_fits (unat (log_start s)) (nat (log_size s)) (nat (lh_n s)) (lh_block s)" and c: "cache_ok (logged s) s"
    using assms by (simp_all add: log_ok_def)
  show "calm s" using cache_okD(2) [OF c] .
  show "nat (lh_n s) < NBUF" using f by (auto simp: log_fits_def LOGSIZE_def MAXOPBLOCKS_def NBUF_def)
  show "card (logged s) = nat (lh_n s)" using card_logged [OF i] .
qed

text \<open>What the operations of a transaction leave unchanged\<close>

definition tx_frame :: "'a log_state_scheme \<Rightarrow> 'a log_state_scheme \<Rightarrow> bool" where
  "tx_frame s t \<longleftrightarrow> bio_frame (s\<lparr>lh_n := lh_n t, lh_block := lh_block t\<rparr>) t"

lemma tx_frame_refl [simp]: "tx_frame s s"
  by (simp add: tx_frame_def)

lemma tx_frame_bio: "bio_frame s t \<Longrightarrow> tx_frame s t"
  using log_frame [of s t] by (simp add: tx_frame_def)

lemma tx_frame_trans:
  assumes "tx_frame s t" and "tx_frame t u"
  shows "tx_frame s u"
proof -
  have "bio_frame (s\<lparr>lh_n := lh_n t, lh_block := lh_block t, lh_n := lh_n u, lh_block := lh_block u\<rparr>) (t\<lparr>lh_n := lh_n u, lh_block := lh_block u\<rparr>)"
    using assms(1) unfolding tx_frame_def by (intro bio_frame_lh)
  then show ?thesis using assms(2) bio_frame_trans by (fastforce simp: tx_frame_def)
qed

lemma tx_frameD:
  assumes "tx_frame s t"
  shows "log_start t = log_start s" "log_size t = log_size s" "log_outstanding t = log_outstanding s"
    "log_committing t = log_committing s" "log_dev t = log_dev s" "log_region t = log_region s"
    "hart t = hart s" "sie t = sie s" "locks t = locks s" "mem t = mem s" "freelist t = freelist s" "cur t = cur s"
    "log_state.more t = log_state.more s" "woken_procs (cur s) (proc s) (proc t)"
    "noff (cpus t (hart t)) = noff (cpus s (hart s))"
proof -
  note f = log_frame [OF assms [unfolded tx_frame_def]] bio_frame_more [OF assms [unfolded tx_frame_def]]
  show "log_start t = log_start s" "log_size t = log_size s" "log_outstanding t = log_outstanding s"
    "log_committing t = log_committing s" "log_dev t = log_dev s" "log_region t = log_region s"
    "hart t = hart s" "sie t = sie s" "locks t = locks s" "mem t = mem s" "freelist t = freelist s" "cur t = cur s"
    "woken_procs (cur s) (proc s) (proc t)" "noff (cpus t (hart t)) = noff (cpus s (hart s))"
    using f by (simp_all add: log_region_def)
  have "disk_state.more t = disk_state.more (s\<lparr>lh_n := lh_n t, lh_block := lh_block t\<rparr>)" using f by blast
  then show "log_state.more t = log_state.more s" by (cases s; cases t) simp
qed

lemma first_index:
  "(length (takeWhile (\<lambda>i. f i \<noteq> x) [0..<n]) = n \<and> (\<forall>k<n. f k \<noteq> x))
   \<or> (length (takeWhile (\<lambda>i. f i \<noteq> x) [0..<n]) < n \<and> f (length (takeWhile (\<lambda>i. f i \<noteq> x) [0..<n])) = x)"
proof (cases "\<forall>k<n. f k \<noteq> x")
  case True
  then have "takeWhile (\<lambda>i. f i \<noteq> x) [0..<n] = [0..<n]" by (simp add: takeWhile_eq_all_conv)
  then have "length (takeWhile (\<lambda>i. f i \<noteq> x) [0..<n]) = length [0..<n]" by (simp only:)
  then show ?thesis using True by simp
next
  case False
  let ?i = "length (takeWhile (\<lambda>i. f i \<noteq> x) [0..<n])"
  have "takeWhile (\<lambda>i. f i \<noteq> x) [0..<n] \<noteq> [0..<n]" using False by (auto simp: takeWhile_eq_all_conv)
  then have "?i < n" using length_takeWhile_le [of "\<lambda>i. f i \<noteq> x" "[0..<n]"] takeWhile_eq_take [of "\<lambda>i. f i \<noteq> x" "[0..<n]"]
    by (metis diff_zero le_neq_implies_less length_upt take_all)
  moreover from this have "f ?i = x" using nth_length_takeWhile [of "\<lambda>i. f i \<noteq> x" "[0..<n]"] by simp
  ultimately show ?thesis by simp
qed

lemma log_write_spec:
  assumes ok: "log_ok s" and b: "b \<in> held s" "is_block (bufs s b) n" and n: "n < 2 ^ 31" "n \<notin> log_region s"
    and room: "lh_n s < log_size s - 1" and out: "1 \<le> log_outstanding s"
  shows "\<exists>t. log_write b s = Ret () t \<and> log_ok t \<and> tx_frame s t \<and> held t = held s \<and> logged t = insert n (logged s)
    \<and> view t = view s \<and> disk_img t = disk_img s \<and> disk_hist t = disk_hist s \<and> lh_n t \<le> lh_n s + 1
    \<and> (\<forall>i m. is_block (bufs t i) m = is_block (bufs s i) m) \<and> (\<forall>i. b_data (bufs t i) = b_data (bufs s i))"
proof -
  note k = log_okD [OF ok]
  note m = calmD [OF k(6)]
  let ?bn = "b_blockno (bufs s b)"
  let ?n = "nat (lh_n s)"
  define i where "i = length (takeWhile (\<lambda>i. lh_block s i \<noteq> ?bn) [0..<?n])"
  have bn: "?bn = of_nat n" using b(2) by auto
  have size: "log_size s \<le> LOGSIZE" using k(4) room k(2) by (auto simp: log_fits_def)
  have enter: "acquire Log_lock s = Ret () (in_lock Log_lock s)" using k(6) by (rule calm_acquire)
  have guards: "\<not> (lh_n s \<ge> LOGSIZE \<or> lh_n s \<ge> log_size s - 1)" "\<not> log_outstanding s < 1" using room size out by auto
  consider (new) "i = ?n" "\<forall>k<?n. lh_block s k \<noteq> ?bn" | (old) "i < ?n" "lh_block s i = ?bn"
    using first_index [of "lh_block s" ?bn ?n] unfolding i_def by blast
  then show ?thesis
  proof cases
    case old
    then have "int i \<noteq> lh_n s" by auto
    then have "log_write b s = Ret () (settle s)"
      using guards m(1) m(2) [of Log_lock] old by (simp add: log_write_def enter i_def [symmetric] Let_def lock_simps fun_upd_idem)
    moreover have "n \<in> logged s" using old b(2) by (force simp: logged_def)
    then have "insert n (logged s) = logged s" by blast
    moreover have "cache_ok (logged s) (settle s)" using k(5) by (simp add: cache_ok_def bio_ok_def vdisk_ok_def holds_def lock_simps)
    then have "log_ok (settle s)" using ok by (simp add: log_ok_def logged_def)
    moreover have "tx_frame s (settle s)" by (intro tx_frame_bio) (simp add: bio_frame_def lock_simps)
    moreover have "view (settle s) = view s" by (rule view_cong) simp_all
    ultimately show ?thesis by (intro exI [of _ "settle s"]) (simp add: held_def logged_def)
  next
    case new
    let ?B = "(bufs s)(b := (bufs s b)\<lparr>b_refcnt := b_refcnt (bufs s b) + 1\<rparr>)"
    define t where "t = settle s\<lparr>bufs := ?B, lh_block := (lh_block s)(?n := ?bn), lh_n := lh_n s + 1\<rparr>"
    have nl: "n \<notin> logged s"
    proof
      assume "n \<in> logged s"
      then obtain k where "k < ?n" "lhome s k = n" by (auto simp: logged_def)
      then have "lh_block s k = ?bn" using b(2) by (simp add: word_unat_eq_iff)
      then show False using new(2) \<open>k < ?n\<close> by blast
    qed
    have "int i = lh_n s" using new k(2) by simp
    moreover have "lock_free Bcache_lock (in_lock Log_lock s)" "cpu_ok (in_lock Log_lock s)" using m by (simp_all add: lock_simps)
    ultimately have e: "log_write b s = Ret () t"
      using guards m(1) m(2) [of Log_lock] new(1) by (simp add: log_write_def enter i_def [symmetric] Let_def bpin_locked lock_simps t_def)
    have bh: "b < NBUF" "slocked b s" using b(1) by (simp_all add: held_def)
    have "b_refcnt (bufs s b) = 1" using cache_okD(4) [OF k(5) bh(1)] bh(2) b(2) nl by simp
    then have B: "?B = (bufs s)(b := (bufs s b)\<lparr>b_refcnt := 1 + of_bool (n \<in> insert n (logged s))\<rparr>)" by simp
    have "insert n (logged s) - {n} = logged s - {n}" by blast
    note r = cache_repin [OF k(5) b this, folded B]
    have lg: "logged t = insert n (logged s)"
    proof -
      have "nat (lh_n s + 1) = Suc ?n" using k(2) by simp
      moreover have "lhome t k = (if k = ?n then n else lhome s k)" for k using b(2) by (simp add: t_def)
      ultimately show ?thesis unfolding logged_def by (auto simp: t_def lessThan_Suc)
    qed
    have t_eq: "t = (settle s\<lparr>bufs := ?B\<rparr>)\<lparr>lh_block := (lh_block s)(?n := ?bn), lh_n := lh_n s + 1\<rparr>" by (simp add: t_def)
    have "cache_ok (insert n (logged s)) t" unfolding t_eq using r(1) by simp
    then have "cache_ok (logged t) t" by (simp only: lg)
    moreover have "inj_on (lhome t) {..<nat (lh_n t)}"
    proof -
      have "nat (lh_n t) = Suc ?n" using k(2) by (simp add: t_def)
      moreover have "inj_on (lhome t) {..<?n}" using k(3) by (auto simp: inj_on_def t_def)
      moreover have "lhome t ?n \<notin> lhome t ` {..<?n}" using nl b(2) by (auto simp: t_def logged_def)
      ultimately show ?thesis by (simp add: lessThan_Suc)
    qed
    moreover have "log_fits (unat (log_start t)) (nat (log_size t)) (nat (lh_n t)) (lh_block t)"
      using k(2,4) room n b(2) by (auto simp: log_fits_def t_def log_region_def less_Suc_eq nat_add_distrib)
    ultimately have "log_ok t" using k(1,2) by (simp add: log_ok_def) (simp add: t_def)
    moreover have "tx_frame s t"
    proof -
      have "bio_frame (s\<lparr>lh_n := lh_n t, lh_block := lh_block t\<rparr>) ((settle s\<lparr>bufs := ?B\<rparr>)\<lparr>lh_n := lh_n t, lh_block := lh_block t\<rparr>)"
        using r(2) by (intro bio_frame_lh)
      moreover have "(settle s\<lparr>bufs := ?B\<rparr>)\<lparr>lh_n := lh_n t, lh_block := lh_block t\<rparr> = t" by (simp add: t_def)
      ultimately show ?thesis by (simp add: tx_frame_def)
    qed
    moreover have "held t = held s" "view t = view s" unfolding t_eq using r(3,4) by simp_all
    ultimately show ?thesis using e lg by (intro exI [of _ t]) (auto simp: t_def)
  qed
qed

lemma log_field_cong:
  "log_ok s \<Longrightarrow> logged t = logged s \<Longrightarrow> lh_n t = lh_n s \<Longrightarrow> lh_block t = lh_block s \<Longrightarrow> log_dev t = log_dev s \<Longrightarrow>
   log_start t = log_start s \<Longrightarrow> log_size t = log_size s \<Longrightarrow> cache_ok (logged s) t \<Longrightarrow> log_ok t"
  by (simp add: log_ok_def)

lemma cache_settle [simp]: "cache_ok P (settle s) = cache_ok P s" "held (settle s) = held s" "view (settle s) = view s"
  by (auto simp: cache_ok_def bio_ok_def vdisk_ok_def holds_def held_def view_def lock_simps fun_eq_iff split: option.split)

lemma cache_woken:
  assumes "woken_procs (cur s) (proc s) Q"
  shows "cache_ok P (s\<lparr>proc := Q\<rparr>) = cache_ok P s" "held (s\<lparr>proc := Q\<rparr>) = held s" "view (s\<lparr>proc := Q\<rparr>) = view s"
  using woken_procs_fields(1) [OF assms]
  by (auto simp: cache_ok_def bio_ok_def calm_def vdisk_ok_def holds_def held_def view_def fun_eq_iff split: option.split)

lemma idle_cache:
  assumes "idle s"
  shows "cache_ok {} s" "held s = {}"
proof -
  have "bio_ok s" and r: "\<forall>i<NBUF. b_refcnt (bufs s i) = 0" using assms by (simp_all add: idle_def)
  moreover from this have l: "\<forall>i<NBUF. \<not> slocked i s" by (auto simp: bio_ok_def bufs_ok_def)
  ultimately show "cache_ok {} s" by (simp add: cache_ok_def)
  show "held s = {}" using l by (auto simp: held_def)
qed

text \<open>The writes of the commit that the last \<open>end_op\<close> runs: none when nothing was logged\<close>

definition end_writes :: "'a log_state_scheme \<Rightarrow> (nat \<times> block) list" where
  "end_writes s = (if 0 < lh_n s then commit_writes (unat (log_start s)) (lh_n s) (lh_block s) (view s) else [])"

lemma commit_any:
  assumes ok: "log_ok s" and h: "held s = {}"
  shows "\<exists>t. commit s = Ret () t \<and> cache_ok {} t \<and> held t = {} \<and> bio_frame (s\<lparr>lh_n := 0\<rparr>) t
    \<and> view t = apply_writes (end_writes s) (view s) \<and> disk_img t = apply_writes (end_writes s) (disk_img s)
    \<and> disk_hist t = disk_hist s @ end_writes s"
proof (cases "0 < lh_n s")
  case True
  note k = log_okD [OF ok]
  show ?thesis using commit_spec [OF k(5) h k(1) refl k(4,3) True] True by (simp add: end_writes_def)
next
  case False
  then have "lh_n s = 0" using log_okD(2) [OF ok] by simp
  moreover from this have e: "s\<lparr>lh_n := 0\<rparr> = s" by simp
  have "bio_frame (s\<lparr>lh_n := 0\<rparr>) s" unfolding e by simp
  ultimately show ?thesis using log_okD(5) [OF ok] h
    by (intro exI [of _ s]) (simp add: commit_def end_writes_def logged_def)
qed

lemma end_op_last:
  assumes ok: "log_ok s" and h: "held s = {}" and out: "log_outstanding s = 1" and c: "\<not> log_committing s"
  shows "\<exists>t. end_op s = Ret () t \<and> log_ok t \<and> held t = {} \<and> lh_n t = 0 \<and> log_outstanding t = 0 \<and> \<not> log_committing t
    \<and> log_start t = log_start s \<and> log_size t = log_size s \<and> log_state.more t = log_state.more s
    \<and> view t = apply_writes (end_writes s) (view s) \<and> disk_img t = apply_writes (end_writes s) (disk_img s)
    \<and> disk_hist t = disk_hist s @ end_writes s
    \<and> (\<forall>p<NPROC. cur s \<noteq> Some p \<longrightarrow> p_state (proc s p) = SLEEPING \<longrightarrow> p_chan (proc s p) = Some Chan_log \<longrightarrow>
        p_state (proc t p) = RUNNABLE)"
proof -
  note k = log_okD [OF ok]
  note m = calmD [OF k(6)]
  define a where "a = settle s\<lparr>log_outstanding := 0, log_committing := True\<rparr>"
  have aok: "log_ok a" "held a = {}" using ok h by (simp_all add: log_ok_def a_def logged_def)
  obtain t where t: "commit a = Ret () t" "cache_ok {} t" "held t = {}" "bio_frame (a\<lparr>lh_n := 0\<rparr>) t"
    "view t = apply_writes (end_writes a) (view a)" "disk_img t = apply_writes (end_writes a) (disk_img a)"
    "disk_hist t = disk_hist a @ end_writes a" using commit_any [OF aok] by blast
  have ew: "end_writes a = end_writes s" "view a = view s" "disk_img a = disk_img s" "disk_hist a = disk_hist s" by (simp_all add: end_writes_def a_def)
  note tf = log_frame [OF t(4), simplified] bio_frame_more [OF t(4), simplified]
  have ct: "calm t" using cache_okD(2) [OF t(2)] .
  note mt = calmD [OF ct]
  define Q where "Q = wake_table Chan_log (cur t) [0..<NPROC] (proc t)"
  define u where "u = settle t\<lparr>log_committing := False, proc := Q\<rparr>"
  have first: "release Log_lock (in_lock Log_lock s\<lparr>log_outstanding := 0, log_committing := True\<rparr>) = Ret () a"
    using m(1) m(2) [of Log_lock] by (simp add: lock_simps a_def)
  have "deep (in_lock Log_lock t\<lparr>log_committing := False\<rparr>)" using deep_in_lock [OF ct, of Log_lock] by (auto simp: deep_def)
  then have wk: "wakeup Chan_log (in_lock Log_lock t\<lparr>log_committing := False\<rparr>) = Ret () (in_lock Log_lock t\<lparr>log_committing := False, proc := Q\<rparr>)"
    by (simp add: wakeup_deep Q_def lock_simps)
  have last: "release Log_lock (in_lock Log_lock t\<lparr>log_committing := False, proc := Q\<rparr>) = Ret () u"
    using mt(1) mt(2) [of Log_lock] by (simp add: lock_simps u_def)
  have "end_op s = Ret () u"
    using out c t(1) first wk last by (simp add: end_op_def calm_acquire [OF k(6)] calm_acquire [OF ct] Let_def)
  moreover have Q: "woken_procs (cur t) (proc t) Q" by (simp add: Q_def)
  then have cu: "cache_ok {} u" "held u = {}" "view u = view t"
    using t(2,3) cache_woken [of "settle t\<lparr>log_committing := False\<rparr>" Q] by (simp_all add: u_def lock_simps)
  moreover have "log_ok u"
    using ok cu(1) tf by (auto simp: log_ok_def logged_def u_def a_def log_fits_def)
  moreover have "log_state.more u = log_state.more s"
  proof -
    have "disk_state.more t = disk_state.more (a\<lparr>lh_n := 0\<rparr>)" using bio_frame_more(6) [OF t(4)] .
    then have "log_state.more t = log_state.more a" by (cases a; cases t) simp
    then show ?thesis by (simp add: u_def a_def)
  qed
  moreover have "p_state (proc u p) = RUNNABLE"
    if p: "p < NPROC" "cur s \<noteq> Some p" "p_state (proc s p) = SLEEPING" "p_chan (proc s p) = Some Chan_log" for p
  proof -
    have w: "woken_procs (cur s) (proc s) (proc t)" and cur: "cur t = cur s" using tf by (simp_all add: a_def lock_simps)
    have "proc t p = proc s p \<or> p_state (proc t p) = RUNNABLE" using woken_procs_sleeper [OF w p(3)] .
    then show ?thesis using p cur by (auto simp: u_def Q_def wake_table_def woken_def)
  qed
  ultimately show ?thesis using t(5-7) [unfolded ew] tf by (intro exI [of _ u]) (simp add: u_def a_def)
qed

lemma end_writes_new:
  assumes ok: "log_ok s" and h: "held s = {}" and b: "b \<notin> log_region s"
  shows "apply_writes (end_writes s) (view s) b = view s b" "apply_writes (end_writes s) (disk_img s) b = view s b"
proof -
  note k = log_okD [OF ok]
  let ?L = "unat (log_start s)"
  let ?n = "nat (lh_n s)"
  have clean: "view s m = disk_img s m" if "m \<notin> logged s" for m using view_clean [OF k(5) that] h by simp
  have Z: "?n < nat (log_size s)" using k(4) by (simp add: log_fits_def)
  define W1 where "W1 = map (\<lambda>k. (Suc (?L + k), view s (lhome s k))) [0..<?n] @ [(?L, head_bytes (view s ?L) (lh_n s) (lh_block s))]"
  define W2 where "W2 = map (\<lambda>k. (lhome s k, view s (lhome s k))) [0..<?n]"
  have "b \<notin> fst ` set W1" using b Z by (auto simp: W1_def log_region_def)
  then have b1: "apply_writes W1 img b = img b" for img by (rule apply_writes_other)
  have b2: "apply_writes W2 img b = (if b \<in> logged s then view s b else img b)" for img
  proof (cases "b \<in> logged s")
    case False
    then have "b \<notin> fst ` set W2" unfolding W2_def keys_map logged_def .
    then show ?thesis using False by (simp add: apply_writes_other)
  qed (use apply_writes_inj [OF k(3)] in \<open>auto simp: W2_def logged_def\<close>)
  have "b \<noteq> ?L" using b Z by (auto simp: log_region_def)
  then have "apply_writes (end_writes s) img b = (if b \<in> logged s then view s b else img b)" for img
  proof (cases "0 < lh_n s")
    case True
    then have "end_writes s = W1 @ W2 @ [(?L, wr32 (head_bytes (view s ?L) (lh_n s) (lh_block s)) 0 0)]"
      by (simp add: end_writes_def commit_writes_def W1_def W2_def)
    then show ?thesis using \<open>b \<noteq> ?L\<close> by (simp add: b1 b2)
  qed (simp add: end_writes_def logged_def)
  then show "apply_writes (end_writes s) (view s) b = view s b" "apply_writes (end_writes s) (disk_img s) b = view s b"
    using clean by auto
qed

text \<open>
  C1. Transactions are atomic with respect to crashes. When the last operation of a
  transaction ends, \<open>end_op\<close> commits: it returns with the log empty, and outside the log both
  the disk and the kernel's view of it hold the transaction's contents. If the machine stops
  after any number \<open>j\<close> of the block writes of this commit, then recovery on a freshly booted
  machine with that disk returns, and leaves outside the log either all of the contents from
  before the transaction, when the header had not been written, or all of the new contents.
\<close>

theorem log_commit_atomic:
  assumes "log_ok s" and "held s = {}" and "log_outstanding s = 1" and "\<not> log_committing s"
    and "sint (rd32 (disk_img s (unat (log_start s))) 0) = 0"
  shows "\<exists>t ws. end_op s = Ret () t \<and> log_ok t \<and> lh_n t = 0 \<and> log_outstanding t = 0 \<and> \<not> log_committing t
    \<and> disk_hist t = disk_hist s @ ws \<and> disk_img t = apply_writes ws (disk_img s)
    \<and> (\<forall>b. b \<notin> log_region s \<longrightarrow> view t b = view s b \<and> disk_img t b = view s b)
    \<and> (\<forall>j r. idle r \<longrightarrow> log_dev r = ROOTDEV \<longrightarrow> log_start r = log_start s \<longrightarrow>
         disk_img r = apply_writes (take j ws) (disk_img s) \<longrightarrow>
         (\<exists>r'. recover_from_log r = Ret () r' \<and> lh_n r' = 0 \<and>
            (\<forall>b. b \<notin> log_region s \<longrightarrow> disk_img r' b = (if j \<le> nat (lh_n s) then disk_img s b else view s b))))"
proof -
  note k = log_okD [OF assms(1)]
  let ?L = "unat (log_start s)"
  let ?Z = "nat (log_size s)"
  obtain t where t: "end_op s = Ret () t" "log_ok t" "lh_n t = 0" "log_outstanding t = 0" "\<not> log_committing t"
    "view t = apply_writes (end_writes s) (view s)" "disk_img t = apply_writes (end_writes s) (disk_img s)"
    "disk_hist t = disk_hist s @ end_writes s" using end_op_last [OF assms(1-4)] by blast
  have clean: "\<forall>b. b \<notin> (\<lambda>k. unat (lh_block s k)) ` {..<nat (lh_n s)} \<longrightarrow> view s b = disk_img s b"
    using view_clean [OF k(5)] assms(2) by (auto simp: logged_def)
  have rec: "\<exists>r'. recover_from_log r = Ret () r' \<and> lh_n r' = 0 \<and>
            (\<forall>b. b \<notin> log_region s \<longrightarrow> disk_img r' b = (if j \<le> nat (lh_n s) then disk_img s b else view s b))"
    if r: "idle r" "log_dev r = ROOTDEV" "log_start r = log_start s" "disk_img r = apply_writes (take j (end_writes s)) (disk_img s)" for j r
  proof -
    have "head_fits ?L ?Z (disk_img r) \<and>
      (\<forall>b. b \<notin> {?L..<?L + ?Z} \<longrightarrow> recovered ?L (disk_img r) b = (if j \<le> nat (lh_n s) then disk_img s b else view s b))"
    proof (cases "0 < lh_n s")
      case True
      then show ?thesis using commit_crash [OF k(4) True k(3) assms(5) clean, where j = j] r(4) by (simp add: end_writes_def)
    next
      case False
      then have "disk_img r = disk_img s" using r(4) by (simp add: end_writes_def)
      then show ?thesis using False assms(5) k(4) clean recovered_empty [of "disk_img s" ?L]
        by (auto simp: head_fits_def log_fits_def)
    qed
    moreover have "unat (log_start r) = ?L" using r(3) by simp
    ultimately show ?thesis using recover_spec [OF idle_cache [OF r(1)] r(2)] by (fastforce simp: log_region_def)
  qed
  show ?thesis
    by (intro exI [of _ t] exI [of _ "end_writes s"] conjI allI impI; (erule (3) rec)?)
      (use t end_writes_new [OF assms(1,2)] in simp_all)
qed

text \<open>
  C10. Recovery may itself be cut short. If the machine stops after any number of the block
  writes of a recovery and recovers again, the contents of the disk outside the log are those
  the first recovery would have produced.
\<close>

theorem recovery_restarts:
  assumes "idle s" and "log_dev s = ROOTDEV" and "head_fits (unat (log_start s)) Z (disk_img s)"
  shows "\<exists>t ws. recover_from_log s = Ret () t \<and> disk_hist t = disk_hist s @ ws \<and> disk_img t = apply_writes ws (disk_img s)
    \<and> lh_n t = 0 \<and> sint (rd32 (disk_img t (unat (log_start s))) 0) = 0
    \<and> (\<forall>j r. idle r \<longrightarrow> log_dev r = ROOTDEV \<longrightarrow> log_start r = log_start s \<longrightarrow>
         disk_img r = apply_writes (take j ws) (disk_img s) \<longrightarrow>
         (\<exists>r'. recover_from_log r = Ret () r' \<and>
            (\<forall>b. b \<notin> {unat (log_start s)..<unat (log_start s) + Z} \<longrightarrow> disk_img r' b = disk_img t b)))"
proof -
  let ?L = "unat (log_start s)"
  obtain t where t: "recover_from_log s = Ret () t" "lh_n t = 0" "disk_img t = recovered ?L (disk_img s)"
    "disk_hist t = disk_hist s @ recovery_writes ?L (disk_img s)"
    using recover_spec [OF idle_cache [OF assms(1)] assms(2) refl assms(3)] by blast
  have rec: "\<exists>r'. recover_from_log r = Ret () r' \<and> (\<forall>b. b \<notin> {?L..<?L + Z} \<longrightarrow> disk_img r' b = disk_img t b)"
    if r: "idle r" "log_dev r = ROOTDEV" "log_start r = log_start s" "disk_img r = apply_writes (take j (recovery_writes ?L (disk_img s))) (disk_img s)" for j r
  proof -
    have "unat (log_start r) = ?L" "head_fits ?L Z (disk_img r)" using r(3,4) recovery_crash(1) [OF assms(3)] by simp_all
    from recover_spec [OF idle_cache [OF r(1)] r(2) this]
    obtain r' where "recover_from_log r = Ret () r'" "disk_img r' = recovered ?L (disk_img r)" by blast
    then show ?thesis using recovery_crash(2) [OF assms(3)] r(4) t(3) by auto
  qed
  have e: "sint (rd32 (disk_img t ?L) 0) = 0" by (simp add: t(3) recovered_def recovery_writes_def)
  show ?thesis
    by (intro exI [of _ t] exI [of _ "recovery_writes ?L (disk_img s)"] conjI allI impI; (erule (3) rec)?)
      (use t e in \<open>simp_all add: recovered_def\<close>)
qed

lemma begin_op_eq:
  assumes "calm s" and "\<not> log_committing s" and "lh_n s + (log_outstanding s + 1) * MAXOPBLOCKS \<le> LOGSIZE"
  shows "begin_op s = Ret () (settle s\<lparr>log_outstanding := log_outstanding s + 1\<rparr>)"
  using assms calmD(1) [OF assms(1)] calmD(2) [OF assms(1), of Log_lock]
  by (simp add: begin_op_def begin_op_loop_def calm_acquire lock_simps)

text \<open>
  C15. The log makes progress. When the last operation of a transaction ends, every process
  that waits in \<open>begin_op\<close> is made runnable, and the condition it waits for holds: the next
  \<open>begin_op\<close> returns, with one operation outstanding and an empty transaction.
\<close>

theorem log_progress:
  assumes "log_ok s" and "held s = {}" and "log_outstanding s = 1" and "\<not> log_committing s"
  shows "\<exists>t u. end_op s = Ret () t
    \<and> (\<forall>p<NPROC. cur s \<noteq> Some p \<longrightarrow> p_state (proc s p) = SLEEPING \<longrightarrow> p_chan (proc s p) = Some Chan_log \<longrightarrow>
         p_state (proc t p) = RUNNABLE)
    \<and> begin_op t = Ret () u \<and> log_outstanding u = 1 \<and> lh_n u = 0 \<and> log_ok u"
proof -
  obtain t where t: "end_op s = Ret () t" "log_ok t" "lh_n t = 0" "log_outstanding t = 0" "\<not> log_committing t"
    "\<forall>p<NPROC. cur s \<noteq> Some p \<longrightarrow> p_state (proc s p) = SLEEPING \<longrightarrow> p_chan (proc s p) = Some Chan_log \<longrightarrow> p_state (proc t p) = RUNNABLE"
    using end_op_last [OF assms] by blast
  let ?u = "settle t\<lparr>log_outstanding := 1\<rparr>"
  have "begin_op t = Ret () ?u" using begin_op_eq [OF log_okD(6) [OF t(2)] t(5)] t(3,4) by (simp add: LOGSIZE_def MAXOPBLOCKS_def)
  moreover have "log_ok ?u" using t(2) by (simp add: log_ok_def logged_def)
  ultimately show ?thesis using t by (intro exI [of _ t] exI [of _ ?u]) simp
qed

text \<open>
  C37. The reservation of log space is one block short. With a log of \<open>LOGSIZE\<close> blocks, as the
  file system image has, \<open>begin_op\<close> admits a third operation to an empty transaction,
  reserving \<open>MAXOPBLOCKS\<close> blocks for each; but one block of the log is the header, and
  \<open>log_write\<close> panics on the thirtieth block that these operations were promised.
\<close>

theorem log_reservation_gap:
  assumes "calm s" and "\<not> log_committing s" and "log_size s = LOGSIZE" and "log_outstanding s = 2"
  shows "(lh_n s = 0 \<longrightarrow> (\<exists>t. begin_op s = Ret () t \<and> log_outstanding t * MAXOPBLOCKS = LOGSIZE))
    \<and> (lh_n s = LOGSIZE - 1 \<longrightarrow> log_write b s = Panic ''too big a transaction'')"
proof (intro conjI impI)
  assume "lh_n s = 0"
  then have "begin_op s = Ret () (settle s\<lparr>log_outstanding := log_outstanding s + 1\<rparr>)"
    using begin_op_eq [OF assms(1,2)] assms(4) by (simp add: LOGSIZE_def)
  then show "\<exists>t. begin_op s = Ret () t \<and> log_outstanding t * MAXOPBLOCKS = LOGSIZE"
    using assms(4) by (simp add: LOGSIZE_def)
next
  assume "lh_n s = LOGSIZE - 1"
  then show "log_write b s = Panic ''too big a transaction''"
    using assms(3) by (simp add: log_write_def calm_acquire [OF assms(1)])
qed

section \<open>A transaction on a small disk\<close>

definition demo_log :: "(nat \<Rightarrow> block) \<Rightarrow> int \<Rightarrow> log_state" where
  "demo_log img out = disk_state.extend (binit (demo_disk\<lparr>disk_img := img\<rparr>)) (log_state.fields 2 30 out False ROOTDEV 0 (\<lambda>_. 0))"

lemma demo_log_fields [simp]:
  "log_start (demo_log img out) = 2" "log_size (demo_log img out) = 30" "log_outstanding (demo_log img out) = out"
  "\<not> log_committing (demo_log img out)" "log_dev (demo_log img out) = ROOTDEV" "lh_n (demo_log img out) = 0"
  by (simp_all add: demo_log_def disk_state.defs log_state.defs)

lemma demo_log_idle [simp]: "idle (demo_log img out)" "disk_img (demo_log img out) = img"
proof -
  let ?d = "demo_disk\<lparr>disk_img := img\<rparr>"
  have "calm ?d" "vdisk_ok ?d" using demo_disk_ok by (simp_all add: calm_def vdisk_ok_def)
  moreover have "\<forall>i<NBUF. b_dev (bufs ?d i) = 0 \<and> b_refcnt (bufs ?d i) = 0 \<and> \<not> b_disk (bufs ?d i)" by (simp add: free_buf_def)
  ultimately have "idle (binit ?d)" "disk_img (binit ?d) = img" using binit_idle by fastforce+
  then show "idle (demo_log img out)" "disk_img (demo_log img out) = img"
    by (simp_all add: demo_log_def disk_state.defs idle_def bio_ok_def calm_def vdisk_ok_def)
qed

lemma demo_log_ok [simp]: "log_ok (demo_log img out)" "held (demo_log img out) = {}"
  using idle_cache [OF demo_log_idle(1)] by (simp_all add: log_ok_def logged_def log_fits_def LOGSIZE_def MAXOPBLOCKS_def)

text \<open>Block 40 is filled with sevens in a transaction.\<close>

definition demo_img :: "nat \<Rightarrow> block" where
  "demo_img k = (if k = 2 then (\<lambda>_. 0) else (\<lambda>_. of_nat k))"

definition demo_tx :: "(log_state, unit) res" where
  "demo_tx =
     res_bind (bread ROOTDEV 40 (demo_log demo_img 1)) (\<lambda>b s.
     res_bind (log_write b (upd_buf b (\<lambda>x. x\<lparr>b_data := \<lambda>_. 7\<rparr>) s)) (\<lambda>_ s.
     brelse b s))"

lemma demo_tx_ok:
  "\<exists>s. demo_tx = Ret () s \<and> log_ok s \<and> held s = {} \<and> log_outstanding s = 1 \<and> \<not> log_committing s \<and> log_start s = 2 \<and> log_size s = 30
     \<and> lh_n s = 1 \<and> view s 40 = (\<lambda>_. 7) \<and> disk_img s = demo_img"
proof -
  let ?s = "demo_log demo_img 1"
  have "unat (40 :: uint) = 40" "(40 :: nat) < 2 ^ 31" "40 \<in> {} \<or> finite {} \<and> card (held ?s) + card {} < NBUF"
    "\<forall>i\<in>held ?s. \<not> is_block (bufs ?s i) 40" by (simp_all add: NBUF_def)
  from cache_bread [OF idle_cache(1) [OF demo_log_idle(1)] this]
  obtain b t where t: "bread ROOTDEV 40 ?s = Ret b t" "cache_ok {} t" "bio_frame ?s t" "held t = {b}" "is_block (bufs t b) 40"
    "disk_img t = demo_img" by (auto simp: demo_log_ok)
  define u where "u = upd_buf b (\<lambda>x. x\<lparr>b_data := \<lambda>_. 7\<rparr>) t"
  have "b \<in> held t" using t(4) by simp
  note u = cache_set_data [OF t(2) this t(5), of "\<lambda>_. 7", folded u_def]
  have uf: "bio_frame ?s u" using bio_frame_trans [OF t(3) u(2)] .
  note f = log_frame [OF uf, simplified]
  have "log_ok u" using u(1) f by (simp add: log_ok_def logged_def log_fits_def LOGSIZE_def MAXOPBLOCKS_def)
  moreover have "b \<in> held u" "is_block (bufs u b) 40" using u(4,5) t(4,5) by simp_all
  moreover have "40 \<notin> log_region u" "lh_n u < log_size u - 1" "1 \<le> log_outstanding u" using f by (simp_all add: log_region_def)
  ultimately obtain v where v: "log_write b u = Ret () v" "log_ok v" "tx_frame u v" "held v = held u" "logged v = insert 40 (logged u)"
    "view v = view u" "disk_img v = disk_img u" "\<forall>i m. is_block (bufs v i) m = is_block (bufs u i) m"
    using log_write_spec [of u b 40] by auto
  have "b \<in> held v" "is_block (bufs v b) 40" "40 \<in> logged v" using v(4,5,8) u(4,5) t(4,5) by auto
  from cache_brelse [OF log_okD(5) [OF v(2)] this(1,2) disjI1 [OF this(3)]]
  obtain w where w: "brelse b v = Ret () w" "cache_ok (logged v) w" "bio_frame v w" "view w = view v" "held w = held v - {b}"
    "disk_img w = disk_img v" by blast
  note g = log_frame [OF w(3)] tx_frameD [OF v(3)]
  have lw: "logged w = logged v" using g by (simp add: logged_def)
  then have ok: "log_ok w" using v(2) w(2) g by (intro log_field_cong [OF v(2)]) simp_all
  have "logged u = {}" using f by (simp add: logged_def)
  then have "nat (lh_n w) = 1" using log_okD(8) [OF ok] lw v(5) by simp
  then have "lh_n w = 1" by simp
  moreover have "demo_tx = Ret () w" using t(1) v(1) w(1) by (simp add: demo_tx_def u_def)
  ultimately show ?thesis using ok w v u t f g by (intro exI [of _ w]) auto
qed

theorem log_commit_atomic_witness:
  "\<exists>s t ws. demo_tx = Ret () s \<and> end_op s = Ret () t \<and> disk_hist t = disk_hist s @ ws \<and> disk_img s 40 = (\<lambda>_. 40) \<and> disk_img t 40 = (\<lambda>_. 7)
     \<and> (\<forall>j. \<exists>r'. recover_from_log (demo_log (apply_writes (take j ws) demo_img) 0) = Ret () r'
          \<and> disk_img r' 40 = (if j \<le> 1 then (\<lambda>_. 40) else (\<lambda>_. 7)))"
proof -
  obtain s where s: "demo_tx = Ret () s" "log_ok s" "held s = {}" "log_outstanding s = 1" "\<not> log_committing s" "log_start s = 2"
    "log_size s = 30" "lh_n s = 1" "view s 40 = (\<lambda>_. 7)" "disk_img s = demo_img" using demo_tx_ok by blast
  have "sint (rd32 (disk_img s (unat (log_start s))) 0) = 0" by (simp add: s(6,10) demo_img_def rd32_def map_replicate_const)
  from log_commit_atomic [OF s(2-5) this, where ?'b = unit]
  obtain t ws where t: "end_op s = Ret () t" "disk_hist t = disk_hist s @ ws"
    "\<forall>b. b \<notin> log_region s \<longrightarrow> view t b = view s b \<and> disk_img t b = view s b"
    "\<forall>j (r :: log_state). idle r \<longrightarrow> log_dev r = ROOTDEV \<longrightarrow> log_start r = log_start s \<longrightarrow> disk_img r = apply_writes (take j ws) (disk_img s) \<longrightarrow>
         (\<exists>r'. recover_from_log r = Ret () r' \<and> lh_n r' = 0 \<and>
            (\<forall>b. b \<notin> log_region s \<longrightarrow> disk_img r' b = (if j \<le> nat (lh_n s) then disk_img s b else view s b)))" by blast
  have "40 \<notin> log_region s" by (simp add: log_region_def s(6,7))
  moreover have "\<exists>r'. recover_from_log (demo_log (apply_writes (take j ws) demo_img) 0) = Ret () r'
      \<and> disk_img r' 40 = (if j \<le> 1 then (\<lambda>_. 40) else (\<lambda>_. 7))" for j
    using t(4) [rule_format, of "demo_log (apply_writes (take j ws) demo_img) 0" j] s \<open>40 \<notin> log_region s\<close>
    by (auto simp: demo_img_def)
  ultimately show ?thesis using s t by (intro exI [of _ s] exI [of _ t] exI [of _ ws]) (auto simp: demo_img_def)
qed

theorem recovery_restarts_witness:
  "\<exists>t. recover_from_log (demo_log (demo_img(2 := head_bytes (\<lambda>_. 0) 1 (\<lambda>_. 40))) 0) = Ret () t \<and> lh_n t = 0"
proof -
  let ?i = "demo_img(2 := head_bytes (\<lambda>_. 0) 1 (\<lambda>_. 40))"
  have "head_fits (unat (log_start (demo_log ?i 0))) 30 (disk_img (demo_log ?i 0))"
    using head_bytes_roundtrip [where n = 1 and d = "\<lambda>_. 0" and f = "\<lambda>_. 40"]
    by (auto simp: head_fits_def log_fits_def LOGSIZE_def MAXOPBLOCKS_def)
  from recovery_restarts [OF _ _ this] show ?thesis by auto
qed

theorem log_progress_witness:
  "\<exists>s t u. demo_tx = Ret () s \<and> end_op s = Ret () t \<and> begin_op t = Ret () u \<and> log_outstanding u = 1"
proof -
  obtain s where "demo_tx = Ret () s" "log_ok s" "held s = {}" "log_outstanding s = 1" "\<not> log_committing s" using demo_tx_ok by blast
  from log_progress [OF this(2-5)] this(1) show ?thesis by auto
qed

theorem log_reservation_gap_witness:
  "(\<exists>t. begin_op (demo_log demo_img 2) = Ret () t)
   \<and> log_write 0 (demo_log demo_img 2\<lparr>lh_n := LOGSIZE - 1\<rparr>) = Panic ''too big a transaction''"
proof -
  have c: "calm (demo_log demo_img 2)" using log_okD(6) [OF demo_log_ok(1)] .
  then have "calm (demo_log demo_img 2\<lparr>lh_n := LOGSIZE - 1\<rparr>)" by (simp add: calm_def)
  from log_reservation_gap [OF this, of 0] log_reservation_gap [OF c, of 0]
  show ?thesis by (auto simp: LOGSIZE_def MAXOPBLOCKS_def)
qed

end
