(* ===== verification/Fs.thy ===== *)
theory Fs
  imports Log Cstring
begin

text \<open>
  The file system, \<open>kernel/fs.c\<close>: super block, block allocator, inodes, inode contents,
  directories and path names, as definitions over the log and the buffer cache. A
  \<open>struct inode *\<close> is an index into \<open>itable.inode\<close>. A \<open>struct dinode\<close> and a
  \<open>struct dirent\<close> are read and written at their offsets in the block. A pointer into a path
  is the rest of the string in front of its terminating 0. Loops over offsets are recursions
  over the lists of the offsets; the loops of \<open>readi\<close> and \<open>writei\<close> recurse on the bytes that
  remain.
\<close>

section \<open>State\<close>

definition ROOTINO :: uint where "ROOTINO = 1"
definition FSMAGIC :: uint where "FSMAGIC = 0x10203040"
definition NDIRECT :: nat where "NDIRECT = 12"
definition NINDIRECT :: nat where "NINDIRECT = BSIZE div 4"
definition MAXFILE :: nat where "MAXFILE = NDIRECT + NINDIRECT"
definition NINODE :: nat where "NINODE = 50"
definition DIRSIZ :: nat where "DIRSIZ = 14"
definition BPB :: nat where "BPB = BSIZE * 8"
definition T_DIR :: ushort where "T_DIR = 1"
definition T_FILE :: ushort where "T_FILE = 2"
definition T_DEVICE :: ushort where "T_DEVICE = 3"

text \<open>The offsets of the fields of \<open>struct dinode\<close> and its size\<close>

definition dinode :: "(string \<times> nat) list" where
  "dinode = [(''type'', 0), (''major'', 2), (''minor'', 4), (''nlink'', 6), (''size'', 8), (''addrs'', 12)]"

definition dinode_size :: nat where "dinode_size = 12 + 4 * (NDIRECT + 1)"

definition dinode_off :: "string \<Rightarrow> nat" where
  "dinode_off f = the (map_of dinode f)"

definition IPB :: nat where "IPB = BSIZE div dinode_size"

text \<open>\<open>struct dirent\<close>: a 16-bit inode number and the name\<close>

definition dirent_name :: nat where "dirent_name = 2"
definition dirent_size :: nat where "dirent_size = dirent_name + DIRSIZ"

record inode =
  i_dev :: uint
  i_inum :: uint
  i_ref :: int
  i_valid :: bool
  i_type :: ushort
  i_major :: ushort
  i_minor :: ushort
  i_nlink :: ushort
  i_size :: uint
  i_addrs :: "nat \<Rightarrow> uint"

record stat =
  st_dev :: uint
  st_ino :: uint
  st_type :: ushort
  st_nlink :: ushort
  st_size :: uint64

record fs_state = log_state +
  sb :: superblock
  itable :: "nat \<Rightarrow> inode"

definition upd_inode :: "nat \<Rightarrow> (inode \<Rightarrow> inode) \<Rightarrow> 'a fs_state_scheme \<Rightarrow> 'a fs_state_scheme" where
  "upd_inode ip f s = s\<lparr>itable := (itable s)(ip := f (itable s ip))\<rparr>"

definition IBLOCK :: "uint \<Rightarrow> superblock \<Rightarrow> uint" where
  "IBLOCK i b = of_nat (unat i div IPB) + sb_inodestart b"

definition BBLOCK :: "nat \<Rightarrow> superblock \<Rightarrow> uint" where
  "BBLOCK i b = of_nat (i div BPB) + sb_bmapstart b"

definition set_data :: "nat \<Rightarrow> block \<Rightarrow> 'a disk_state_scheme \<Rightarrow> 'a disk_state_scheme" where
  "set_data b d s = upd_buf b (\<lambda>x. x\<lparr>b_data := d\<rparr>) s"

section \<open>Super block\<close>

definition readsb :: "uint \<Rightarrow> 'a fs_state_scheme \<Rightarrow> ('a fs_state_scheme, unit) res" where
  "readsb dev s =
     res_bind (bread dev 1 s) (\<lambda>bp s.
     let d = b_data (bufs s bp);
         s = s\<lparr>sb := \<lparr>sb_magic = rd32 d 0, sb_size = rd32 d 4, sb_nblocks = rd32 d 8, sb_ninodes = rd32 d 12,
               sb_nlog = rd32 d 16, sb_logstart = rd32 d 20, sb_inodestart = rd32 d 24, sb_bmapstart = rd32 d 28\<rparr>\<rparr>
     in brelse bp s)"

definition fsinit :: "uint \<Rightarrow> 'a fs_state_scheme \<Rightarrow> ('a fs_state_scheme, unit) res" where
  "fsinit dev s =
     res_bind (readsb dev s) (\<lambda>_ s.
     if sb_magic (sb s) \<noteq> FSMAGIC then Panic ''invalid file system''
     else initlog dev (sb s) s)"

section \<open>Blocks\<close>

definition bzero :: "uint \<Rightarrow> uint \<Rightarrow> 'a fs_state_scheme \<Rightarrow> ('a fs_state_scheme, unit) res" where
  "bzero dev bno s =
     res_bind (bread dev bno s) (\<lambda>bp s.
     res_bind (log_write bp (set_data bp (\<lambda>_. 0) s)) (\<lambda>_ s.
     brelse bp s))"

definition bmask :: "nat \<Rightarrow> byte" where
  "bmask bi = push_bit (bi mod 8) 1"

primrec balloc_loop :: "uint \<Rightarrow> nat list \<Rightarrow> 'a fs_state_scheme \<Rightarrow> ('a fs_state_scheme, uint) res" where
  "balloc_loop dev [] s = Panic ''balloc: out of blocks''"
| "balloc_loop dev (b # bs) s =
     res_bind (bread dev (BBLOCK b (sb s)) s) (\<lambda>bp s.
     let d = b_data (bufs s bp) in
     case find (\<lambda>bi. d (bi div 8) AND bmask bi = 0) [0..<min BPB (unat (sb_size (sb s)) - b)] of
       Some bi \<Rightarrow>
         res_bind (log_write bp (set_data bp (d(bi div 8 := d (bi div 8) OR bmask bi)) s)) (\<lambda>_ s.
         res_bind (brelse bp s) (\<lambda>_ s.
         res_bind (bzero dev (of_nat (b + bi)) s) (\<lambda>_ s.
         Ret (of_nat (b + bi)) s)))
     | None \<Rightarrow> res_bind (brelse bp s) (\<lambda>_ s. balloc_loop dev bs s))"

definition balloc :: "uint \<Rightarrow> 'a fs_state_scheme \<Rightarrow> ('a fs_state_scheme, uint) res" where
  "balloc dev s = balloc_loop dev (map (\<lambda>k. BPB * k) [0..<(unat (sb_size (sb s)) + BPB - 1) div BPB]) s"

definition bfree :: "uint \<Rightarrow> uint \<Rightarrow> 'a fs_state_scheme \<Rightarrow> ('a fs_state_scheme, unit) res" where
  "bfree dev b s =
     res_bind (bread dev (BBLOCK (unat b) (sb s)) s) (\<lambda>bp s.
     let bi = unat b mod BPB;
         d = b_data (bufs s bp)
     in if d (bi div 8) AND bmask bi = 0 then Panic ''freeing free block''
        else
          res_bind (log_write bp (set_data bp (d(bi div 8 := d (bi div 8) AND NOT (bmask bi))) s)) (\<lambda>_ s.
          brelse bp s))"

section \<open>Inodes\<close>

definition iinit :: "'a fs_state_scheme \<Rightarrow> 'a fs_state_scheme" where
  "iinit s = fold (\<lambda>i s. initsleeplock (InodeLock i) ''inode'' s) [0..<NINODE] (initlock Itable_lock ''itable'' s)"

definition iget :: "uint \<Rightarrow> uint \<Rightarrow> 'a fs_state_scheme \<Rightarrow> ('a fs_state_scheme, nat) res" where
  "iget dev inum s =
     res_bind (acquire Itable_lock s) (\<lambda>_ s.
     case find (\<lambda>ip. 0 < i_ref (itable s ip) \<and> i_dev (itable s ip) = dev \<and> i_inum (itable s ip) = inum) [0..<NINODE] of
       Some ip \<Rightarrow>
         res_bind (release Itable_lock (upd_inode ip (\<lambda>i. i\<lparr>i_ref := i_ref i + 1\<rparr>) s)) (\<lambda>_ s. Ret ip s)
     | None \<Rightarrow>
         (case find (\<lambda>ip. i_ref (itable s ip) = 0) [0..<NINODE] of
            None \<Rightarrow> Panic ''iget: no inodes''
          | Some ip \<Rightarrow>
              res_bind (release Itable_lock
                (upd_inode ip (\<lambda>i. i\<lparr>i_dev := dev, i_inum := inum, i_ref := 1, i_valid := False\<rparr>) s)) (\<lambda>_ s.
              Ret ip s)))"

text \<open>\<open>memset\<close> of the inode to 0 and setting its type\<close>

definition clear_dinode :: "block \<Rightarrow> nat \<Rightarrow> ushort \<Rightarrow> block" where
  "clear_dinode d o1 ty = wr16 (write_at d o1 (replicate dinode_size 0)) (o1 + dinode_off ''type'') ty"

primrec ialloc_loop :: "uint \<Rightarrow> ushort \<Rightarrow> nat list \<Rightarrow> 'a fs_state_scheme \<Rightarrow> ('a fs_state_scheme, nat) res" where
  "ialloc_loop dev ty [] s = Panic ''ialloc: no inodes''"
| "ialloc_loop dev ty (inum # inums) s =
     res_bind (bread dev (IBLOCK (of_nat inum) (sb s)) s) (\<lambda>bp s.
     let d = b_data (bufs s bp);
         dip = dinode_size * (inum mod IPB)
     in if rd16 d (dip + dinode_off ''type'') = 0 then
          res_bind (log_write bp (set_data bp (clear_dinode d dip ty) s)) (\<lambda>_ s.
          res_bind (brelse bp s) (\<lambda>_ s.
          iget dev (of_nat inum) s))
        else res_bind (brelse bp s) (\<lambda>_ s. ialloc_loop dev ty inums s))"

definition ialloc :: "uint \<Rightarrow> ushort \<Rightarrow> 'a fs_state_scheme \<Rightarrow> ('a fs_state_scheme, nat) res" where
  "ialloc dev ty s = ialloc_loop dev ty [1..<unat (sb_ninodes (sb s))] s"

definition put_dinode :: "block \<Rightarrow> nat \<Rightarrow> inode \<Rightarrow> block" where
  "put_dinode d dip i =
     (let d = wr16 d (dip + dinode_off ''type'') (i_type i);
          d = wr16 d (dip + dinode_off ''major'') (i_major i);
          d = wr16 d (dip + dinode_off ''minor'') (i_minor i);
          d = wr16 d (dip + dinode_off ''nlink'') (i_nlink i);
          d = wr32 d (dip + dinode_off ''size'') (i_size i)
      in wr32s d (dip + dinode_off ''addrs'') (i_addrs i) (NDIRECT + 1))"

definition get_dinode :: "block \<Rightarrow> nat \<Rightarrow> inode \<Rightarrow> inode" where
  "get_dinode d dip i =
     i\<lparr>i_type := rd16 d (dip + dinode_off ''type''),
       i_major := rd16 d (dip + dinode_off ''major''),
       i_minor := rd16 d (dip + dinode_off ''minor''),
       i_nlink := rd16 d (dip + dinode_off ''nlink''),
       i_size := rd32 d (dip + dinode_off ''size''),
       i_addrs := \<lambda>k. if k < NDIRECT + 1 then rd32 d (dip + dinode_off ''addrs'' + 4 * k) else i_addrs i k\<rparr>"

definition iupdate :: "nat \<Rightarrow> 'a fs_state_scheme \<Rightarrow> ('a fs_state_scheme, unit) res" where
  "iupdate ip s =
     res_bind (bread (i_dev (itable s ip)) (IBLOCK (i_inum (itable s ip)) (sb s)) s) (\<lambda>bp s.
     let dip = dinode_size * (unat (i_inum (itable s ip)) mod IPB) in
     res_bind (log_write bp (set_data bp (put_dinode (b_data (bufs s bp)) dip (itable s ip)) s)) (\<lambda>_ s.
     brelse bp s))"

definition idup :: "nat \<Rightarrow> 'a fs_state_scheme \<Rightarrow> ('a fs_state_scheme, nat) res" where
  "idup ip s =
     res_bind (acquire Itable_lock s) (\<lambda>_ s.
     res_bind (release Itable_lock (upd_inode ip (\<lambda>i. i\<lparr>i_ref := i_ref i + 1\<rparr>) s)) (\<lambda>_ s.
     Ret ip s))"

definition ilock :: "nat option \<Rightarrow> 'a fs_state_scheme \<Rightarrow> ('a fs_state_scheme, unit) res" where
  "ilock ipo s =
     (case ipo of None \<Rightarrow> Panic ''ilock''
      | Some ip \<Rightarrow>
          if i_ref (itable s ip) < 1 then Panic ''ilock''
          else
            res_bind (acquiresleep (InodeLock ip) s) (\<lambda>_ s.
            if \<not> i_valid (itable s ip) then
              res_bind (bread (i_dev (itable s ip)) (IBLOCK (i_inum (itable s ip)) (sb s)) s) (\<lambda>bp s.
              let dip = dinode_size * (unat (i_inum (itable s ip)) mod IPB);
                  s = upd_inode ip (get_dinode (b_data (bufs s bp)) dip) s in
              res_bind (brelse bp s) (\<lambda>_ s.
              let s = upd_inode ip (\<lambda>i. i\<lparr>i_valid := True\<rparr>) s in
              if i_type (itable s ip) = 0 then Panic ''ilock: no type'' else Ret () s))
            else Ret () s))"

definition iunlock :: "nat option \<Rightarrow> 'a fs_state_scheme \<Rightarrow> ('a fs_state_scheme, unit) res" where
  "iunlock ipo s =
     (case ipo of None \<Rightarrow> Panic ''iunlock''
      | Some ip \<Rightarrow>
          res_bind (holdingsleep (InodeLock ip) s) (\<lambda>h s.
          if \<not> h \<or> i_ref (itable s ip) < 1 then Panic ''iunlock''
          else releasesleep (InodeLock ip) s))"

section \<open>Contents of inodes\<close>

definition bmap :: "nat \<Rightarrow> nat \<Rightarrow> 'a fs_state_scheme \<Rightarrow> ('a fs_state_scheme, uint) res" where
  "bmap ip bn s =
     (if bn < NDIRECT then
        let addr = i_addrs (itable s ip) bn in
        if addr = 0 then
          res_bind (balloc (i_dev (itable s ip)) s) (\<lambda>addr s.
          Ret addr (upd_inode ip (\<lambda>i. i\<lparr>i_addrs := (i_addrs i)(bn := addr)\<rparr>) s))
        else Ret addr s
      else
        let bn = bn - NDIRECT in
        if bn < NINDIRECT then
          res_bind
            (let addr = i_addrs (itable s ip) NDIRECT in
             if addr = 0 then
               res_bind (balloc (i_dev (itable s ip)) s) (\<lambda>addr s.
               Ret addr (upd_inode ip (\<lambda>i. i\<lparr>i_addrs := (i_addrs i)(NDIRECT := addr)\<rparr>) s))
             else Ret addr s) (\<lambda>addr s.
          res_bind (bread (i_dev (itable s ip)) addr s) (\<lambda>bp s.
          let addr = rd32 (b_data (bufs s bp)) (4 * bn) in
          if addr = 0 then
            res_bind (balloc (i_dev (itable s ip)) s) (\<lambda>addr s.
            res_bind (log_write bp (set_data bp (wr32 (b_data (bufs s bp)) (4 * bn) addr) s)) (\<lambda>_ s.
            res_bind (brelse bp s) (\<lambda>_ s. Ret addr s)))
          else res_bind (brelse bp s) (\<lambda>_ s. Ret addr s)))
        else Panic ''bmap: out of range'')"

definition itrunc_direct :: "nat \<Rightarrow> nat \<Rightarrow> 'a fs_state_scheme \<Rightarrow> ('a fs_state_scheme, unit) res" where
  "itrunc_direct ip i s =
     (if i_addrs (itable s ip) i \<noteq> 0 then
        res_bind (bfree (i_dev (itable s ip)) (i_addrs (itable s ip) i) s) (\<lambda>_ s.
        Ret () (upd_inode ip (\<lambda>x. x\<lparr>i_addrs := (i_addrs x)(i := 0)\<rparr>) s))
      else Ret () s)"

definition itrunc :: "nat \<Rightarrow> 'a fs_state_scheme \<Rightarrow> ('a fs_state_scheme, unit) res" where
  "itrunc ip s =
     res_bind (res_for [0..<NDIRECT] (itrunc_direct ip) s) (\<lambda>_ s.
     res_bind
       (if i_addrs (itable s ip) NDIRECT \<noteq> 0 then
          res_bind (bread (i_dev (itable s ip)) (i_addrs (itable s ip) NDIRECT) s) (\<lambda>bp s.
          res_bind (res_for [0..<NINDIRECT] (\<lambda>j s.
              let a = rd32 (b_data (bufs s bp)) (4 * j) in
              if a \<noteq> 0 then bfree (i_dev (itable s ip)) a s else Ret () s) s) (\<lambda>_ s.
          res_bind (brelse bp s) (\<lambda>_ s.
          res_bind (bfree (i_dev (itable s ip)) (i_addrs (itable s ip) NDIRECT) s) (\<lambda>_ s.
          Ret () (upd_inode ip (\<lambda>x. x\<lparr>i_addrs := (i_addrs x)(NDIRECT := 0)\<rparr>) s)))))
        else Ret () s) (\<lambda>_ s.
     iupdate ip (upd_inode ip (\<lambda>x. x\<lparr>i_size := 0\<rparr>) s)))"

definition iput :: "nat \<Rightarrow> 'a fs_state_scheme \<Rightarrow> ('a fs_state_scheme, unit) res" where
  "iput ip s =
     res_bind (acquire Itable_lock s) (\<lambda>_ s.
     res_bind
       (if i_ref (itable s ip) = 1 \<and> i_valid (itable s ip) \<and> i_nlink (itable s ip) = 0 then
          res_bind (acquiresleep (InodeLock ip) s) (\<lambda>_ s.
          res_bind (release Itable_lock s) (\<lambda>_ s.
          res_bind (itrunc ip s) (\<lambda>_ s.
          res_bind (iupdate ip (upd_inode ip (\<lambda>i. i\<lparr>i_type := 0\<rparr>) s)) (\<lambda>_ s.
          res_bind (releasesleep (InodeLock ip) (upd_inode ip (\<lambda>i. i\<lparr>i_valid := False\<rparr>) s)) (\<lambda>_ s.
          acquire Itable_lock s)))))
        else Ret () s) (\<lambda>_ s.
     release Itable_lock (upd_inode ip (\<lambda>i. i\<lparr>i_ref := i_ref i - 1\<rparr>) s)))"

definition iunlockput :: "nat \<Rightarrow> 'a fs_state_scheme \<Rightarrow> ('a fs_state_scheme, unit) res" where
  "iunlockput ip s = res_bind (iunlock (Some ip) s) (\<lambda>_ s. iput ip s)"

definition stati :: "nat \<Rightarrow> 'a fs_state_scheme \<Rightarrow> stat" where
  "stati ip s =
     (let i = itable s ip
      in \<lparr>st_dev = i_dev i, st_ino = i_inum i, st_type = i_type i, st_nlink = i_nlink i, st_size = ucast (i_size i)\<rparr>)"

text \<open>The loop of \<open>readi\<close> with \<open>n\<close> bytes to go; the result is whether all were copied.\<close>

function readi_loop :: "nat \<Rightarrow> place \<Rightarrow> nat \<Rightarrow> nat \<Rightarrow> 'a fs_state_scheme \<Rightarrow> ('a fs_state_scheme, bool \<times> place) res" where
  "readi_loop ip dst off n s =
     (if n = 0 then Ret (True, dst) s
      else
        res_bind (bmap ip (off div BSIZE) s) (\<lambda>a s.
        res_bind (bread (i_dev (itable s ip)) a s) (\<lambda>bp s.
        let m = min n (BSIZE - off mod BSIZE) in
        res_bind (either_copyout dst (\<lambda>i. b_data (bufs s bp) (off mod BSIZE + i)) (of_nat m) s) (\<lambda>(r, dst) s.
        if r = -1 then res_bind (brelse bp s) (\<lambda>_ s. Ret (False, dst) s)
        else
          res_bind (brelse bp s) (\<lambda>_ s.
          readi_loop ip (advance (of_nat m) dst) (off + m) (n - m) s)))))"
  by pat_completeness auto
termination
  by (relation "measure (\<lambda>(ip, dst, off, n, s). n)") (auto simp: BSIZE_def)

definition readi :: "nat \<Rightarrow> place \<Rightarrow> uint \<Rightarrow> uint \<Rightarrow> 'a fs_state_scheme \<Rightarrow> ('a fs_state_scheme, int \<times> place) res" where
  "readi ip dst off n s =
     (if off > i_size (itable s ip) \<or> off + n < off then Ret (0, dst) s
      else
        let n = (if off + n > i_size (itable s ip) then i_size (itable s ip) - off else n) in
        res_bind (readi_loop ip dst (unat off) (unat n) s) (\<lambda>(ok, dst) s.
        Ret (if ok then int (unat n) else -1, dst) s))"

text \<open>
  The loop of \<open>writei\<close>; the result is the number of bytes that were not copied. When
  \<open>either_copyin\<close> fails it may have changed a part of the buffer.
\<close>

function writei_loop :: "nat \<Rightarrow> place \<Rightarrow> nat \<Rightarrow> nat \<Rightarrow> 'a fs_state_scheme \<Rightarrow> ('a fs_state_scheme, nat) res" where
  "writei_loop ip src off n s =
     (if n = 0 then Ret 0 s
      else
        res_bind (bmap ip (off div BSIZE) s) (\<lambda>a s.
        res_bind (bread (i_dev (itable s ip)) a s) (\<lambda>bp s.
        let m = min n (BSIZE - off mod BSIZE) in
        res_bind (either_copyin (b_data (bufs s bp)) (off mod BSIZE) src (of_nat m) s) (\<lambda>(r, d) s.
        if r = -1 then res_bind (brelse bp (set_data bp d s)) (\<lambda>_ s. Ret n s)
        else
          res_bind (log_write bp (set_data bp d s)) (\<lambda>_ s.
          res_bind (brelse bp s) (\<lambda>_ s.
          writei_loop ip (advance (of_nat m) src) (off + m) (n - m) s))))))"
  by pat_completeness auto
termination
  by (relation "measure (\<lambda>(ip, src, off, n, s). n)") (auto simp: BSIZE_def)

definition writei :: "nat \<Rightarrow> place \<Rightarrow> uint \<Rightarrow> uint \<Rightarrow> 'a fs_state_scheme \<Rightarrow> ('a fs_state_scheme, int) res" where
  "writei ip src off n s =
     (if off > i_size (itable s ip) \<or> off + n < off then Ret (-1) s
      else if unat (off + n) > MAXFILE * BSIZE then Ret (-1) s
      else
        res_bind (writei_loop ip src (unat off) (unat n) s) (\<lambda>left s.
        let tot = unat n - left;
            s = (if unat off + tot > unat (i_size (itable s ip))
                 then upd_inode ip (\<lambda>i. i\<lparr>i_size := of_nat (unat off + tot)\<rparr>) s else s)
        in res_bind (iupdate ip s) (\<lambda>_ s. Ret (int tot) s)))"

section \<open>Directories\<close>

definition namecmp :: "cptr \<Rightarrow> cptr \<Rightarrow> int" where
  "namecmp s t = strncmp s t (of_nat DIRSIZ)"

text \<open>The offsets of the entries of a directory, and reading one\<close>

definition dir_offs :: "uint \<Rightarrow> nat list" where
  "dir_offs sz = map (\<lambda>k. dirent_size * k) [0..<(unat sz + dirent_size - 1) div dirent_size]"

definition read_dirent :: "string \<Rightarrow> nat \<Rightarrow> nat \<Rightarrow> 'a fs_state_scheme \<Rightarrow> ('a fs_state_scheme, cptr) res" where
  "read_dirent msg dp off s =
     res_bind (readi dp (Obj (\<lambda>_. 0) 0) (of_nat off) (of_nat dirent_size) s) (\<lambda>(r, de) s.
     if r \<noteq> int dirent_size then Panic msg
     else Ret (case de of Obj d k \<Rightarrow> d | _ \<Rightarrow> \<lambda>_. 0) s)"

primrec dirlookup_loop :: "nat \<Rightarrow> cptr \<Rightarrow> nat list \<Rightarrow> 'a fs_state_scheme \<Rightarrow> ('a fs_state_scheme, (nat \<times> nat) option) res" where
  "dirlookup_loop dp name [] s = Ret None s"
| "dirlookup_loop dp name (off # offs) s =
     res_bind (read_dirent ''dirlookup read'' dp off s) (\<lambda>de s.
     if rd16 de 0 = 0 then dirlookup_loop dp name offs s
     else if namecmp name (\<lambda>i. de (dirent_name + i)) = 0 then
       res_bind (iget (i_dev (itable s dp)) (ucast (rd16 de 0)) s) (\<lambda>ip s. Ret (Some (ip, off)) s)
     else dirlookup_loop dp name offs s)"

definition dirlookup :: "nat \<Rightarrow> cptr \<Rightarrow> 'a fs_state_scheme \<Rightarrow> ('a fs_state_scheme, (nat \<times> nat) option) res" where
  "dirlookup dp name s =
     (if i_type (itable s dp) \<noteq> T_DIR then Panic ''dirlookup not DIR''
      else dirlookup_loop dp name (dir_offs (i_size (itable s dp))) s)"

primrec dirlink_loop :: "nat \<Rightarrow> nat \<Rightarrow> nat list \<Rightarrow> 'a fs_state_scheme \<Rightarrow> ('a fs_state_scheme, nat) res" where
  "dirlink_loop dp fin [] s = Ret fin s"
| "dirlink_loop dp fin (off # offs) s =
     res_bind (read_dirent ''dirlink read'' dp off s) (\<lambda>de s.
     if rd16 de 0 = 0 then Ret off s else dirlink_loop dp fin offs s)"

definition dirlink :: "nat \<Rightarrow> cptr \<Rightarrow> uint \<Rightarrow> 'a fs_state_scheme \<Rightarrow> ('a fs_state_scheme, int) res" where
  "dirlink dp name inum s =
     res_bind (dirlookup dp name s) (\<lambda>r s.
     case r of
       Some (ip, _) \<Rightarrow> res_bind (iput ip s) (\<lambda>_ s. Ret (-1) s)
     | None \<Rightarrow>
         let offs = dir_offs (i_size (itable s dp)) in
         res_bind (dirlink_loop dp (dirent_size * length offs) offs s) (\<lambda>off s.
         let nm = strncpy (\<lambda>_. 0) name (int DIRSIZ);
             de = write_at (wr16 (\<lambda>_. 0) 0 (ucast inum)) dirent_name (map nm [0..<DIRSIZ]) in
         res_bind (writei dp (Obj de 0) (of_nat off) (of_nat dirent_size) s) (\<lambda>r s.
         if r \<noteq> int dirent_size then Panic ''dirlink'' else Ret 0 s)))"

section \<open>Paths\<close>

definition skipelem :: "byte list \<Rightarrow> cptr \<Rightarrow> (byte list \<times> cptr) option" where
  "skipelem path name =
     (let path = dropWhile (\<lambda>c. c = 47) path
      in if path = [] then None
         else
           let e = takeWhile (\<lambda>c. c \<noteq> 47) path;
               path = dropWhile (\<lambda>c. c \<noteq> 47) path;
               len = length e;
               name = (if len \<ge> DIRSIZ then write_at name 0 (take DIRSIZ e)
                       else (write_at name 0 e)(len := 0))
           in Some (dropWhile (\<lambda>c. c = 47) path, name))"

lemma skipelem_shorter: "skipelem path name = Some (rest, nm) \<Longrightarrow> length rest < length path"
proof -
  assume a: "skipelem path name = Some (rest, nm)"
  let ?p = "dropWhile (\<lambda>c. c = 47) path"
  let ?q = "dropWhile (\<lambda>c. c \<noteq> 47) ?p"
  have ne: "?p \<noteq> []" and r: "rest = dropWhile (\<lambda>c. c = 47) ?q" using a by (auto simp: skipelem_def Let_def split: if_splits)
  have "hd ?p \<noteq> 47" using hd_dropWhile [OF ne] .
  then have "length ?q < length ?p" using ne length_dropWhile_le [of "\<lambda>c. c \<noteq> 47" "tl ?p"] by (cases ?p) (auto simp: le_imp_less_Suc)
  moreover have "length rest \<le> length ?q" unfolding r by (rule length_dropWhile_le)
  moreover have "length ?p \<le> length path" by (rule length_dropWhile_le)
  ultimately show "length rest < length path" by simp
qed

function namex_loop :: "byte list \<Rightarrow> bool \<Rightarrow> cptr \<Rightarrow> nat \<Rightarrow> 'a fs_state_scheme \<Rightarrow> ('a fs_state_scheme, nat option \<times> cptr) res" where
  "namex_loop path parent name ip s =
     (case skipelem path name of
        None \<Rightarrow> if parent then res_bind (iput ip s) (\<lambda>_ s. Ret (None, name) s) else Ret (Some ip, name) s
      | Some (path, name) \<Rightarrow>
          res_bind (ilock (Some ip) s) (\<lambda>_ s.
          if i_type (itable s ip) \<noteq> T_DIR then res_bind (iunlockput ip s) (\<lambda>_ s. Ret (None, name) s)
          else if parent \<and> path = [] then res_bind (iunlock (Some ip) s) (\<lambda>_ s. Ret (Some ip, name) s)
          else
            res_bind (dirlookup ip name s) (\<lambda>r s.
            case r of
              None \<Rightarrow> res_bind (iunlockput ip s) (\<lambda>_ s. Ret (None, name) s)
            | Some (next, _) \<Rightarrow> res_bind (iunlockput ip s) (\<lambda>_ s. namex_loop path parent name next s))))"
  by pat_completeness auto
termination
  by (relation "measure (\<lambda>(path, parent, name, ip, s). length path)") (auto dest: skipelem_shorter)

definition namex :: "byte list \<Rightarrow> bool \<Rightarrow> cptr \<Rightarrow> 'a fs_state_scheme \<Rightarrow> ('a fs_state_scheme, nat option \<times> cptr) res" where
  "namex path parent name s =
     res_bind
       (if path \<noteq> [] \<and> hd path = 47 then iget ROOTDEV ROOTINO s
        else res_bind (myproc s) (\<lambda>p s. idup (the (p_cwd (proc s (the p)))) s)) (\<lambda>ip s.
     namex_loop path parent name ip s)"

definition namei :: "byte list \<Rightarrow> 'a fs_state_scheme \<Rightarrow> ('a fs_state_scheme, nat option) res" where
  "namei path s = res_bind (namex path False (\<lambda>_. 0) s) (\<lambda>(ip, name) s. Ret ip s)"

definition nameiparent :: "byte list \<Rightarrow> cptr \<Rightarrow> 'a fs_state_scheme \<Rightarrow> ('a fs_state_scheme, nat option \<times> cptr) res" where
  "nameiparent path name s = namex path True name s"

end
