(* ===== verification/File.thy ===== *)
theory File
  imports Fs
begin

text \<open>
  Open files and pipes, \<open>kernel/file.c\<close> and \<open>kernel/pipe.c\<close>, and \<open>consoleinit\<close>, which
  fills in the device switch. A \<open>struct file *\<close> is an index into \<open>ftable.file\<close>. A
  \<open>struct pipe\<close> lives in a page of its own; the state maps the address of the page to the
  pipe in it. A process that sleeps in a pipe operation continues with the \<open>_back\<close>
  definition, which resumes the loop with the counters it had.
\<close>

section \<open>State\<close>

definition NDEV :: int where "NDEV = 10"
definition NFILE :: nat where "NFILE = 100"
definition CONSOLE :: nat where "CONSOLE = 1"
definition PIPESIZE :: nat where "PIPESIZE = 512"

record pipe =
  pi_data :: "nat \<Rightarrow> byte"
  pi_nread :: uint
  pi_nwrite :: uint
  pi_readopen :: bool
  pi_writeopen :: bool

datatype ftype = FD_NONE | FD_PIPE | FD_INODE | FD_DEVICE

record kfile =
  f_type :: ftype
  f_ref :: int
  f_readable :: bool
  f_writable :: bool
  f_pipe :: uint64
  f_ip :: "nat option"
  f_off :: uint
  f_major :: ushort

text \<open>The functions the kernel installs in \<open>devsw\<close>\<close>

datatype devread = Dev_consoleread
datatype devwrite = Dev_consolewrite

record devsw =
  dv_read :: "devread option"
  dv_write :: "devwrite option"

record file_state = fs_state +
  devsw :: "nat \<Rightarrow> devsw"
  ftable :: "nat \<Rightarrow> kfile"
  pipes :: "uint64 \<Rightarrow> pipe"

definition upd_file :: "nat \<Rightarrow> (kfile \<Rightarrow> kfile) \<Rightarrow> 'a file_state_scheme \<Rightarrow> 'a file_state_scheme" where
  "upd_file f g s = s\<lparr>ftable := (ftable s)(f := g (ftable s f))\<rparr>"

definition upd_pipe :: "uint64 \<Rightarrow> (pipe \<Rightarrow> pipe) \<Rightarrow> 'a file_state_scheme \<Rightarrow> 'a file_state_scheme" where
  "upd_pipe a g s = s\<lparr>pipes := (pipes s)(a := g (pipes s a))\<rparr>"

definition consoleinit :: "'a file_state_scheme \<Rightarrow> 'a file_state_scheme" where
  "consoleinit s =
     (let s = initlock Cons_lock ''cons'' s;
          s = uartinit s
      in s\<lparr>devsw := (devsw s)(CONSOLE := \<lparr>dv_read = Some Dev_consoleread, dv_write = Some Dev_consolewrite\<rparr>)\<rparr>)"

section \<open>Pipes\<close>

definition pipeclose :: "uint64 \<Rightarrow> bool \<Rightarrow> 'a file_state_scheme \<Rightarrow> ('a file_state_scheme, unit) res" where
  "pipeclose pi writable s =
     res_bind (acquire (Pipe_lock pi) s) (\<lambda>_ s.
     res_bind
       (if writable then wakeup (Chan_nread pi) (upd_pipe pi (\<lambda>p. p\<lparr>pi_writeopen := False\<rparr>) s)
        else wakeup (Chan_nwrite pi) (upd_pipe pi (\<lambda>p. p\<lparr>pi_readopen := False\<rparr>) s)) (\<lambda>_ s.
     if \<not> pi_readopen (pipes s pi) \<and> \<not> pi_writeopen (pipes s pi) then
       res_bind (release (Pipe_lock pi) s) (\<lambda>_ s. kfree pi s)
     else release (Pipe_lock pi) s))"

definition pipewrite_end :: "uint64 \<Rightarrow> int \<Rightarrow> 'a file_state_scheme \<Rightarrow> ('a file_state_scheme, int) res" where
  "pipewrite_end pi i s =
     res_bind (wakeup (Chan_nread pi) s) (\<lambda>_ s.
     res_bind (release (Pipe_lock pi) s) (\<lambda>_ s. Ret i s))"

text \<open>The loop with \<open>k\<close> bytes to go\<close>

primrec pipewrite_loop :: "nat \<Rightarrow> uint64 \<Rightarrow> uint64 \<Rightarrow> int \<Rightarrow> 'a file_state_scheme \<Rightarrow> ('a file_state_scheme, int) res" where
  "pipewrite_loop 0 pi addr i s = pipewrite_end pi i s"
| "pipewrite_loop (Suc k) pi addr i s =
     res_bind (myproc s) (\<lambda>pr s.
     if \<not> pi_readopen (pipes s pi) \<or> p_killed (proc s (the pr)) \<noteq> 0 then
       res_bind (release (Pipe_lock pi) s) (\<lambda>_ s. Ret (-1) s)
     else if pi_nwrite (pipes s pi) = pi_nread (pipes s pi) + of_nat PIPESIZE then
       res_bind (wakeup (Chan_nread pi) s) (\<lambda>_ s. sleep (Chan_nwrite pi) (Pipe_lock pi) s)
     else
       res_bind (copyin (p_pagetable (proc s (the pr))) (\<lambda>_. 0) 0 (addr + of_int i) 1 s) (\<lambda>(r, ch) s.
       if r = -1 then pipewrite_end pi i s
       else
         pipewrite_loop k pi addr (i + 1)
           (upd_pipe pi (\<lambda>p. p\<lparr>pi_data := (pi_data p)(unat (pi_nwrite p) mod PIPESIZE := ch 0),
                               pi_nwrite := pi_nwrite p + 1\<rparr>) s)))"

definition pipewrite :: "uint64 \<Rightarrow> uint64 \<Rightarrow> int \<Rightarrow> 'a file_state_scheme \<Rightarrow> ('a file_state_scheme, int) res" where
  "pipewrite pi addr n s =
     res_bind (acquire (Pipe_lock pi) s) (\<lambda>_ s. pipewrite_loop (nat n) pi addr 0 s)"

definition pipewrite_back :: "bool \<Rightarrow> nat \<Rightarrow> nat \<Rightarrow> uint64 \<Rightarrow> uint64 \<Rightarrow> int \<Rightarrow> 'a file_state_scheme \<Rightarrow> ('a file_state_scheme, int) res" where
  "pipewrite_back ie p k pi addr i s =
     res_bind (sleep_back ie p (Pipe_lock pi) s) (\<lambda>_ s. pipewrite_loop k pi addr i s)"

definition piperead_end :: "uint64 \<Rightarrow> int \<Rightarrow> 'a file_state_scheme \<Rightarrow> ('a file_state_scheme, int) res" where
  "piperead_end pi i s =
     res_bind (wakeup (Chan_nwrite pi) s) (\<lambda>_ s.
     res_bind (release (Pipe_lock pi) s) (\<lambda>_ s. Ret i s))"

primrec piperead_copy :: "nat \<Rightarrow> uint64 \<Rightarrow> uint64 \<Rightarrow> int \<Rightarrow> 'a file_state_scheme \<Rightarrow> ('a file_state_scheme, int) res" where
  "piperead_copy 0 pi addr i s = piperead_end pi i s"
| "piperead_copy (Suc k) pi addr i s =
     (if pi_nread (pipes s pi) = pi_nwrite (pipes s pi) then piperead_end pi i s
      else
        let ch = pi_data (pipes s pi) (unat (pi_nread (pipes s pi)) mod PIPESIZE);
            s = upd_pipe pi (\<lambda>p. p\<lparr>pi_nread := pi_nread p + 1\<rparr>) s in
        res_bind (myproc s) (\<lambda>pr s.
        res_bind (copyout (p_pagetable (proc s (the pr))) (addr + of_int i) (\<lambda>_. ch) 1 s) (\<lambda>r s.
        if r = -1 then piperead_end pi i s else piperead_copy k pi addr (i + 1) s)))"

definition piperead_loop :: "uint64 \<Rightarrow> uint64 \<Rightarrow> int \<Rightarrow> 'a file_state_scheme \<Rightarrow> ('a file_state_scheme, int) res" where
  "piperead_loop pi addr n s =
     (if pi_nread (pipes s pi) = pi_nwrite (pipes s pi) \<and> pi_writeopen (pipes s pi) then
        res_bind (myproc s) (\<lambda>pr s.
        if p_killed (proc s (the pr)) \<noteq> 0 then
          res_bind (release (Pipe_lock pi) s) (\<lambda>_ s. Ret (-1) s)
        else sleep (Chan_nread pi) (Pipe_lock pi) s)
      else piperead_copy (nat n) pi addr 0 s)"

definition piperead :: "uint64 \<Rightarrow> uint64 \<Rightarrow> int \<Rightarrow> 'a file_state_scheme \<Rightarrow> ('a file_state_scheme, int) res" where
  "piperead pi addr n s =
     res_bind (acquire (Pipe_lock pi) s) (\<lambda>_ s. piperead_loop pi addr n s)"

definition piperead_back :: "bool \<Rightarrow> nat \<Rightarrow> uint64 \<Rightarrow> uint64 \<Rightarrow> int \<Rightarrow> 'a file_state_scheme \<Rightarrow> ('a file_state_scheme, int) res" where
  "piperead_back ie p pi addr n s =
     res_bind (sleep_back ie p (Pipe_lock pi) s) (\<lambda>_ s. piperead_loop pi addr n s)"

section \<open>Files\<close>

definition fileinit :: "'a file_state_scheme \<Rightarrow> 'a file_state_scheme" where
  "fileinit s = initlock Ftable_lock ''ftable'' s"

definition filealloc :: "'a file_state_scheme \<Rightarrow> ('a file_state_scheme, nat option) res" where
  "filealloc s =
     res_bind (acquire Ftable_lock s) (\<lambda>_ s.
     case find (\<lambda>f. f_ref (ftable s f) = 0) [0..<NFILE] of
       Some f \<Rightarrow> res_bind (release Ftable_lock (upd_file f (\<lambda>x. x\<lparr>f_ref := 1\<rparr>) s)) (\<lambda>_ s. Ret (Some f) s)
     | None \<Rightarrow> res_bind (release Ftable_lock s) (\<lambda>_ s. Ret None s))"

definition filedup :: "nat \<Rightarrow> 'a file_state_scheme \<Rightarrow> ('a file_state_scheme, nat) res" where
  "filedup f s =
     res_bind (acquire Ftable_lock s) (\<lambda>_ s.
     if f_ref (ftable s f) < 1 then Panic ''filedup''
     else
       res_bind (release Ftable_lock (upd_file f (\<lambda>x. x\<lparr>f_ref := f_ref x + 1\<rparr>) s)) (\<lambda>_ s. Ret f s))"

definition fileclose :: "nat \<Rightarrow> 'a file_state_scheme \<Rightarrow> ('a file_state_scheme, unit) res" where
  "fileclose f s =
     res_bind (acquire Ftable_lock s) (\<lambda>_ s.
     if f_ref (ftable s f) < 1 then Panic ''fileclose''
     else
       let s = upd_file f (\<lambda>x. x\<lparr>f_ref := f_ref x - 1\<rparr>) s in
       if f_ref (ftable s f) > 0 then release Ftable_lock s
       else
         let ff = ftable s f;
             s = upd_file f (\<lambda>x. x\<lparr>f_ref := 0, f_type := FD_NONE\<rparr>) s in
         res_bind (release Ftable_lock s) (\<lambda>_ s.
         case f_type ff of
           FD_PIPE \<Rightarrow> pipeclose (f_pipe ff) (f_writable ff) s
         | FD_NONE \<Rightarrow> Ret () s
         | _ \<Rightarrow>
             res_bind (begin_op s) (\<lambda>_ s.
             res_bind (iput (the (f_ip ff)) s) (\<lambda>_ s.
             end_op s))))"

text \<open>
  The bytes of a \<open>struct stat\<close> of 24 bytes; \<open>junk\<close> is what the uninitialised local variable
  held, four bytes of which are padding and keep their value.
\<close>

definition stat_bytes :: "cptr \<Rightarrow> stat \<Rightarrow> cptr" where
  "stat_bytes junk st =
     (let d = wr32 junk 0 (st_dev st);
          d = wr32 d 4 (st_ino st);
          d = wr16 d 8 (st_type st);
          d = wr16 d 10 (st_nlink st)
      in write_at d 16 (le_bytes 8 (st_size st)))"

definition filestat :: "cptr \<Rightarrow> nat \<Rightarrow> uint64 \<Rightarrow> 'a file_state_scheme \<Rightarrow> ('a file_state_scheme, int) res" where
  "filestat junk f addr s =
     res_bind (myproc s) (\<lambda>p s.
     if f_type (ftable s f) = FD_INODE \<or> f_type (ftable s f) = FD_DEVICE then
       res_bind (ilock (f_ip (ftable s f)) s) (\<lambda>_ s.
       let st = stati (the (f_ip (ftable s f))) s in
       res_bind (iunlock (f_ip (ftable s f)) s) (\<lambda>_ s.
       res_bind (copyout (p_pagetable (proc s (the p))) addr (stat_bytes junk st) 24 s) (\<lambda>r s.
       if r < 0 then Ret (-1) s else Ret 0 s)))
     else Ret (-1) s)"

definition dev_read :: "devread \<Rightarrow> uint64 \<Rightarrow> int \<Rightarrow> 'a file_state_scheme \<Rightarrow> ('a file_state_scheme, int) res" where
  "dev_read d addr n s = (case d of Dev_consoleread \<Rightarrow> res_bind (consoleread (User addr) n s) (\<lambda>(r, _) s. Ret r s))"

definition dev_write :: "devwrite \<Rightarrow> uint64 \<Rightarrow> int \<Rightarrow> 'a file_state_scheme \<Rightarrow> ('a file_state_scheme, int) res" where
  "dev_write d addr n s = (case d of Dev_consolewrite \<Rightarrow> consolewrite (User addr) n s)"

definition fileread :: "nat \<Rightarrow> uint64 \<Rightarrow> int \<Rightarrow> 'a file_state_scheme \<Rightarrow> ('a file_state_scheme, int) res" where
  "fileread f addr n s =
     (if \<not> f_readable (ftable s f) then Ret (-1) s
      else
        case f_type (ftable s f) of
          FD_PIPE \<Rightarrow> piperead (f_pipe (ftable s f)) addr n s
        | FD_DEVICE \<Rightarrow>
            let mj = sint (f_major (ftable s f)) in
            if mj < 0 \<or> mj \<ge> NDEV then Ret (-1) s
            else (case dv_read (devsw s (nat mj)) of None \<Rightarrow> Ret (-1) s | Some d \<Rightarrow> dev_read d addr n s)
        | FD_INODE \<Rightarrow>
            res_bind (ilock (f_ip (ftable s f)) s) (\<lambda>_ s.
            res_bind (readi (the (f_ip (ftable s f))) (User addr) (f_off (ftable s f)) (of_int n) s) (\<lambda>(r, _) s.
            let s = (if r > 0 then upd_file f (\<lambda>x. x\<lparr>f_off := f_off x + of_int r\<rparr>) s else s) in
            res_bind (iunlock (f_ip (ftable s f)) s) (\<lambda>_ s. Ret r s)))
        | FD_NONE \<Rightarrow> Panic ''fileread'')"

definition filewrite_max :: int where
  "filewrite_max = ((MAXOPBLOCKS - 1 - 1 - 2) div 2) * int BSIZE"

text \<open>The loop that writes an inode chunk by chunk; the result is the number of bytes written.\<close>

function filewrite_loop :: "nat \<Rightarrow> uint64 \<Rightarrow> int \<Rightarrow> int \<Rightarrow> 'a file_state_scheme \<Rightarrow> ('a file_state_scheme, int) res" where
  "filewrite_loop f addr n i s =
     (if i < n then
        let n1 = (if n - i > filewrite_max then filewrite_max else n - i) in
        res_bind (begin_op s) (\<lambda>_ s.
        res_bind (ilock (f_ip (ftable s f)) s) (\<lambda>_ s.
        res_bind (writei (the (f_ip (ftable s f))) (User (addr + of_int i)) (f_off (ftable s f)) (of_int n1) s) (\<lambda>r s.
        let s = (if r > 0 then upd_file f (\<lambda>x. x\<lparr>f_off := f_off x + of_int r\<rparr>) s else s) in
        res_bind (iunlock (f_ip (ftable s f)) s) (\<lambda>_ s.
        res_bind (end_op s) (\<lambda>_ s.
        if r \<noteq> n1 then Ret i s else filewrite_loop f addr n (i + r) s)))))
      else Ret i s)"
  by pat_completeness auto
termination
  by (relation "measure (\<lambda>(f, addr, n, i, s). nat (n - i))") (auto simp: filewrite_max_def MAXOPBLOCKS_def BSIZE_def)

definition filewrite :: "nat \<Rightarrow> uint64 \<Rightarrow> int \<Rightarrow> 'a file_state_scheme \<Rightarrow> ('a file_state_scheme, int) res" where
  "filewrite f addr n s =
     (if \<not> f_writable (ftable s f) then Ret (-1) s
      else
        case f_type (ftable s f) of
          FD_PIPE \<Rightarrow> pipewrite (f_pipe (ftable s f)) addr n s
        | FD_DEVICE \<Rightarrow>
            let mj = sint (f_major (ftable s f)) in
            if mj < 0 \<or> mj \<ge> NDEV then Ret (-1) s
            else (case dv_write (devsw s (nat mj)) of None \<Rightarrow> Ret (-1) s | Some d \<Rightarrow> dev_write d addr n s)
        | FD_INODE \<Rightarrow>
            res_bind (filewrite_loop f addr n 0 s) (\<lambda>i s. Ret (if i = n then n else -1) s)
        | FD_NONE \<Rightarrow> Panic ''filewrite'')"

text \<open>The cleanup at label \<open>bad\<close> of \<open>pipealloc\<close>\<close>

definition pipealloc_bad :: "uint64 \<Rightarrow> nat option \<Rightarrow> nat option \<Rightarrow> 'a file_state_scheme \<Rightarrow> ('a file_state_scheme, (nat \<times> nat) option) res" where
  "pipealloc_bad pi f0 f1 s =
     res_bind (if pi \<noteq> 0 then kfree pi s else Ret () s) (\<lambda>_ s.
     res_bind (case f0 of Some f \<Rightarrow> fileclose f s | None \<Rightarrow> Ret () s) (\<lambda>_ s.
     res_bind (case f1 of Some f \<Rightarrow> fileclose f s | None \<Rightarrow> Ret () s) (\<lambda>_ s.
     Ret None s)))"

definition pipealloc :: "'a file_state_scheme \<Rightarrow> ('a file_state_scheme, (nat \<times> nat) option) res" where
  "pipealloc s =
     res_bind (filealloc s) (\<lambda>f0 s.
     case f0 of None \<Rightarrow> pipealloc_bad 0 None None s
     | Some a \<Rightarrow>
         res_bind (filealloc s) (\<lambda>f1 s.
         case f1 of None \<Rightarrow> pipealloc_bad 0 (Some a) None s
         | Some b \<Rightarrow>
             res_bind (kalloc s) (\<lambda>pi s.
             if pi = 0 then pipealloc_bad 0 (Some a) (Some b) s
             else
               let s = upd_pipe pi (\<lambda>p. p\<lparr>pi_readopen := True, pi_writeopen := True, pi_nwrite := 0, pi_nread := 0\<rparr>) s;
                   s = initlock (Pipe_lock pi) ''pipe'' s;
                   s = upd_file a (\<lambda>x. x\<lparr>f_type := FD_PIPE, f_readable := True, f_writable := False, f_pipe := pi\<rparr>) s;
                   s = upd_file b (\<lambda>x. x\<lparr>f_type := FD_PIPE, f_readable := False, f_writable := True, f_pipe := pi\<rparr>) s
               in Ret (Some (a, b)) s)))"

end
