(* ===== verification/Proc_Life.thy ===== *)
theory Proc_Life
  imports File
begin

text \<open>
  The rest of \<open>kernel/proc.c\<close>, which calls the file system: the first process, \<open>fork\<close>,
  \<open>exit\<close>, \<open>wait\<close> and the scheduler's loop.
\<close>

section \<open>The first process\<close>

definition NOFILE :: nat where "NOFILE = 16"

definition initcode :: "byte list" where
  "initcode =
    [0x17, 0x05, 0x00, 0x00, 0x13, 0x05, 0x45, 0x02,
     0x97, 0x05, 0x00, 0x00, 0x93, 0x85, 0x35, 0x02,
     0x93, 0x08, 0x70, 0x00, 0x73, 0x00, 0x00, 0x00,
     0x93, 0x08, 0x20, 0x00, 0x73, 0x00, 0x00, 0x00,
     0xef, 0xf0, 0x9f, 0xff, 0x2f, 0x69, 0x6e, 0x69,
     0x74, 0x00, 0x00, 0x24, 0x00, 0x00, 0x00, 0x00,
     0x00, 0x00, 0x00, 0x00]"

text \<open>\<open>safestrcpy\<close> into the 16 bytes of \<open>p->name\<close>\<close>

definition copy_name :: "cptr \<Rightarrow> byte list \<Rightarrow> byte list" where
  "copy_name t nm = map (safestrcpy (arr nm) t 16) [0..<16]"

text \<open>
  A process table that is full at boot makes \<open>userinit\<close> follow a null pointer. Page 0 is not
  mapped in the kernel, and the trap handler stops the machine.
\<close>

definition userinit :: "'a file_state_scheme \<Rightarrow> ('a file_state_scheme, unit) res" where
  "userinit s =
     res_bind (allocproc s) (\<lambda>np s.
     let s = s\<lparr>initproc := np\<rparr> in
     case np of None \<Rightarrow> Panic ''kerneltrap''
     | Some p \<Rightarrow>
         res_bind (uvminit (p_pagetable (proc s p)) (arr initcode) (of_nat (length initcode)) s) (\<lambda>_ s.
         let s = upd_proc p (\<lambda>q. q\<lparr>p_sz := PGSIZE\<rparr>) s;
             s = set_tf p ''epc'' 0 s;
             s = set_tf p ''sp'' PGSIZE s;
             s = upd_proc p (\<lambda>q. q\<lparr>p_name := copy_name (arr (bytes ''initcode'')) (p_name q)\<rparr>) s in
         res_bind (namei [47] s) (\<lambda>ip s.
         let s = upd_proc p (\<lambda>q. q\<lparr>p_cwd := ip, p_state := RUNNABLE\<rparr>) s
         in release (Proc_lock p) s)))"

section \<open>fork\<close>

text \<open>The reference counts of the open files, and the child's table\<close>

definition fork_ofile :: "nat \<Rightarrow> nat \<Rightarrow> nat \<Rightarrow> 'a file_state_scheme \<Rightarrow> ('a file_state_scheme, unit) res" where
  "fork_ofile p np i s =
     (case p_ofile (proc s p) ! i of
        None \<Rightarrow> Ret () s
      | Some f \<Rightarrow>
          res_bind (filedup f s) (\<lambda>g s.
          Ret () (upd_proc np (\<lambda>q. q\<lparr>p_ofile := (p_ofile q)[i := Some g]\<rparr>) s)))"

definition fork :: "'a file_state_scheme \<Rightarrow> ('a file_state_scheme, int) res" where
  "fork s =
     res_bind (myproc s) (\<lambda>cur s.
     let p = the cur in
     res_bind (allocproc s) (\<lambda>child s.
     case child of None \<Rightarrow> Ret (-1) s
     | Some np \<Rightarrow>
         res_bind (uvmcopy (p_pagetable (proc s p)) (p_pagetable (proc s np)) (p_sz (proc s p)) s) (\<lambda>r s.
         if r < 0 then
           res_bind (freeproc np s) (\<lambda>_ s.
           res_bind (release (Proc_lock np) s) (\<lambda>_ s. Ret (-1) s))
         else
           let s = upd_proc np (\<lambda>q. q\<lparr>p_sz := p_sz (proc s p)\<rparr>) s;
               s = s\<lparr>mem := put (mem s) (p_trapframe (proc s np)) (get (mem s) (p_trapframe (proc s p)) TF_size)\<rparr>;
               s = set_tf np ''a0'' 0 s in
           res_bind (res_for [0..<NOFILE] (fork_ofile p np) s) (\<lambda>_ s.
           res_bind (idup (the (p_cwd (proc s p))) s) (\<lambda>cwd s.
           let s = upd_proc np (\<lambda>q. q\<lparr>p_cwd := Some cwd\<rparr>) s;
               s = upd_proc np (\<lambda>q. q\<lparr>p_name := copy_name (arr (p_name (proc s p))) (p_name q)\<rparr>) s;
               pid = p_pid (proc s np) in
           res_bind (release (Proc_lock np) s) (\<lambda>_ s.
           res_bind (acquire Wait_lock s) (\<lambda>_ s.
           res_bind (release Wait_lock (upd_proc np (\<lambda>q. q\<lparr>p_parent := Some p\<rparr>) s)) (\<lambda>_ s.
           res_bind (acquire (Proc_lock np) s) (\<lambda>_ s.
           res_bind (release (Proc_lock np) (upd_proc np (\<lambda>q. q\<lparr>p_state := RUNNABLE\<rparr>) s)) (\<lambda>_ s.
           Ret (sint pid) s))))))))))"

section \<open>exit\<close>

text \<open>A pointer to a process as a wait channel\<close>

definition proc_chan :: "nat option \<Rightarrow> chan" where
  "proc_chan po = (case po of None \<Rightarrow> Chan_null | Some p \<Rightarrow> Chan_proc p)"

definition reparent :: "nat \<Rightarrow> 'a file_state_scheme \<Rightarrow> ('a file_state_scheme, unit) res" where
  "reparent p s =
     res_for [0..<NPROC] (\<lambda>pp s.
       if p_parent (proc s pp) = Some p then
         wakeup (proc_chan (initproc s)) (upd_proc pp (\<lambda>q. q\<lparr>p_parent := initproc s\<rparr>) s)
       else Ret () s) s"

definition exit_ofile :: "nat \<Rightarrow> nat \<Rightarrow> 'a file_state_scheme \<Rightarrow> ('a file_state_scheme, unit) res" where
  "exit_ofile p fd s =
     (case p_ofile (proc s p) ! fd of
        None \<Rightarrow> Ret () s
      | Some f \<Rightarrow>
          res_bind (fileclose f s) (\<lambda>_ s.
          Ret () (upd_proc p (\<lambda>q. q\<lparr>p_ofile := (p_ofile q)[fd := None]\<rparr>) s)))"

definition exit :: "32 word \<Rightarrow> 'a file_state_scheme \<Rightarrow> ('a file_state_scheme, 'b) res" where
  "exit status s =
     res_bind (myproc s) (\<lambda>cur s.
     let p = the cur in
     if Some p = initproc s then Panic ''init exiting''
     else
       res_bind (res_for [0..<NOFILE] (exit_ofile p) s) (\<lambda>_ s.
       res_bind (begin_op s) (\<lambda>_ s.
       res_bind (iput (the (p_cwd (proc s p))) s) (\<lambda>_ s.
       res_bind (end_op s) (\<lambda>_ s.
       let s = upd_proc p (\<lambda>q. q\<lparr>p_cwd := None\<rparr>) s in
       res_bind (acquire Wait_lock s) (\<lambda>_ s.
       res_bind (reparent p s) (\<lambda>_ s.
       res_bind (wakeup (proc_chan (p_parent (proc s p))) s) (\<lambda>_ s.
       res_bind (acquire (Proc_lock p) s) (\<lambda>_ s.
       let s = upd_proc p (\<lambda>q. q\<lparr>p_xstate := status, p_state := ZOMBIE\<rparr>) s in
       res_bind (release Wait_lock s) (\<lambda>_ s.
       sched s))))))))))"

text \<open>What follows should the scheduler ever switch back\<close>

definition exit_back :: "bool \<Rightarrow> 'a file_state_scheme \<Rightarrow> ('a file_state_scheme, 'b) res" where
  "exit_back ie s = Panic ''zombie exit''"

section \<open>wait\<close>

text \<open>
  The scan of the table: the result is the value to return when an exited child was found,
  with both locks released, and whether the process has children.
\<close>

primrec wait_scan :: "nat \<Rightarrow> uint64 \<Rightarrow> bool \<Rightarrow> nat list \<Rightarrow> 'a file_state_scheme \<Rightarrow>
    ('a file_state_scheme, int option \<times> bool) res" where
  "wait_scan p addr havekids [] s = Ret (None, havekids) s"
| "wait_scan p addr havekids (np # nps) s =
     (if p_parent (proc s np) = Some p then
        res_bind (acquire (Proc_lock np) s) (\<lambda>_ s.
        if p_state (proc s np) = ZOMBIE then
          let pid = p_pid (proc s np) in
          res_bind (if addr \<noteq> 0 then copyout (p_pagetable (proc s p)) addr (arr (le_bytes 4 (p_xstate (proc s np)))) 4 s
                    else Ret 0 s) (\<lambda>r s.
          if r < 0 then
            res_bind (release (Proc_lock np) s) (\<lambda>_ s.
            res_bind (release Wait_lock s) (\<lambda>_ s. Ret (Some (-1), True) s))
          else
            res_bind (freeproc np s) (\<lambda>_ s.
            res_bind (release (Proc_lock np) s) (\<lambda>_ s.
            res_bind (release Wait_lock s) (\<lambda>_ s. Ret (Some (sint pid), True) s))))
        else res_bind (release (Proc_lock np) s) (\<lambda>_ s. wait_scan p addr True nps s))
      else wait_scan p addr havekids nps s)"

definition wait_loop :: "nat \<Rightarrow> uint64 \<Rightarrow> 'a file_state_scheme \<Rightarrow> ('a file_state_scheme, int) res" where
  "wait_loop p addr s =
     res_bind (wait_scan p addr False [0..<NPROC] s) (\<lambda>(r, havekids) s.
     case r of Some v \<Rightarrow> Ret v s
     | None \<Rightarrow>
         if \<not> havekids \<or> p_killed (proc s p) \<noteq> 0 then res_bind (release Wait_lock s) (\<lambda>_ s. Ret (-1) s)
         else sleep (Chan_proc p) Wait_lock s)"

definition wait :: "uint64 \<Rightarrow> 'a file_state_scheme \<Rightarrow> ('a file_state_scheme, int) res" where
  "wait addr s =
     res_bind (myproc s) (\<lambda>cur s.
     res_bind (acquire Wait_lock s) (\<lambda>_ s. wait_loop (the cur) addr s))"

definition wait_back :: "bool \<Rightarrow> nat \<Rightarrow> uint64 \<Rightarrow> 'a file_state_scheme \<Rightarrow> ('a file_state_scheme, int) res" where
  "wait_back ie p addr s = res_bind (sleep_back ie p Wait_lock s) (\<lambda>_ s. wait_loop p addr s)"

section \<open>The scheduler's loop\<close>

text \<open>
  One round of the endless loop; \<open>run p\<close> is what happens between the switch to process \<open>p\<close>
  and the switch back.
\<close>

definition scheduler_init :: "'a proc_state_scheme \<Rightarrow> 'a proc_state_scheme" where
  "scheduler_init s = set_cproc None s"

definition scheduler_round :: "(nat \<Rightarrow> 'a proc_state_scheme \<Rightarrow> ('a proc_state_scheme, unit) res) \<Rightarrow>
    'a proc_state_scheme \<Rightarrow> ('a proc_state_scheme, unit) res" where
  "scheduler_round run s =
     res_for [0..<NPROC] (\<lambda>p s.
       res_bind (scheduler_pick p s) (\<lambda>picked s.
       if picked then res_bind (run p s) (\<lambda>_ s. scheduler_back p s) else Ret () s)) (intr_on s)"

end
