(* ===== verification/Sysargs.thy ===== *)
theory Sysargs
  imports Proc_Life
begin

text \<open>
  Arguments of system calls: the first half of \<open>kernel/syscall.c\<close>, and \<open>argfd\<close> and
  \<open>fdalloc\<close> of \<open>kernel/sysfile.c\<close>. Values that the C functions return through a pointer
  are part of the result; \<open>None\<close> stands for the return value \<open>-1\<close>. A buffer on the stack
  starts as zeros: a string is only read up to its terminating 0, which \<open>copyinstr\<close> has
  written when it succeeds.
\<close>

definition MAXPATH :: nat where "MAXPATH = 128"
definition MAXARG :: nat where "MAXARG = 32"

definition fetchaddr :: "uint64 \<Rightarrow> 'a file_state_scheme \<Rightarrow> ('a file_state_scheme, uint64 option) res" where
  "fetchaddr addr s =
     res_bind (myproc s) (\<lambda>cur s.
     let p = the cur in
     if addr \<ge> p_sz (proc s p) \<or> addr + 8 > p_sz (proc s p) then Ret None s
     else
       res_bind (copyin (p_pagetable (proc s p)) (\<lambda>_. 0) 0 addr 8 s) (\<lambda>(r, d) s.
       Ret (if r \<noteq> 0 then None else Some (le_word (map d [0..<8]))) s))"

definition fetchstr :: "uint64 \<Rightarrow> cptr \<Rightarrow> nat \<Rightarrow> 'a file_state_scheme \<Rightarrow> ('a file_state_scheme, int \<times> cptr) res" where
  "fetchstr addr buf mx s =
     res_bind (myproc s) (\<lambda>cur s.
     res_bind (copyinstr (p_pagetable (proc s (the cur))) buf 0 addr (of_nat mx) s) (\<lambda>(err, buf) s.
     if err < 0 then Ret (err, buf) s
     else (case strlen buf of None \<Rightarrow> Spins | Some n \<Rightarrow> Ret (int n, buf) s)))"

definition argraw :: "nat \<Rightarrow> 'a file_state_scheme \<Rightarrow> ('a file_state_scheme, uint64) res" where
  "argraw n s =
     res_bind (myproc s) (\<lambda>cur s.
     let p = the cur in
     if n = 0 then Ret (get_tf p ''a0'' s) s
     else if n = 1 then Ret (get_tf p ''a1'' s) s
     else if n = 2 then Ret (get_tf p ''a2'' s) s
     else if n = 3 then Ret (get_tf p ''a3'' s) s
     else if n = 4 then Ret (get_tf p ''a4'' s) s
     else if n = 5 then Ret (get_tf p ''a5'' s) s
     else Panic ''argraw'')"

definition argint :: "nat \<Rightarrow> 'a file_state_scheme \<Rightarrow> ('a file_state_scheme, 32 word) res" where
  "argint n s = res_bind (argraw n s) (\<lambda>v s. Ret (ucast v) s)"

definition argaddr :: "nat \<Rightarrow> 'a file_state_scheme \<Rightarrow> ('a file_state_scheme, uint64) res" where
  "argaddr n s = argraw n s"

definition argstr :: "nat \<Rightarrow> nat \<Rightarrow> 'a file_state_scheme \<Rightarrow> ('a file_state_scheme, int \<times> cptr) res" where
  "argstr n mx s = res_bind (argaddr n s) (\<lambda>addr s. fetchstr addr (\<lambda>_. 0) mx s)"

text \<open>The string as the list that the file system works on; \<open>None\<close> when \<open>argstr\<close> failed\<close>

definition argpath :: "nat \<Rightarrow> 'a file_state_scheme \<Rightarrow> ('a file_state_scheme, byte list option) res" where
  "argpath n s =
     res_bind (argstr n MAXPATH s) (\<lambda>(r, buf) s.
     Ret (if r < 0 then None else Some (cstr MAXPATH buf)) s)"

section \<open>File descriptors\<close>

definition argfd :: "nat \<Rightarrow> 'a file_state_scheme \<Rightarrow> ('a file_state_scheme, (nat \<times> nat) option) res" where
  "argfd n s =
     res_bind (argint n s) (\<lambda>fd s.
     if sint fd < 0 \<or> sint fd \<ge> int NOFILE then Ret None s
     else
       res_bind (myproc s) (\<lambda>cur s.
       Ret (case p_ofile (proc s (the cur)) ! unat fd of None \<Rightarrow> None | Some f \<Rightarrow> Some (unat fd, f)) s))"

definition set_ofile :: "nat \<Rightarrow> nat \<Rightarrow> nat option \<Rightarrow> 'a proc_state_scheme \<Rightarrow> 'a proc_state_scheme" where
  "set_ofile p fd f s = upd_proc p (\<lambda>q. q\<lparr>p_ofile := (p_ofile q)[fd := f]\<rparr>) s"

definition fdalloc :: "nat \<Rightarrow> 'a file_state_scheme \<Rightarrow> ('a file_state_scheme, nat option) res" where
  "fdalloc f s =
     res_bind (myproc s) (\<lambda>cur s.
     let p = the cur in
     case find (\<lambda>fd. p_ofile (proc s p) ! fd = None) [0..<NOFILE] of
       Some fd \<Rightarrow> Ret (Some fd) (set_ofile p fd (Some f) s)
     | None \<Rightarrow> Ret None s)"

end
