(* ===== verification/Exec.thy ===== *)
theory Exec
  imports Sysargs
begin

text \<open>
  \<open>exec\<close>, \<open>kernel/exec.c\<close>, with the ELF headers of \<open>kernel/elf.h\<close>. The headers are
  read into kernel objects and their fields taken at their offsets. The argument strings are
  in kernel memory; \<open>argv\<close> is the list of their addresses in front of the terminating null
  pointer.
\<close>

definition rd64 :: "cptr \<Rightarrow> nat \<Rightarrow> uint64" where
  "rd64 d k = le_word (map d [k..<k + 8])"

section \<open>ELF headers\<close>

definition ELF_MAGIC :: uint where "ELF_MAGIC = 0x464C457F"
definition ELF_PROG_LOAD :: uint where "ELF_PROG_LOAD = 1"

text \<open>The offsets of the fields of \<open>struct elfhdr\<close> and of \<open>struct proghdr\<close>\<close>

definition elfhdr :: "(string \<times> nat) list" where
  "elfhdr = [(''magic'', 0), (''elf'', 4), (''type'', 16), (''machine'', 18), (''version'', 20),
     (''entry'', 24), (''phoff'', 32), (''shoff'', 40), (''flags'', 48), (''ehsize'', 52),
     (''phentsize'', 54), (''phnum'', 56), (''shentsize'', 58), (''shnum'', 60), (''shstrndx'', 62)]"

definition elfhdr_size :: nat where "elfhdr_size = 64"

definition proghdr :: "(string \<times> nat) list" where
  "proghdr = [(''type'', 0), (''flags'', 4), (''off'', 8), (''vaddr'', 16), (''paddr'', 24),
     (''filesz'', 32), (''memsz'', 40), (''align'', 48)]"

definition proghdr_size :: nat where "proghdr_size = 56"

definition eh :: "string \<Rightarrow> nat" where "eh f = the (map_of elfhdr f)"
definition ph :: "string \<Rightarrow> nat" where "ph f = the (map_of proghdr f)"

text \<open>Reading a structure of \<open>n\<close> bytes of a file; \<open>None\<close> when it is not there\<close>

definition read_struct :: "nat \<Rightarrow> uint \<Rightarrow> nat \<Rightarrow> 'a file_state_scheme \<Rightarrow> ('a file_state_scheme, cptr option) res" where
  "read_struct ip off n s =
     res_bind (readi ip (Obj (\<lambda>_. 0) 0) off (of_nat n) s) (\<lambda>(r, de) s.
     Ret (if r \<noteq> int n then None else (case de of Obj d k \<Rightarrow> Some d | _ \<Rightarrow> None)) s)"

section \<open>Loading segments\<close>

lemma page_step:
  assumes "\<not> i + 4096 < (i :: uint)"
  shows "2 ^ 32 - unat (i + 4096) < 2 ^ 32 - unat i"
proof -
  have u: "unat (i + 4096) = (unat i + 4096) mod 2 ^ 32" by (simp add: unat_word_ariths)
  have l: "unat i < 2 ^ 32" using unsigned_less [of i] by simp
  have "unat i + 4096 < 2 ^ 32"
  proof (rule ccontr)
    assume "\<not> ?thesis"
    then have "(unat i + 4096) mod 2 ^ 32 = unat i + 4096 - 2 ^ 32"
      using l by (subst mod_if) simp
    then show False using assms l by (simp add: word_less_nat_alt u)
  qed
  then show ?thesis using u by simp
qed

text \<open>
  The loop of \<open>loadseg\<close> from \<open>i\<close> on. The counter has 32 bits: for a size in the last page
  below \<open>2^32\<close> it wraps to 0 and the loop starts over.
\<close>

function loadseg_loop :: "uint64 \<Rightarrow> uint64 \<Rightarrow> nat \<Rightarrow> uint \<Rightarrow> uint \<Rightarrow> uint \<Rightarrow> 'a file_state_scheme \<Rightarrow>
    ('a file_state_scheme, int) res" where
  "loadseg_loop pagetable va ip offset sz i s =
     (if i < sz then
        res_bind (walkaddr pagetable (va + ucast i) s) (\<lambda>pa s.
        if pa = 0 then Panic ''loadseg: address should exist''
        else
          let n = (if sz - i < 4096 then sz - i else 4096) in
          res_bind (readi ip (Kern pa) (offset + i) n s) (\<lambda>(r, _) s.
          if r \<noteq> int (unat n) then Ret (-1) s
          else if i + 4096 < i then Spins
          else loadseg_loop pagetable va ip offset sz (i + 4096) s))
      else Ret 0 s)"
  by pat_completeness auto
termination
  by (relation "measure (\<lambda>(pt, va, ip, off, sz, i, s). 2 ^ 32 - unat i)")
    (simp, simp only: in_measure prod.case, rule page_step)

declare loadseg_loop.simps [simp del]

definition loadseg :: "uint64 \<Rightarrow> uint64 \<Rightarrow> nat \<Rightarrow> uint \<Rightarrow> uint \<Rightarrow> 'a file_state_scheme \<Rightarrow> ('a file_state_scheme, int) res" where
  "loadseg pagetable va ip offset sz s =
     (if va mod PGSIZE \<noteq> 0 then Panic ''loadseg: va must be page aligned''
      else loadseg_loop pagetable va ip offset sz 0 s)"

text \<open>The cleanup at label \<open>bad\<close>\<close>

definition exec_bad :: "uint64 \<Rightarrow> uint64 \<Rightarrow> nat option \<Rightarrow> 'a file_state_scheme \<Rightarrow> ('a file_state_scheme, int) res" where
  "exec_bad pagetable sz ipo s =
     res_bind (if pagetable \<noteq> 0 then proc_freepagetable pagetable sz s else Ret () s) (\<lambda>_ s.
     case ipo of None \<Rightarrow> Ret (-1) s
     | Some ip \<Rightarrow> res_bind (iunlockput ip s) (\<lambda>_ s. res_bind (end_op s) (\<lambda>_ s. Ret (-1) s)))"

text \<open>The loop over the program headers: whether it succeeded, and the size reached\<close>

primrec exec_load :: "uint64 \<Rightarrow> nat \<Rightarrow> nat \<Rightarrow> uint \<Rightarrow> uint64 \<Rightarrow> 'a file_state_scheme \<Rightarrow> ('a file_state_scheme, bool \<times> uint64) res" where
  "exec_load pagetable ip 0 off sz s = Ret (True, sz) s"
| "exec_load pagetable ip (Suc k) off sz s =
     res_bind (read_struct ip off proghdr_size s) (\<lambda>r s.
     case r of None \<Rightarrow> Ret (False, sz) s
     | Some d \<Rightarrow>
         if rd32 d (ph ''type'') \<noteq> ELF_PROG_LOAD then exec_load pagetable ip k (off + of_nat proghdr_size) sz s
         else if rd64 d (ph ''memsz'') < rd64 d (ph ''filesz'') then Ret (False, sz) s
         else if rd64 d (ph ''vaddr'') + rd64 d (ph ''memsz'') < rd64 d (ph ''vaddr'') then Ret (False, sz) s
         else
           res_bind (uvmalloc pagetable sz (rd64 d (ph ''vaddr'') + rd64 d (ph ''memsz'')) s) (\<lambda>sz1 s.
           if sz1 = 0 then Ret (False, sz) s
           else if rd64 d (ph ''vaddr'') mod PGSIZE \<noteq> 0 then Ret (False, sz1) s
           else
             res_bind (loadseg pagetable (rd64 d (ph ''vaddr'')) ip (ucast (rd64 d (ph ''off'')))
                 (ucast (rd64 d (ph ''filesz''))) s) (\<lambda>r s.
             if r < 0 then Ret (False, sz1) s
             else exec_load pagetable ip k (off + of_nat proghdr_size) sz1 s)))"

section \<open>The stack of the new program\<close>

definition kstring :: "uint64 \<Rightarrow> 'a kmem_state_scheme \<Rightarrow> cptr" where
  "kstring a s = (\<lambda>i. mem s (a + of_nat i))"

text \<open>
  Pushing the argument strings: whether they fit, the stack pointer, and \<open>ustack\<close> so far.
\<close>

primrec push_args :: "uint64 \<Rightarrow> uint64 \<Rightarrow> uint64 list \<Rightarrow> uint64 \<Rightarrow> uint64 list \<Rightarrow> 'a file_state_scheme \<Rightarrow>
    ('a file_state_scheme, bool \<times> uint64 \<times> uint64 list) res" where
  "push_args pagetable stackbase [] sp ustack s = Ret (True, sp, ustack) s"
| "push_args pagetable stackbase (a # argv) sp ustack s =
     (if length ustack \<ge> MAXARG then Ret (False, sp, ustack) s
      else
        case strlen (kstring a s) of None \<Rightarrow> Spins
        | Some len \<Rightarrow>
            let sp = sp - (of_nat len + 1);
                sp = sp - sp mod 16
            in if sp < stackbase then Ret (False, sp, ustack) s
               else
                 res_bind (copyout pagetable sp (kstring a s) (of_nat len + 1) s) (\<lambda>r s.
                 if r < 0 then Ret (False, sp, ustack) s
                 else push_args pagetable stackbase argv sp (ustack @ [sp]) s))"

text \<open>The part of the path behind the last slash\<close>

primrec exec_last :: "byte list \<Rightarrow> byte list \<Rightarrow> byte list" where
  "exec_last lst [] = lst"
| "exec_last lst (c # s) = exec_last (if c = 47 then s else lst) s"

text \<open>From the allocation of the stack on, with the inode released\<close>

definition exec_commit :: "byte list \<Rightarrow> uint64 list \<Rightarrow> uint64 \<Rightarrow> uint64 \<Rightarrow> uint64 \<Rightarrow> 'a file_state_scheme \<Rightarrow> ('a file_state_scheme, int) res" where
  "exec_commit path argv pagetable sz entry s =
     res_bind (myproc s) (\<lambda>cur s.
     let p = the cur;
         oldsz = p_sz (proc s p);
         sz = PGROUNDUP sz in
     res_bind (uvmalloc pagetable sz (sz + 2 * PGSIZE) s) (\<lambda>sz1 s.
     if sz1 = 0 then exec_bad pagetable sz None s
     else
       let sz = sz1 in
       res_bind (uvmclear pagetable (sz - 2 * PGSIZE) s) (\<lambda>_ s.
       let stackbase = sz - PGSIZE in
       res_bind (push_args pagetable stackbase argv sz [] s) (\<lambda>(ok, sp, ustack) s.
       if \<not> ok then exec_bad pagetable sz None s
       else
         let argc = length ustack;
             sp = sp - of_nat ((argc + 1) * 8);
             sp = sp - sp mod 16
         in if sp < stackbase then exec_bad pagetable sz None s
            else
              res_bind (copyout pagetable sp (arr (concat (map (le_bytes 8) (ustack @ [0])))) (of_nat ((argc + 1) * 8)) s) (\<lambda>r s.
              if r < 0 then exec_bad pagetable sz None s
              else
                let s = set_tf p ''a1'' sp s;
                    s = upd_proc p (\<lambda>q. q\<lparr>p_name := copy_name (arr (exec_last path path)) (p_name q)\<rparr>) s;
                    oldpagetable = p_pagetable (proc s p);
                    s = upd_proc p (\<lambda>q. q\<lparr>p_pagetable := pagetable, p_sz := sz\<rparr>) s;
                    s = set_tf p ''epc'' entry s;
                    s = set_tf p ''sp'' sp s in
                res_bind (proc_freepagetable oldpagetable oldsz s) (\<lambda>_ s.
                Ret (int argc) s))))))"

definition exec :: "byte list \<Rightarrow> uint64 list \<Rightarrow> 'a file_state_scheme \<Rightarrow> ('a file_state_scheme, int) res" where
  "exec path argv s =
     res_bind (myproc s) (\<lambda>cur s.
     let p = the cur in
     res_bind (begin_op s) (\<lambda>_ s.
     res_bind (namei path s) (\<lambda>ipo s.
     case ipo of None \<Rightarrow> res_bind (end_op s) (\<lambda>_ s. Ret (-1) s)
     | Some ip \<Rightarrow>
         res_bind (ilock (Some ip) s) (\<lambda>_ s.
         res_bind (read_struct ip 0 elfhdr_size s) (\<lambda>r s.
         case r of None \<Rightarrow> exec_bad 0 0 (Some ip) s
         | Some elf \<Rightarrow>
             if rd32 elf (eh ''magic'') \<noteq> ELF_MAGIC then exec_bad 0 0 (Some ip) s
             else
               res_bind (proc_pagetable p s) (\<lambda>pagetable s.
               if pagetable = 0 then exec_bad 0 0 (Some ip) s
               else
                 res_bind (exec_load pagetable ip (unat (rd16 elf (eh ''phnum''))) (ucast (rd64 elf (eh ''phoff''))) 0 s) (\<lambda>(ok, sz) s.
                 if \<not> ok then exec_bad pagetable sz (Some ip) s
                 else
                   res_bind (iunlockput ip s) (\<lambda>_ s.
                   res_bind (end_op s) (\<lambda>_ s.
                   exec_commit path argv pagetable sz (rd64 elf (eh ''entry'')) s)))))))))"

end
