(* ===== verification/Sysfile.thy ===== *)
theory Sysfile
  imports Exec
begin

text \<open>
  The system calls on files, \<open>kernel/sysfile.c\<close>. A call returns the 64-bit value that the
  dispatcher stores in the caller's register \<open>a0\<close>; a negative \<open>int\<close> is sign-extended.
\<close>

section \<open>Calls on descriptors\<close>

definition sys_dup :: "'a file_state_scheme \<Rightarrow> ('a file_state_scheme, uint64) res" where
  "sys_dup s =
     res_bind (argfd 0 s) (\<lambda>r s.
     case r of None \<Rightarrow> Ret (-1) s
     | Some (_, f) \<Rightarrow>
         res_bind (fdalloc f s) (\<lambda>fd s.
         case fd of None \<Rightarrow> Ret (-1) s
         | Some fd \<Rightarrow> res_bind (filedup f s) (\<lambda>_ s. Ret (of_nat fd) s)))"

definition sys_read :: "'a file_state_scheme \<Rightarrow> ('a file_state_scheme, uint64) res" where
  "sys_read s =
     res_bind (argfd 0 s) (\<lambda>r s.
     case r of None \<Rightarrow> Ret (-1) s
     | Some (_, f) \<Rightarrow>
         res_bind (argint 2 s) (\<lambda>n s.
         res_bind (argaddr 1 s) (\<lambda>p s.
         res_bind (fileread f p (sint n) s) (\<lambda>r s. Ret (of_int r) s))))"

definition sys_write :: "'a file_state_scheme \<Rightarrow> ('a file_state_scheme, uint64) res" where
  "sys_write s =
     res_bind (argfd 0 s) (\<lambda>r s.
     case r of None \<Rightarrow> Ret (-1) s
     | Some (_, f) \<Rightarrow>
         res_bind (argint 2 s) (\<lambda>n s.
         res_bind (argaddr 1 s) (\<lambda>p s.
         res_bind (filewrite f p (sint n) s) (\<lambda>r s. Ret (of_int r) s))))"

definition sys_close :: "'a file_state_scheme \<Rightarrow> ('a file_state_scheme, uint64) res" where
  "sys_close s =
     res_bind (argfd 0 s) (\<lambda>r s.
     case r of None \<Rightarrow> Ret (-1) s
     | Some (fd, f) \<Rightarrow>
         res_bind (myproc s) (\<lambda>cur s.
         res_bind (fileclose f (set_ofile (the cur) fd None s)) (\<lambda>_ s. Ret 0 s)))"

text \<open>\<open>junk\<close> is what the uninitialised \<open>struct stat\<close> on the kernel stack held.\<close>

definition sys_fstat :: "cptr \<Rightarrow> 'a file_state_scheme \<Rightarrow> ('a file_state_scheme, uint64) res" where
  "sys_fstat junk s =
     res_bind (argfd 0 s) (\<lambda>r s.
     case r of None \<Rightarrow> Ret (-1) s
     | Some (_, f) \<Rightarrow>
         res_bind (argaddr 1 s) (\<lambda>st s.
         res_bind (filestat junk f st s) (\<lambda>r s. Ret (of_int r) s)))"

section \<open>Links\<close>

text \<open>\<open>ip->nlink\<close> changed by \<open>d\<close>\<close>

definition add_nlink :: "ushort \<Rightarrow> nat \<Rightarrow> 'a fs_state_scheme \<Rightarrow> 'a fs_state_scheme" where
  "add_nlink d ip s = upd_inode ip (\<lambda>i. i\<lparr>i_nlink := i_nlink i + d\<rparr>) s"

definition sys_link_bad :: "nat \<Rightarrow> 'a file_state_scheme \<Rightarrow> ('a file_state_scheme, uint64) res" where
  "sys_link_bad ip s =
     res_bind (ilock (Some ip) s) (\<lambda>_ s.
     res_bind (iupdate ip (add_nlink (-1) ip s)) (\<lambda>_ s.
     res_bind (iunlockput ip s) (\<lambda>_ s.
     res_bind (end_op s) (\<lambda>_ s. Ret (-1) s))))"

definition sys_link :: "'a file_state_scheme \<Rightarrow> ('a file_state_scheme, uint64) res" where
  "sys_link s =
     res_bind (argpath 0 s) (\<lambda>old s.
     case old of None \<Rightarrow> Ret (-1) s
     | Some old \<Rightarrow>
     res_bind (argpath 1 s) (\<lambda>new s.
     case new of None \<Rightarrow> Ret (-1) s
     | Some new \<Rightarrow>
     res_bind (begin_op s) (\<lambda>_ s.
     res_bind (namei old s) (\<lambda>ipo s.
     case ipo of None \<Rightarrow> res_bind (end_op s) (\<lambda>_ s. Ret (-1) s)
     | Some ip \<Rightarrow>
         res_bind (ilock (Some ip) s) (\<lambda>_ s.
         if i_type (itable s ip) = T_DIR then
           res_bind (iunlockput ip s) (\<lambda>_ s.
           res_bind (end_op s) (\<lambda>_ s. Ret (-1) s))
         else
           res_bind (iupdate ip (add_nlink 1 ip s)) (\<lambda>_ s.
           res_bind (iunlock (Some ip) s) (\<lambda>_ s.
           res_bind (nameiparent new (\<lambda>_. 0) s) (\<lambda>(dpo, name) s.
           case dpo of None \<Rightarrow> sys_link_bad ip s
           | Some dp \<Rightarrow>
               res_bind (ilock (Some dp) s) (\<lambda>_ s.
               res_bind
                 (if i_dev (itable s dp) \<noteq> i_dev (itable s ip) then Ret (-1) s
                  else dirlink dp name (i_inum (itable s ip)) s) (\<lambda>r s.
               if r < 0 then res_bind (iunlockput dp s) (\<lambda>_ s. sys_link_bad ip s)
               else
                 res_bind (iunlockput dp s) (\<lambda>_ s.
                 res_bind (iput ip s) (\<lambda>_ s.
                 res_bind (end_op s) (\<lambda>_ s. Ret 0 s)))))))))))))"

text \<open>The entries of a directory behind the first two\<close>

primrec isdirempty_loop :: "nat \<Rightarrow> nat list \<Rightarrow> 'a file_state_scheme \<Rightarrow> ('a file_state_scheme, bool) res" where
  "isdirempty_loop dp [] s = Ret True s"
| "isdirempty_loop dp (off # offs) s =
     res_bind (read_dirent ''isdirempty: readi'' dp off s) (\<lambda>de s.
     if rd16 de 0 \<noteq> 0 then Ret False s else isdirempty_loop dp offs s)"

definition isdirempty :: "nat \<Rightarrow> 'a file_state_scheme \<Rightarrow> ('a file_state_scheme, bool) res" where
  "isdirempty dp s = isdirempty_loop dp (drop 2 (dir_offs (i_size (itable s dp)))) s"

definition sys_unlink_bad :: "nat \<Rightarrow> 'a file_state_scheme \<Rightarrow> ('a file_state_scheme, uint64) res" where
  "sys_unlink_bad dp s =
     res_bind (iunlockput dp s) (\<lambda>_ s.
     res_bind (end_op s) (\<lambda>_ s. Ret (-1) s))"

text \<open>\<open>sys_unlink\<close> once the entry has been found, with \<open>dp\<close> locked\<close>

definition sys_unlink_found :: "nat \<Rightarrow> nat \<Rightarrow> nat \<Rightarrow> 'a file_state_scheme \<Rightarrow> ('a file_state_scheme, uint64) res" where
  "sys_unlink_found dp ip off s =
     res_bind (ilock (Some ip) s) (\<lambda>_ s.
     if sint (i_nlink (itable s ip)) < 1 then Panic ''unlink: nlink < 1''
     else
       res_bind (if i_type (itable s ip) = T_DIR then isdirempty ip s else Ret True s) (\<lambda>e s.
       if \<not> e then res_bind (iunlockput ip s) (\<lambda>_ s. sys_unlink_bad dp s)
       else
         res_bind (writei dp (Obj (\<lambda>_. 0) 0) (of_nat off) (of_nat dirent_size) s) (\<lambda>r s.
         if r \<noteq> int dirent_size then Panic ''unlink: writei''
         else
           res_bind (if i_type (itable s ip) = T_DIR then iupdate dp (add_nlink (-1) dp s) else Ret () s) (\<lambda>_ s.
           res_bind (iunlockput dp s) (\<lambda>_ s.
           res_bind (iupdate ip (add_nlink (-1) ip s)) (\<lambda>_ s.
           res_bind (iunlockput ip s) (\<lambda>_ s.
           res_bind (end_op s) (\<lambda>_ s. Ret 0 s))))))))"

definition sys_unlink :: "'a file_state_scheme \<Rightarrow> ('a file_state_scheme, uint64) res" where
  "sys_unlink s =
     res_bind (argpath 0 s) (\<lambda>path s.
     case path of None \<Rightarrow> Ret (-1) s
     | Some path \<Rightarrow>
     res_bind (begin_op s) (\<lambda>_ s.
     res_bind (nameiparent path (\<lambda>_. 0) s) (\<lambda>(dpo, name) s.
     case dpo of None \<Rightarrow> res_bind (end_op s) (\<lambda>_ s. Ret (-1) s)
     | Some dp \<Rightarrow>
         res_bind (ilock (Some dp) s) (\<lambda>_ s.
         if namecmp name (arr (bytes ''.'')) = 0 \<or> namecmp name (arr (bytes ''..'')) = 0 then sys_unlink_bad dp s
         else
           res_bind (dirlookup dp name s) (\<lambda>r s.
           case r of None \<Rightarrow> sys_unlink_bad dp s
           | Some (ip, off) \<Rightarrow> sys_unlink_found dp ip off s)))))"

section \<open>Creating and opening\<close>

text \<open>The part of \<open>create\<close> that makes a new inode, with \<open>dp\<close> locked\<close>

definition create_new :: "nat \<Rightarrow> cptr \<Rightarrow> ushort \<Rightarrow> ushort \<Rightarrow> ushort \<Rightarrow> 'a file_state_scheme \<Rightarrow> ('a file_state_scheme, nat option) res" where
  "create_new dp name ty maj mnr s =
     res_bind (ialloc (i_dev (itable s dp)) ty s) (\<lambda>ip s.
     res_bind (ilock (Some ip) s) (\<lambda>_ s.
     res_bind (iupdate ip (upd_inode ip (\<lambda>i. i\<lparr>i_major := maj, i_minor := mnr, i_nlink := 1\<rparr>) s)) (\<lambda>_ s.
     res_bind
       (if ty = T_DIR then
          res_bind (iupdate dp (add_nlink 1 dp s)) (\<lambda>_ s.
          res_bind (dirlink ip (arr (bytes ''.'')) (i_inum (itable s ip)) s) (\<lambda>r s.
          if r < 0 then Panic ''create dots''
          else
            res_bind (dirlink ip (arr (bytes ''..'')) (i_inum (itable s dp)) s) (\<lambda>r s.
            if r < 0 then Panic ''create dots'' else Ret () s)))
        else Ret () s) (\<lambda>_ s.
     res_bind (dirlink dp name (i_inum (itable s ip)) s) (\<lambda>r s.
     if r < 0 then Panic ''create: dirlink''
     else res_bind (iunlockput dp s) (\<lambda>_ s. Ret (Some ip) s))))))"

definition create :: "byte list \<Rightarrow> ushort \<Rightarrow> ushort \<Rightarrow> ushort \<Rightarrow> 'a file_state_scheme \<Rightarrow> ('a file_state_scheme, nat option) res" where
  "create path ty maj mnr s =
     res_bind (nameiparent path (\<lambda>_. 0) s) (\<lambda>(dpo, name) s.
     case dpo of None \<Rightarrow> Ret None s
     | Some dp \<Rightarrow>
         res_bind (ilock (Some dp) s) (\<lambda>_ s.
         res_bind (dirlookup dp name s) (\<lambda>r s.
         case r of
           Some (ip, _) \<Rightarrow>
             res_bind (iunlockput dp s) (\<lambda>_ s.
             res_bind (ilock (Some ip) s) (\<lambda>_ s.
             if ty = T_FILE \<and> (i_type (itable s ip) = T_FILE \<or> i_type (itable s ip) = T_DEVICE) then Ret (Some ip) s
             else res_bind (iunlockput ip s) (\<lambda>_ s. Ret None s)))
         | None \<Rightarrow> create_new dp name ty maj mnr s)))"

definition O_RDONLY :: uint where "O_RDONLY = 0x000"
definition O_WRONLY :: uint where "O_WRONLY = 0x001"
definition O_RDWR :: uint where "O_RDWR = 0x002"
definition O_CREATE :: uint where "O_CREATE = 0x200"
definition O_TRUNC :: uint where "O_TRUNC = 0x400"

definition sys_open_bad :: "nat \<Rightarrow> 'a file_state_scheme \<Rightarrow> ('a file_state_scheme, uint64) res" where
  "sys_open_bad ip s =
     res_bind (iunlockput ip s) (\<lambda>_ s.
     res_bind (end_op s) (\<lambda>_ s. Ret (-1) s))"

text \<open>The inode to open, locked; \<open>None\<close> when there is none, with the transaction ended\<close>

definition sys_open_inode :: "byte list \<Rightarrow> uint \<Rightarrow> 'a file_state_scheme \<Rightarrow> ('a file_state_scheme, nat option) res" where
  "sys_open_inode path omode s =
     (if omode AND O_CREATE \<noteq> 0 then
        res_bind (create path T_FILE 0 0 s) (\<lambda>ipo s.
        case ipo of None \<Rightarrow> res_bind (end_op s) (\<lambda>_ s. Ret None s)
        | Some ip \<Rightarrow> Ret (Some ip) s)
      else
        res_bind (namei path s) (\<lambda>ipo s.
        case ipo of None \<Rightarrow> res_bind (end_op s) (\<lambda>_ s. Ret None s)
        | Some ip \<Rightarrow>
            res_bind (ilock (Some ip) s) (\<lambda>_ s.
            if i_type (itable s ip) = T_DIR \<and> omode \<noteq> O_RDONLY then
              res_bind (iunlockput ip s) (\<lambda>_ s. res_bind (end_op s) (\<lambda>_ s. Ret None s))
            else Ret (Some ip) s)))"

definition open_file :: "uint \<Rightarrow> nat \<Rightarrow> inode \<Rightarrow> kfile \<Rightarrow> kfile" where
  "open_file omode ip i f =
     (let f = (if i_type i = T_DEVICE then f\<lparr>f_type := FD_DEVICE, f_major := i_major i\<rparr>
               else f\<lparr>f_type := FD_INODE, f_off := 0\<rparr>)
      in f\<lparr>f_ip := Some ip,
           f_readable := (omode AND O_WRONLY = 0),
           f_writable := (omode AND O_WRONLY \<noteq> 0 \<or> omode AND O_RDWR \<noteq> 0)\<rparr>)"

definition sys_open :: "'a file_state_scheme \<Rightarrow> ('a file_state_scheme, uint64) res" where
  "sys_open s =
     res_bind (argpath 0 s) (\<lambda>path s.
     case path of None \<Rightarrow> Ret (-1) s
     | Some path \<Rightarrow>
     res_bind (argint 1 s) (\<lambda>omode s.
     res_bind (begin_op s) (\<lambda>_ s.
     res_bind (sys_open_inode path omode s) (\<lambda>ipo s.
     case ipo of None \<Rightarrow> Ret (-1) s
     | Some ip \<Rightarrow>
         if i_type (itable s ip) = T_DEVICE \<and>
            (sint (i_major (itable s ip)) < 0 \<or> sint (i_major (itable s ip)) \<ge> NDEV) then sys_open_bad ip s
         else
           res_bind (filealloc s) (\<lambda>fo s.
           case fo of None \<Rightarrow> sys_open_bad ip s
           | Some f \<Rightarrow>
               res_bind (fdalloc f s) (\<lambda>fd s.
               case fd of None \<Rightarrow> res_bind (fileclose f s) (\<lambda>_ s. sys_open_bad ip s)
               | Some fd \<Rightarrow>
                   let s = upd_file f (open_file omode ip (itable s ip)) s in
                   res_bind (if omode AND O_TRUNC \<noteq> 0 \<and> i_type (itable s ip) = T_FILE then itrunc ip s else Ret () s) (\<lambda>_ s.
                   res_bind (iunlock (Some ip) s) (\<lambda>_ s.
                   res_bind (end_op s) (\<lambda>_ s. Ret (of_nat fd) s)))))))))"

text \<open>The common end of \<open>sys_mkdir\<close> and \<open>sys_mknod\<close>\<close>

definition sys_made :: "nat option \<Rightarrow> 'a file_state_scheme \<Rightarrow> ('a file_state_scheme, uint64) res" where
  "sys_made ipo s =
     (case ipo of None \<Rightarrow> res_bind (end_op s) (\<lambda>_ s. Ret (-1) s)
      | Some ip \<Rightarrow> res_bind (iunlockput ip s) (\<lambda>_ s. res_bind (end_op s) (\<lambda>_ s. Ret 0 s)))"

definition sys_mkdir :: "'a file_state_scheme \<Rightarrow> ('a file_state_scheme, uint64) res" where
  "sys_mkdir s =
     res_bind (begin_op s) (\<lambda>_ s.
     res_bind (argpath 0 s) (\<lambda>path s.
     case path of None \<Rightarrow> sys_made None s
     | Some path \<Rightarrow> res_bind (create path T_DIR 0 0 s) (\<lambda>ipo s. sys_made ipo s)))"

definition sys_mknod :: "'a file_state_scheme \<Rightarrow> ('a file_state_scheme, uint64) res" where
  "sys_mknod s =
     res_bind (begin_op s) (\<lambda>_ s.
     res_bind (argpath 0 s) (\<lambda>path s.
     case path of None \<Rightarrow> sys_made None s
     | Some path \<Rightarrow>
         res_bind (argint 1 s) (\<lambda>maj s.
         res_bind (argint 2 s) (\<lambda>mnr s.
         res_bind (create path T_DEVICE (ucast maj) (ucast mnr) s) (\<lambda>ipo s. sys_made ipo s)))))"

definition sys_chdir :: "'a file_state_scheme \<Rightarrow> ('a file_state_scheme, uint64) res" where
  "sys_chdir s =
     res_bind (myproc s) (\<lambda>cur s.
     let p = the cur in
     res_bind (begin_op s) (\<lambda>_ s.
     res_bind (argpath 0 s) (\<lambda>path s.
     res_bind (case path of None \<Rightarrow> Ret None s | Some path \<Rightarrow> namei path s) (\<lambda>ipo s.
     case ipo of None \<Rightarrow> res_bind (end_op s) (\<lambda>_ s. Ret (-1) s)
     | Some ip \<Rightarrow>
         res_bind (ilock (Some ip) s) (\<lambda>_ s.
         if i_type (itable s ip) \<noteq> T_DIR then
           res_bind (iunlockput ip s) (\<lambda>_ s.
           res_bind (end_op s) (\<lambda>_ s. Ret (-1) s))
         else
           res_bind (iunlock (Some ip) s) (\<lambda>_ s.
           res_bind (iput (the (p_cwd (proc s p))) s) (\<lambda>_ s.
           res_bind (end_op s) (\<lambda>_ s.
           Ret 0 (upd_proc p (\<lambda>q. q\<lparr>p_cwd := Some ip\<rparr>) s)))))))))"

section \<open>exec and pipe\<close>

text \<open>
  Fetching the arguments of \<open>exec\<close> into pages of their own: whether all were fetched, and
  the pages allocated. \<open>k\<close> entries of \<open>argv\<close> are left.
\<close>

primrec sys_exec_args :: "nat \<Rightarrow> uint64 \<Rightarrow> uint64 list \<Rightarrow> 'a file_state_scheme \<Rightarrow> ('a file_state_scheme, bool \<times> uint64 list) res" where
  "sys_exec_args 0 uargv argv s = Ret (False, argv) s"
| "sys_exec_args (Suc k) uargv argv s =
     res_bind (fetchaddr (uargv + of_nat (8 * length argv)) s) (\<lambda>uarg s.
     case uarg of None \<Rightarrow> Ret (False, argv) s
     | Some uarg \<Rightarrow>
         if uarg = 0 then Ret (True, argv) s
         else
           res_bind (kalloc s) (\<lambda>pa s.
           if pa = 0 then Ret (False, argv) s
           else
             res_bind (fetchstr uarg (kstring pa s) 4096 s) (\<lambda>(r, buf) s.
             let s = s\<lparr>mem := put (mem s) pa (map buf [0..<4096])\<rparr>
             in if r < 0 then Ret (False, argv @ [pa]) s
                else sys_exec_args k uargv (argv @ [pa]) s)))"

definition sys_exec :: "'a file_state_scheme \<Rightarrow> ('a file_state_scheme, uint64) res" where
  "sys_exec s =
     res_bind (argpath 0 s) (\<lambda>path s.
     case path of None \<Rightarrow> Ret (-1) s
     | Some path \<Rightarrow>
         res_bind (argaddr 1 s) (\<lambda>uargv s.
         res_bind (sys_exec_args MAXARG uargv [] s) (\<lambda>(ok, argv) s.
         res_bind (if ok then exec path argv s else Ret (-1) s) (\<lambda>ret s.
         res_bind (res_for argv (\<lambda>a s. kfree a s) s) (\<lambda>_ s.
         Ret (of_int ret) s)))))"

definition sys_pipe :: "'a file_state_scheme \<Rightarrow> ('a file_state_scheme, uint64) res" where
  "sys_pipe s =
     res_bind (myproc s) (\<lambda>cur s.
     let p = the cur in
     res_bind (argaddr 0 s) (\<lambda>fdarray s.
     res_bind (pipealloc s) (\<lambda>r s.
     case r of None \<Rightarrow> Ret (-1) s
     | Some (rfile, wfile) \<Rightarrow>
         res_bind (fdalloc rfile s) (\<lambda>fd0 s.
         case fd0 of
           None \<Rightarrow>
             res_bind (fileclose rfile s) (\<lambda>_ s. res_bind (fileclose wfile s) (\<lambda>_ s. Ret (-1) s))
         | Some fd0 \<Rightarrow>
             res_bind (fdalloc wfile s) (\<lambda>fd1 s.
             case fd1 of
               None \<Rightarrow>
                 res_bind (fileclose rfile (set_ofile p fd0 None s)) (\<lambda>_ s.
                 res_bind (fileclose wfile s) (\<lambda>_ s. Ret (-1) s))
             | Some fd1 \<Rightarrow>
                 res_bind (copyout (p_pagetable (proc s p)) fdarray (arr (le_bytes 4 (of_nat fd0 :: uint))) 4 s) (\<lambda>r s.
                 res_bind
                   (if r < 0 then Ret (-1) s
                    else copyout (p_pagetable (proc s p)) (fdarray + 4) (arr (le_bytes 4 (of_nat fd1 :: uint))) 4 s) (\<lambda>r s.
                 if r < 0 then
                   res_bind (fileclose rfile (set_ofile p fd1 None (set_ofile p fd0 None s))) (\<lambda>_ s.
                   res_bind (fileclose wfile s) (\<lambda>_ s. Ret (-1) s))
                 else Ret 0 s)))))))"

end
