(* ===== verification/Descriptors.thy ===== *)
theory Descriptors
  imports Sysfile
begin

text \<open>
  File descriptors and reference counts. A locale states what the holders of references to
  table entries rely on, the open file table and the inode table interpret it, and on top of it
  the system calls on descriptors keep the tables well-typed: every descriptor names an open
  file, and the count of a file is the number of descriptors that name it.
\<close>

section \<open>Counted references\<close>

text \<open>
  \<open>ready\<close> is the state of CPU and lock in which the operations may be called, and \<open>rest\<close>
  what they leave alone.
\<close>

locale refcounted =
  fixes ref :: "'s \<Rightarrow> nat \<Rightarrow> int"
    and dup :: "nat \<Rightarrow> 's \<Rightarrow> ('s, nat) res"
    and give :: "nat \<Rightarrow> 's \<Rightarrow> ('s, unit) res"
    and ready :: "'s \<Rightarrow> bool"
    and rest :: "'s \<Rightarrow> 'r"
  assumes dup_ref: "ready s \<Longrightarrow> 1 \<le> ref s i \<Longrightarrow>
      \<exists>t. dup i s = Ret i t \<and> ready t \<and> rest t = rest s \<and> ref t = (ref s)(i := ref s i + 1)"
    and give_ref: "ready s \<Longrightarrow> 1 < ref s i \<Longrightarrow>
      \<exists>t. give i s = Ret () t \<and> ready t \<and> rest t = rest s \<and> ref t = (ref s)(i := ref s i - 1)"
begin

lemma dup_give:
  assumes "ready s" and "1 \<le> ref s i"
  shows "\<exists>t u. dup i s = Ret i t \<and> give i t = Ret () u \<and> ready u \<and> rest u = rest s \<and> ref u = ref s"
proof -
  obtain t where t: "dup i s = Ret i t" "ready t" "rest t = rest s" "ref t = (ref s)(i := ref s i + 1)"
    using dup_ref assms by blast
  have "1 < ref t i" using t(4) assms(2) by simp
  then obtain u where "give i t = Ret () u" "ready u" "rest u = rest t" "ref u = (ref t)(i := ref t i - 1)"
    using give_ref t(2) by blast
  then show ?thesis using t by auto
qed

end

section \<open>The two tables\<close>

lemma filedup_eq:
  assumes "cpu_ok s" and "lock_free Ftable_lock s" and "1 \<le> f_ref (ftable s f)"
  shows "filedup f s = Ret f (upd_file f (\<lambda>x. x\<lparr>f_ref := f_ref x + 1\<rparr>) (settle s))"
  using assms by (simp add: filedup_def lock_simps upd_file_def)

lemma fileclose_eq:
  assumes "cpu_ok s" and "lock_free Ftable_lock s" and "1 < f_ref (ftable s f)"
  shows "fileclose f s = Ret () (upd_file f (\<lambda>x. x\<lparr>f_ref := f_ref x - 1\<rparr>) (settle s))"
  using assms by (simp add: fileclose_def lock_simps upd_file_def Let_def)

lemma idup_eq:
  assumes "cpu_ok s" and "lock_free Itable_lock s"
  shows "idup ip s = Ret ip (upd_inode ip (\<lambda>i. i\<lparr>i_ref := i_ref i + 1\<rparr>) (settle s))"
  using assms by (simp add: idup_def lock_simps upd_inode_def)

lemma iput_eq:
  assumes "cpu_ok s" and "lock_free Itable_lock s" and "1 < i_ref (itable s ip)"
  shows "iput ip s = Ret () (upd_inode ip (\<lambda>i. i\<lparr>i_ref := i_ref i - 1\<rparr>) (settle s))"
  using assms by (simp add: iput_def lock_simps upd_inode_def)

abbreviation files_ready :: "'a mach_scheme \<Rightarrow> bool" where
  "files_ready s \<equiv> cpu_ok s \<and> lock_free Ftable_lock s"

interpretation files: refcounted "\<lambda>s f. f_ref (ftable s f)" filedup fileclose files_ready "\<lambda>s. (proc s, locks s, itable s, pipes s)"
  by unfold_locales (auto simp: filedup_eq fileclose_eq upd_file_def lock_simps fun_eq_iff)

interpretation inodes: refcounted "\<lambda>s ip. i_ref (itable s ip)" idup iput "\<lambda>s. cpu_ok s \<and> lock_free Itable_lock s"
    "\<lambda>s. (proc s, locks s, disk_img s)"
  by unfold_locales (auto simp: idup_eq iput_eq upd_inode_def lock_simps fun_eq_iff)

section \<open>Descriptor tables\<close>

definition named_by :: "(nat \<Rightarrow> proc) \<Rightarrow> nat \<Rightarrow> (nat \<times> nat) set" where
  "named_by P f = {(p, fd). p < NPROC \<and> fd < NOFILE \<and> p_ofile (P p) ! fd = Some f}"

definition fds_typed :: "(nat \<Rightarrow> proc) \<Rightarrow> bool" where
  "fds_typed P \<longleftrightarrow> (\<forall>p<NPROC. length (p_ofile (P p)) = NOFILE
     \<and> (\<forall>fd<NOFILE. \<forall>f. p_ofile (P p) ! fd = Some f \<longrightarrow> f < NFILE))"

definition fds_ok :: "'a file_state_scheme \<Rightarrow> bool" where
  "fds_ok s \<longleftrightarrow> fds_typed (proc s) \<and> (\<forall>f<NFILE. f_ref (ftable s f) = int (card (named_by (proc s) f)))"

lemma finite_named [simp]: "finite (named_by P f)"
proof -
  have "named_by P f \<subseteq> {..<NPROC} \<times> {..<NOFILE}" by (auto simp: named_by_def)
  then show ?thesis by (rule finite_subset) simp
qed

definition set_fd :: "nat \<Rightarrow> nat \<Rightarrow> nat option \<Rightarrow> (nat \<Rightarrow> proc) \<Rightarrow> nat \<Rightarrow> proc" where
  "set_fd p fd fo P = P(p := (P p)\<lparr>p_ofile := (p_ofile (P p))[fd := fo]\<rparr>)"

lemma named_set_fd:
  assumes "fds_typed P" and "p < NPROC" and "fd < NOFILE"
  shows "named_by (set_fd p fd fo P) f = (if fo = Some f then insert (p, fd) (named_by P f) else named_by P f - {(p, fd)})"
  using assms by (auto simp: named_by_def set_fd_def fds_typed_def nth_list_update split: if_splits)

lemma fds_typed_set_fd:
  assumes "fds_typed P" and "p < NPROC" and "fd < NOFILE" and "\<forall>f. fo = Some f \<longrightarrow> f < NFILE"
  shows "fds_typed (set_fd p fd fo P)"
  using assms by (auto simp: fds_typed_def set_fd_def nth_list_update)

lemma fds_ok_open:
  assumes "fds_ok s" and "p < NPROC" and "fd < NOFILE" and "p_ofile (proc s p) ! fd = None" and "f < NFILE"
    and "proc t = set_fd p fd (Some f) (proc s)"
    and "\<forall>g. f_ref (ftable t g) = (if g = f then f_ref (ftable s f) + 1 else f_ref (ftable s g))"
  shows "fds_ok t"
proof -
  have ty: "fds_typed (proc s)" using assms(1) by (simp add: fds_ok_def)
  have "(p, fd) \<notin> named_by (proc s) g" for g using assms(4) by (simp add: named_by_def)
  then have "named_by (proc t) g = (if g = f then insert (p, fd) (named_by (proc s) g) else named_by (proc s) g)" for g
    using named_set_fd [OF ty assms(2,3)] assms(6) by auto
  then show ?thesis
    using assms ty fds_typed_set_fd [OF ty assms(2,3)] \<open>\<And>g. (p, fd) \<notin> named_by (proc s) g\<close> by (auto simp: fds_ok_def)
qed

lemma fds_ok_close:
  assumes "fds_ok s" and "p < NPROC" and "fd < NOFILE" and "p_ofile (proc s p) ! fd = Some f"
    and "proc t = set_fd p fd None (proc s)"
    and "\<forall>g. f_ref (ftable t g) = (if g = f then f_ref (ftable s f) - 1 else f_ref (ftable s g))"
  shows "fds_ok t"
proof -
  have ty: "fds_typed (proc s)" using assms(1) by (simp add: fds_ok_def)
  have mem: "(p, fd) \<in> named_by (proc s) f" using assms by (simp add: named_by_def)
  have "(p, fd) \<in> named_by (proc s) g \<longleftrightarrow> g = f" for g using assms(2-4) by (auto simp: named_by_def)
  then have n: "named_by (proc t) g = (if g = f then named_by (proc s) g - {(p, fd)} else named_by (proc s) g)" for g
    using named_set_fd [OF ty assms(2,3), of None] assms(5) by auto
  have "0 < card (named_by (proc s) f)" using mem by (auto simp: card_gt_0_iff)
  then have "int (card (named_by (proc t) f)) = int (card (named_by (proc s) f)) - 1"
    using mem by (simp add: n card_Diff_singleton of_nat_diff)
  then show ?thesis
    using assms ty fds_typed_set_fd [OF ty assms(2,3), of None] n by (auto simp: fds_ok_def)
qed

lemma fds_ok_ref:
  assumes "fds_ok s" and "p < NPROC" and "fd < NOFILE" and "p_ofile (proc s p) ! fd = Some f"
  shows "f < NFILE" "1 \<le> f_ref (ftable s f)"
proof -
  show f: "f < NFILE" using assms by (auto simp: fds_ok_def fds_typed_def)
  have "(p, fd) \<in> named_by (proc s) f" using assms by (simp add: named_by_def)
  then have "0 < card (named_by (proc s) f)" by (auto simp: card_gt_0_iff)
  then show "1 \<le> f_ref (ftable s f)" using assms(1) f by (simp add: fds_ok_def)
qed

section \<open>The system calls on descriptors\<close>

text \<open>The open file that a descriptor argument names\<close>

definition fd_file :: "'a proc_state_scheme \<Rightarrow> nat \<Rightarrow> 32 word \<Rightarrow> nat option" where
  "fd_file s p w = (if sint w < 0 \<or> sint w \<ge> int NOFILE then None else p_ofile (proc s p) ! unat w)"

lemma argfd_eq:
  assumes "cpu_ok s" and "cur s = Some p"
  shows "argfd 0 s = (let w = ucast (get_tf p ''a0'' s) in
    Ret (case fd_file s p w of None \<Rightarrow> None | Some f \<Rightarrow> Some (unat w, f)) (settle s))"
  using assms by (simp add: argfd_def argint_def argraw_def fd_file_def get_tf_def lock_simps Let_def)

lemma fdalloc_eq:
  assumes "cpu_ok s" and "cur s = Some p"
  shows "fdalloc f s = (case find (\<lambda>fd. p_ofile (proc s p) ! fd = None) [0..<NOFILE] of
    Some fd \<Rightarrow> Ret (Some fd) (set_ofile p fd (Some f) (settle s)) | None \<Rightarrow> Ret None (settle s))"
  using assms by (simp add: fdalloc_def lock_simps Let_def cong: option.case_cong)

lemma fd_fileD:
  assumes "fd_file s p w = Some f"
  shows "unat w < NOFILE" "p_ofile (proc s p) ! unat w = Some f"
proof -
  have w: "0 \<le> sint w" "sint w < int NOFILE" and f: "p_ofile (proc s p) ! unat w = Some f"
    using assms by (auto simp: fd_file_def split: if_splits)
  obtain n where n: "unat w = n" by blast
  have "n < 2 ^ 32" using unsigned_less [of w, where ?'a = nat] n by simp
  then have "int n < int NOFILE"
    using w unfolding sint_32 n by (simp split: if_splits)
  then show "unat w < NOFILE" using n by simp
  show "p_ofile (proc s p) ! unat w = Some f" by (rule f)
qed

lemma fds_ok_same: "proc t = proc s \<Longrightarrow> ftable t = ftable s \<Longrightarrow> fds_ok s \<Longrightarrow> fds_ok t"
  by (simp add: fds_ok_def)

lemma sys_dup_keeps:
  assumes "files_ready s" and "cur s = Some p" and "p < NPROC" and "fds_ok s"
  shows "\<exists>v t. sys_dup s = Ret v t \<and> fds_ok t \<and>
    (case (fd_file s p (ucast (get_tf p ''a0'' s)), find (\<lambda>fd. p_ofile (proc s p) ! fd = None) [0..<NOFILE]) of
       (Some f, Some fd) \<Rightarrow> v = of_nat fd \<and> proc t = set_fd p fd (Some f) (proc s)
     | _ \<Rightarrow> v = -1 \<and> proc t = proc s)"
proof -
  define w :: "32 word" where "w = ucast (get_tf p ''a0'' s)"
  note eqs = sys_dup_def argfd_eq fdalloc_eq lock_simps Let_def w_def [symmetric]
  show ?thesis
  proof (cases "fd_file s p w")
    case None
    then show ?thesis using assms by (auto simp: eqs intro: fds_ok_same)
  next
    case (Some f)
    show ?thesis
    proof (cases "find (\<lambda>fd. p_ofile (proc s p) ! fd = None) [0..<NOFILE]")
      case None
      then show ?thesis using assms Some by (auto simp: eqs intro: fds_ok_same)
    next
      case (Some fd)
      have f: "f < NFILE" "1 \<le> f_ref (ftable s f)"
        by (rule fds_ok_ref [OF assms(4,3) fd_fileD [OF \<open>fd_file s p w = Some f\<close>]])+
      have fd: "fd < NOFILE" "p_ofile (proc s p) ! fd = None"
        using Some by (auto simp: find_Some_iff)
      let ?t = "upd_file f (\<lambda>x. x\<lparr>f_ref := f_ref x + 1\<rparr>) (set_ofile p fd (Some f) (settle s))"
      have "sys_dup s = Ret (of_nat fd) ?t"
        using assms Some \<open>fd_file s p w = Some f\<close> f
        by (simp add: eqs filedup_eq set_ofile_def upd_proc_def upd_file_def)
      moreover have "proc ?t = set_fd p fd (Some f) (proc s)"
        by (simp add: upd_file_def set_ofile_def upd_proc_def set_fd_def lock_simps)
      moreover have "fds_ok ?t"
        by (rule fds_ok_open [OF assms(4,3) fd f(1)]) (auto simp: upd_file_def set_ofile_def upd_proc_def set_fd_def lock_simps)
      ultimately show ?thesis using Some \<open>fd_file s p w = Some f\<close> by (auto simp: w_def [symmetric])
    qed
  qed
qed

lemma sys_close_keeps:
  assumes "files_ready s" and "cur s = Some p" and "p < NPROC" and "fds_ok s"
    and "\<And>f. fd_file s p w = Some f \<Longrightarrow> 1 < f_ref (ftable s f)" and "w = ucast (get_tf p ''a0'' s)"
  shows "\<exists>v t. sys_close s = Ret v t \<and> fds_ok t \<and>
    (if fd_file s p w = None then v = -1 \<and> proc t = proc s
     else v = 0 \<and> proc t = set_fd p (unat w) None (proc s))"
proof (cases "fd_file s p w")
  case None
  then show ?thesis
    using assms by (auto simp: sys_close_def argfd_eq lock_simps Let_def intro: fds_ok_same)
next
  case (Some g)
  have w: "unat w < NOFILE" "p_ofile (proc s p) ! unat w = Some g" using fd_fileD [OF Some] .
  let ?t = "upd_file g (\<lambda>x. x\<lparr>f_ref := f_ref x - 1\<rparr>) (set_ofile p (unat w) None (settle s))"
  have "sys_close s = Ret 0 ?t"
    using assms Some
    by (simp add: sys_close_def argfd_eq lock_simps Let_def fileclose_eq set_ofile_def upd_proc_def upd_file_def)
  moreover have "proc ?t = set_fd p (unat w) None (proc s)"
    by (simp add: upd_file_def set_ofile_def upd_proc_def set_fd_def lock_simps)
  moreover have "fds_ok ?t"
    by (rule fds_ok_close [OF assms(4,3) w]) (auto simp: upd_file_def set_ofile_def upd_proc_def set_fd_def lock_simps)
  ultimately show ?thesis using Some by auto
qed

lemma set_fd_same: "set_fd p fd (p_ofile (P p) ! fd) P = P"
  by (cases "P p") (simp add: set_fd_def fun_upd_idem)

lemma fork_ofile_keeps:
  assumes "files_ready s" and "fds_ok s" and "p < NPROC" and "np < NPROC" and "np \<noteq> p" and "i < NOFILE"
    and "p_ofile (proc s np) ! i = None"
  shows "\<exists>t. fork_ofile p np i s = Ret () t \<and> files_ready t \<and> fds_ok t \<and> proc t = set_fd np i (p_ofile (proc s p) ! i) (proc s)"
proof (cases "p_ofile (proc s p) ! i")
  case None
  then show ?thesis using assms set_fd_same [of np i "proc s"] by (simp add: fork_ofile_def)
next
  case (Some f)
  note f = fds_ok_ref [OF assms(2,3,6) Some]
  obtain t where t: "filedup f s = Ret f t" "files_ready t" "proc t = proc s"
    "(\<lambda>g. f_ref (ftable t g)) = (\<lambda>g. f_ref (ftable s g))(f := f_ref (ftable s f) + 1)"
    using files.dup_ref [of s f] assms(1) f(2) by auto
  let ?u = "set_ofile np i (Some f) t"
  have "fork_ofile p np i s = Ret () ?u" using Some t(1) by (simp add: fork_ofile_def set_ofile_def)
  moreover have u: "proc ?u = set_fd np i (Some f) (proc s)" by (simp add: t(3) set_ofile_def upd_proc_def set_fd_def)
  moreover have "fds_ok ?u"
    by (rule fds_ok_open [OF assms(2,4,6,7) f(1) u]) (use fun_cong [OF t(4)] in \<open>simp add: set_ofile_def upd_proc_def\<close>)
  moreover have "files_ready ?u" using t(2) by (simp add: set_ofile_def upd_proc_def)
  ultimately show ?thesis using Some by auto
qed

lemma fork_ofiles_keep:
  assumes "files_ready s" and "fds_ok s" and "p < NPROC" and "np < NPROC" and "np \<noteq> p"
    and "\<forall>i<NOFILE. p_ofile (proc s np) ! i = None" and "n \<le> NOFILE"
  shows "\<exists>t. res_for [0..<n] (fork_ofile p np) s = Ret () t \<and> files_ready t \<and> fds_ok t
    \<and> proc t = (proc s)(np := (proc s np)\<lparr>p_ofile := take n (p_ofile (proc s p)) @ drop n (p_ofile (proc s np))\<rparr>)"
  using assms(7)
proof (induction n)
  case 0
  then show ?case using assms by auto
next
  case (Suc n)
  obtain t where t: "res_for [0..<n] (fork_ofile p np) s = Ret () t" "files_ready t" "fds_ok t"
    "proc t = (proc s)(np := (proc s np)\<lparr>p_ofile := take n (p_ofile (proc s p)) @ drop n (p_ofile (proc s np))\<rparr>)"
    using Suc.IH [OF Suc_leD [OF Suc.prems]] by blast
  have len: "length (p_ofile (proc s p)) = NOFILE" "length (p_ofile (proc s np)) = NOFILE"
    using assms(2-4) by (auto simp: fds_ok_def fds_typed_def)
  have none: "p_ofile (proc t np) ! n = None"
    using assms(6) Suc.prems len by (simp add: t(4) nth_append)
  obtain u where u: "fork_ofile p np n t = Ret () u" "files_ready u" "fds_ok u"
    "proc u = set_fd np n (p_ofile (proc t p) ! n) (proc t)"
    using fork_ofile_keeps [OF t(2,3) assms(3,4,5) _ none] Suc.prems by auto
  have "(take n (p_ofile (proc s p)) @ drop n (p_ofile (proc s np)))[n := p_ofile (proc s p) ! n]
      = take (Suc n) (p_ofile (proc s p)) @ drop (Suc n) (p_ofile (proc s np))"
    using Suc.prems len by (simp add: list_update_append take_Suc_conv_app_nth flip: Cons_nth_drop_Suc)
  then have "proc u = (proc s)(np := (proc s np)\<lparr>p_ofile := take (Suc n) (p_ofile (proc s p)) @ drop (Suc n) (p_ofile (proc s np))\<rparr>)"
    using assms(5) by (simp add: u(4) t(4) set_fd_def)
  then show ?case using t(1) u by (simp add: res_for_append fun_upd_def)
qed


text \<open>Process 1 has descriptors 0 and 1 for file 0, as after a dup, and has called with argument 0.\<close>

definition demo_file :: "int \<Rightarrow> kfile" where
  "demo_file r = \<lparr>f_type = FD_DEVICE, f_ref = r, f_readable = True, f_writable = True, f_pipe = 0, f_ip = Some 0,
     f_off = 0, f_major = 1\<rparr>"

definition demo_fd_procs :: "nat \<Rightarrow> proc" where
  "demo_fd_procs = (\<lambda>_. no_proc\<lparr>p_ofile := replicate NOFILE None\<rparr>)
     (1 := no_proc\<lparr>p_ofile := [Some 0, Some 0] @ replicate (NOFILE - 2) None\<rparr>)"

definition demo_files :: file_state where
  "demo_files = fs_state.extend
     (log_state.extend
       (demo_log demo_img 0\<lparr>hart := 0, cpus := \<lambda>_. \<lparr>c_proc = Some 1, noff = 0, intena = True\<rparr>,
          locks := \<lambda>_. \<lparr>locked = False, lk_name = [], lk_cpu = None\<rparr>, mem := \<lambda>_. 0, proc := demo_fd_procs\<rparr>)
       (fs_state.fields
         \<lparr>sb_magic = FSMAGIC, sb_size = 1000, sb_nblocks = 954, sb_ninodes = 200, sb_nlog = 30, sb_logstart = 2,
           sb_inodestart = 32, sb_bmapstart = 45\<rparr>
         (\<lambda>_. \<lparr>i_dev = 1, i_inum = 0, i_ref = 0, i_valid = False, i_type = 0, i_major = 0, i_minor = 0, i_nlink = 0,
            i_size = 0, i_addrs = \<lambda>_. 0\<rparr>)))
     (file_state.fields (\<lambda>_. \<lparr>dv_read = None, dv_write = None\<rparr>) (\<lambda>f. demo_file (if f = 0 then 2 else 0))
       (\<lambda>_. \<lparr>pi_data = \<lambda>_. 0, pi_nread = 0, pi_nwrite = 0, pi_readopen = False, pi_writeopen = False\<rparr>))"

lemma demo_files_simps [simp]:
  "hart demo_files = 0" "cpus demo_files = (\<lambda>_. \<lparr>c_proc = Some 1, noff = 0, intena = True\<rparr>)"
  "locks demo_files = (\<lambda>_. \<lparr>locked = False, lk_name = [], lk_cpu = None\<rparr>)" "mem demo_files = (\<lambda>_. 0)"
  "proc demo_files = demo_fd_procs" "ftable demo_files = (\<lambda>f. demo_file (if f = 0 then 2 else 0))"
  by (simp_all add: demo_files_def log_state.defs fs_state.defs file_state.defs)

lemma demo_fd_procs_ofile:
  "p_ofile (demo_fd_procs p) = (if p = 1 then [Some 0, Some 0] @ replicate 14 None else replicate 16 None)"
  by (simp add: demo_fd_procs_def NOFILE_def)

lemma demo_named: "named_by demo_fd_procs f = (if f = 0 then {(1, 0), (1, 1)} else {})"
  by (auto simp: named_by_def demo_fd_procs_ofile NPROC_def NOFILE_def nth_Cons' split: if_splits)

lemma demo_fds_ok: "fds_ok demo_files" "files_ready demo_files" "fd_file demo_files 1 (ucast (get_tf 1 ''a0'' demo_files)) = Some 0"
proof -
  show "fds_ok demo_files"
    by (auto simp: fds_ok_def fds_typed_def demo_named demo_file_def demo_fd_procs_ofile NOFILE_def NFILE_def nth_Cons' split: if_splits)
  show "files_ready demo_files" by (simp add: cpus_ok_def free_lock_def)
  show "fd_file demo_files 1 (ucast (get_tf 1 ''a0'' demo_files)) = Some 0"
    by (simp add: fd_file_def get_tf_def load64_def NOFILE_def demo_fd_procs_ofile)
qed


end
