(* ===== verification/Pagetable.thy ===== *)
theory Pagetable
  imports Vm
begin

text \<open>
  Correctness of \<open>kernel/vm.c\<close>. A page table is read as a tree: \<open>node m pt is\<close> is
  the page reached from the root \<open>pt\<close> along the index path \<open>is\<close>, of length at most 2
  for a table page and 3 for a page mapped by a leaf. A table is well-formed when no page is
  reached along two paths. All operations are described by what they do to the entries
  \<open>pte m pt va\<close>.
\<close>

section \<open>Entries and nodes\<close>

definition entry :: "mem \<Rightarrow> uint64 \<Rightarrow> nat \<Rightarrow> uint64" where
  "entry m p i = load64 m (p + 8 * of_nat i)"

definition child :: "mem \<Rightarrow> uint64 \<Rightarrow> nat \<Rightarrow> uint64 option" where
  "child m p i = (if entry m p i AND PTE_V \<noteq> 0 then Some (PTE2PA (entry m p i)) else None)"

definition node :: "mem \<Rightarrow> uint64 \<Rightarrow> nat list \<Rightarrow> uint64 option" where
  "node m pt is = foldl (\<lambda>q i. Option.bind q (\<lambda>p. child m p i)) (Some pt) is"

definition paths :: "nat \<Rightarrow> nat list set" where
  "paths n = {is. length is \<le> n \<and> set is \<subseteq> {..<512}}"

definition px :: "nat \<Rightarrow> uint64 \<Rightarrow> nat" where
  "px level va = unat (PX level va)"

text \<open>The leaf entry of an address, 0 when its table page is missing.\<close>

definition pte :: "mem \<Rightarrow> uint64 \<Rightarrow> uint64 \<Rightarrow> uint64" where
  "pte m pt va = (case node m pt [px 2 va, px 1 va] of None \<Rightarrow> 0 | Some q \<Rightarrow> entry m q (px 0 va))"

definition pt_ok :: "nat \<Rightarrow> mem \<Rightarrow> uint64 \<Rightarrow> bool" where
  "pt_ok n m pt \<longleftrightarrow> aligned pt \<and> (\<forall>is\<in>paths n. \<forall>q. node m pt is = Some q \<longrightarrow>
     q \<noteq> 0 \<and> (\<forall>js\<in>paths n. node m pt js = Some q \<longrightarrow> js = is))"

definition owned :: "nat \<Rightarrow> mem \<Rightarrow> uint64 \<Rightarrow> uint64 set" where
  "owned n m pt = {q. \<exists>is\<in>paths n. node m pt is = Some q}"

lemma px_less [simp]: "px l va < 512"
  by (simp add: px_def PX_bound)

lemma of_nat_px [simp]: "of_nat (px l va) = PX l va"
  by (simp add: px_def)

lemma px_paths [simp]:
  "[px a va, px b va] \<in> paths 2" "[px a va, px b va] \<in> paths 3" "[px a va, px b va, px c va] \<in> paths 3"
  "[px a va] \<in> paths 1"
  by (simp_all add: paths_def)

lemma paths_Nil [simp]: "[] \<in> paths n"
  by (simp add: paths_def)

lemma paths_snoc: "is @ [i] \<in> paths n \<longleftrightarrow> is \<in> paths (n - 1) \<and> i < 512 \<and> 0 < n"
  by (auto simp: paths_def)

lemma paths_mono: "is \<in> paths n \<Longrightarrow> n \<le> k \<Longrightarrow> is \<in> paths k"
  by (auto simp: paths_def)

lemma node_Nil [simp]: "node m pt [] = Some pt"
  by (simp add: node_def)

lemma node_snoc: "node m pt (is @ [i]) = Option.bind (node m pt is) (\<lambda>p. child m p i)"
  by (simp add: node_def)

lemma node_1: "node m pt [i] = child m pt i"
  using node_snoc [of m pt "[]" i] by simp

lemma node_2: "node m pt [i, j] = Option.bind (child m pt i) (\<lambda>p. child m p j)"
  using node_snoc [of m pt "[i]" j] by (simp add: node_1)

lemma node_3: "node m pt [i, j, k] = Option.bind (node m pt [i, j]) (\<lambda>p. child m p k)"
  using node_snoc [of m pt "[i, j]" k] by simp

lemma aligned_child: "child m p i = Some q \<Longrightarrow> aligned q"
  by (auto simp: child_def split: if_splits)

lemma aligned_node: "aligned pt \<Longrightarrow> node m pt is = Some q \<Longrightarrow> aligned q"
  by (cases "is" rule: rev_cases) (auto simp: node_snoc bind_eq_Some_conv dest: aligned_child)

lemma node_cong:
  assumes "\<And>k p. k < length is \<Longrightarrow> node m pt (take k is) = Some p \<Longrightarrow>
    entry m' p (is ! k) = entry m p (is ! k)"
  shows "node m' pt is = node m pt is"
  using assms
proof (induction "is" rule: rev_induct)
  case (snoc i "is")
  have "entry m' p (is ! k) = entry m p (is ! k)"
    if "k < length is" "node m pt (take k is) = Some p" for k p
    using that snoc.prems [of k p] by (simp add: nth_append)
  then have "node m' pt is = node m pt is" by (rule snoc.IH)
  moreover have "child m' p i = child m p i" if "node m pt is = Some p" for p
    using that snoc.prems [of "length is" p] by (simp add: child_def)
  ultimately show ?case by (cases "node m pt is") (simp_all add: node_snoc)
qed simp

section \<open>Writing to an entry and to a page\<close>

lemma slot_less: "i < 512 \<Longrightarrow> 8 * i + 8 \<le> (4096::nat)"
  by simp

lemma slot_add: "p + 8 * of_nat i = p + of_nat (8 * i)"
  by simp

lemma entry_store_same [simp]: "entry (store64 m (p + 8 * of_nat i) v) p i = v"
  by (simp add: entry_def mem_simps)

lemma entry_store_same_px [simp]: "entry (store64 m (p + 8 * PX l va) v) p (px l va) = v"
  using entry_store_same [of m p "px l va" v] by simp

lemma unat_slot:
  assumes "aligned p" and "i < 512"
  shows "unat (p + of_nat (8 * i)) = unat p + 8 * i"
proof -
  obtain a where "unat p = 4096 * a" "a < 2 ^ 52" using assms(1) by (rule aligned_obtain)
  then show ?thesis using assms(2) by (intro unat_add_64) auto
qed

lemma disjoint_slots:
  assumes "aligned p" and "aligned q" and "i < 512" and "j < 512" and "p \<noteq> q \<or> i \<noteq> j"
  shows "disjoint_ranges (q + of_nat (8 * j)) 8 (p + of_nat (8 * i)) 8"
proof -
  obtain a where a: "unat p = 4096 * a" "a < 2 ^ 52" using assms(1) by (rule aligned_obtain)
  obtain b where b: "unat q = 4096 * b" "b < 2 ^ 52" using assms(2) by (rule aligned_obtain)
  have "a \<noteq> b \<or> i \<noteq> j" using assms(5) a b by (auto simp: word_unat_eq_iff)
  then have "4096 * b + 8 * j + 8 \<le> 4096 * a + 8 * i \<or> 4096 * a + 8 * i + 8 \<le> 4096 * b + 8 * j"
    using assms(3,4) by (cases a b rule: linorder_cases; cases i j rule: linorder_cases) auto
  then show ?thesis
    using a b assms(1-4) by (intro disjoint_rangesI) (simp_all only: unat_slot, auto)
qed

lemma entry_store_other:
  assumes "aligned p" and "aligned q" and "i < 512" and "j < 512" and "p \<noteq> q \<or> i \<noteq> j"
  shows "entry (store64 m (p + 8 * of_nat i) v) q j = entry m q j"
  using disjoint_slots [OF assms] unfolding entry_def slot_add by (rule load64_store64_other)

lemma entry_put_page:
  assumes "aligned p" and "aligned q" and "p \<noteq> q" and "length bs \<le> 4096" and "j < 512"
  shows "entry (put m p bs) q j = entry m q j"
  using disjoint_pages [OF assms(1-3), of "8 * j" 8 "length bs"] assms(4,5)
  unfolding entry_def slot_add by (intro load64_put_other) auto

lemma entry_zero_page:
  assumes "j < 512"
  shows "entry (put m p (replicate 4096 0)) p j = 0"
proof -
  have "get (put m p (replicate 4096 0)) (p + of_nat (8 * j)) 8 = replicate 8 0"
  proof (rule nth_equalityI)
    fix i assume "i < length (get (put m p (replicate 4096 0)) (p + of_nat (8 * j)) 8)"
    then have i: "i < 8" by simp
    have "p + of_nat (8 * j) + of_nat i - p = (of_nat (8 * j + i) :: uint64)" by simp
    moreover have "8 * j + i < 2 ^ 64" using i assms by simp
    ultimately have "unat (p + of_nat (8 * j) + of_nat i - p) = 8 * j + i"
      by (simp only: unat_of_nat_64)
    then show "get (put m p (replicate 4096 0)) (p + of_nat (8 * j)) 8 ! i = replicate 8 0 ! i"
      using i assms by (simp add: put_def)
  qed simp
  then show ?thesis unfolding entry_def slot_add load64_def by simp
qed

lemma put_put_same: "length bs = length cs \<Longrightarrow> put (put m p bs) p cs = put m p cs"
  by (auto simp: put_def)

text \<open>A write outside the table pages along a path leaves the path alone.\<close>

lemma node_put_page:
  assumes "aligned pt" and "aligned p" and "length bs \<le> 4096" and "set is \<subseteq> {..<512}"
    and "\<And>k. k < length is \<Longrightarrow> node m pt (take k is) \<noteq> Some p"
  shows "node (put m p bs) pt is = node m pt is"
proof (rule node_cong)
  fix k q assume k: "k < length is" and q: "node m pt (take k is) = Some q"
  then have "p \<noteq> q" using assms(5) by auto
  moreover have "is ! k < 512" using assms(4) k nth_mem by fastforce
  ultimately show "entry (put m p bs) q (is ! k) = entry m q (is ! k)"
    using assms(1-3) q by (intro entry_put_page) (auto dest: aligned_node)
qed

lemma node_store:
  assumes "aligned pt" and "aligned p" and "i < 512" and "set is \<subseteq> {..<512}"
    and "\<And>k. k < length is \<Longrightarrow> node m pt (take k is) = Some p \<Longrightarrow> is ! k \<noteq> i"
  shows "node (store64 m (p + 8 * of_nat i) v) pt is = node m pt is"
proof (rule node_cong)
  fix k q assume k: "k < length is" and q: "node m pt (take k is) = Some q"
  have "is ! k < 512" using assms(4) k nth_mem by fastforce
  moreover have "p \<noteq> q \<or> i \<noteq> is ! k" using assms(5) k q by auto
  ultimately show "entry (store64 m (p + 8 * of_nat i) v) q (is ! k) = entry m q (is ! k)"
    using assms(1-3) q by (intro entry_store_other) (auto dest: aligned_node)
qed

lemma pt_okD:
  assumes "pt_ok n m pt" and "node m pt is = Some q" and "is \<in> paths n"
  shows "q \<noteq> 0" and "node m pt js = Some q \<Longrightarrow> js \<in> paths n \<Longrightarrow> js = is" and "aligned q"
  using assms by (auto simp: pt_ok_def dest: aligned_node)

lemma pt_ok_aligned: "pt_ok n m pt \<Longrightarrow> aligned pt"
  by (simp add: pt_ok_def)

lemma pt_ok_mono: "pt_ok n m pt \<Longrightarrow> k \<le> n \<Longrightarrow> pt_ok k m pt"
  unfolding pt_ok_def by (meson paths_mono)

lemma owned_mono: "k \<le> n \<Longrightarrow> owned k m pt \<subseteq> owned n m pt"
  by (auto simp: owned_def dest: paths_mono)

lemma ownedI: "node m pt is = Some q \<Longrightarrow> is \<in> paths n \<Longrightarrow> q \<in> owned n m pt"
  by (auto simp: owned_def)

lemma paths_take: "js \<in> paths n \<Longrightarrow> k < length js \<Longrightarrow> take k js \<in> paths (n - 1)"
  by (auto simp: paths_def dest: in_set_takeD)

lemma node_append_None: "node m pt is = None \<Longrightarrow> node m pt (is @ ks) = None"
proof (induction ks rule: rev_induct)
  case (snoc k ks)
  then show ?case using node_snoc [of m pt "is @ ks" k] by simp
qed simp

text \<open>
  Writing entry \<open>i\<close> of the table page \<open>p\<close> on path \<open>is\<close> changes only the nodes
  below that entry.
\<close>

lemma node_store_elsewhere:
  assumes "pt_ok 2 m pt" and "node m pt is = Some p" and "is \<in> paths 2" and "i < 512"
    and "js \<in> paths 3" and "\<And>ks. js \<noteq> is @ i # ks"
  shows "node (store64 m (p + 8 * of_nat i) v) pt js = node m pt js"
proof (rule node_store)
  fix k assume k: "k < length js" and n: "node m pt (take k js) = Some p"
  have "take k js \<in> paths 2" using paths_take [OF assms(5) k] by simp
  then have "take k js = is" using pt_okD(2) [OF assms(1,2,3)] n by simp
  then show "js ! k \<noteq> i" using assms(6) id_take_nth_drop [OF k] by metis
qed (use assms in \<open>auto simp: paths_def dest: pt_ok_aligned pt_okD\<close>)

lemma node_store_at:
  assumes "pt_ok 2 m pt" and "node m pt is = Some p" and "is \<in> paths 2" and "i < 512"
  shows "node (store64 m (p + 8 * of_nat i) v) pt (is @ [i]) = (if v AND PTE_V \<noteq> 0 then Some (PTE2PA v) else None)"
proof -
  have "is \<in> paths 3" using assms(3) by (auto intro: paths_mono)
  then have "node (store64 m (p + 8 * of_nat i) v) pt is = Some p"
    using assms by (subst node_store_elsewhere [OF assms(1-4)]) auto
  then show ?thesis by (simp add: node_snoc child_def)
qed

lemma node_put_unowned:
  assumes "pt_ok 2 m pt" and "aligned c" and "c \<notin> owned 2 m pt" and "js \<in> paths 3" and "length bs \<le> 4096"
  shows "node (put m c bs) pt js = node m pt js"
proof (rule node_put_page)
  fix k assume "k < length js"
  then have "take k js \<in> paths 2" using paths_take [OF assms(4)] by simp
  then show "node m pt (take k js) \<noteq> Some c" using assms(3) ownedI by blast
qed (use assms in \<open>auto simp: paths_def dest: pt_ok_aligned\<close>)

lemma owned_put_unowned:
  assumes "pt_ok 2 m pt" and "aligned c" and "c \<notin> owned 2 m pt" and "length bs \<le> 4096" and "n \<le> 3"
  shows "owned n (put m c bs) pt = owned n m pt" and "pt_ok n (put m c bs) pt = pt_ok n m pt"
proof -
  have "node (put m c bs) pt js = node m pt js" if "js \<in> paths n" for js
    using that assms by (intro node_put_unowned) (auto dest: paths_mono)
  then show "owned n (put m c bs) pt = owned n m pt" "pt_ok n (put m c bs) pt = pt_ok n m pt"
    by (auto simp: owned_def pt_ok_def)
qed

lemma pte_put_unowned:
  assumes "pt_ok 2 m pt" and "aligned c" and "c \<notin> owned 2 m pt" and "length bs \<le> 4096"
  shows "pte (put m c bs) pt va = pte m pt va"
proof -
  have "node (put m c bs) pt [px 2 va, px 1 va] = node m pt [px 2 va, px 1 va]"
    using assms by (intro node_put_unowned) auto
  moreover have "entry (put m c bs) q (px 0 va) = entry m q (px 0 va)"
    if "node m pt [px 2 va, px 1 va] = Some q" for q
    using assms ownedI [OF that px_paths(1)] pt_okD(3) [OF assms(1) that px_paths(1)]
    by (intro entry_put_page) auto
  ultimately show ?thesis by (auto simp: pte_def split: option.split)
qed

section \<open>Linking a fresh table page\<close>

definition link :: "mem \<Rightarrow> uint64 \<Rightarrow> nat \<Rightarrow> uint64 \<Rightarrow> mem" where
  "link m p i c = store64 (put m c (replicate 4096 0)) (p + 8 * of_nat i) (PA2PTE c OR PTE_V)"

lemma PTE_V_bits [simp]: "take_bit 10 PTE_V = PTE_V" "PTE_V AND PTE_V = PTE_V" "PTE_V \<noteq> 0"
  by (simp_all add: PTE_V_def take_bit_eq_mod)

lemma link_pte [simp]: "aligned c \<Longrightarrow> PTE2PA (PA2PTE c OR PTE_V) = c" "(PA2PTE c OR PTE_V) AND PTE_V = PTE_V"
  by (simp_all add: PTE2PA_PA2PTE and_flag_pte)

lemma node_link:
  assumes ok: "pt_ok 2 m pt" and p: "node m pt is = Some p" "is \<in> paths 1" and i: "i < 512"
    and new: "child m p i = None" and c: "aligned c" "c \<notin> owned 2 m pt"
    and js: "js \<in> paths 3"
  shows "node (link m p i c) pt js = (if js = is @ [i] then Some c else node m pt js)"
proof -
  let ?m = "put m c (replicate 4096 0)"
  have is2: "is \<in> paths 2" "is \<in> paths 3" using paths_mono [OF p(2)] by simp_all
  have ok': "pt_ok 2 ?m pt" using owned_put_unowned [OF ok c] ok by simp
  have same: "node ?m pt ks = node m pt ks" if "ks \<in> paths 3" for ks
    using node_put_unowned [OF ok c that] by simp
  have p': "node ?m pt is = Some p" using same [of "is"] p is2 by simp
  have at: "node (link m p i c) pt (is @ [i]) = Some c"
    using node_store_at [OF ok' p' is2(1) i] c(1) by (simp add: link_def)
  have "c \<noteq> p" using c(2) ownedI [OF p(1) is2(1)] by auto
  then have "entry (link m p i c) c k = 0" if "k < 512" for k
    using that c(1) i p is2 ok pt_okD(3)
    by (subst link_def, subst entry_store_other) (auto simp: entry_zero_page)
  then have below: "node (link m p i c) pt (is @ [i] @ [k]) = None" if "k < 512" for k
    using that at node_snoc [of "link m p i c" pt "is @ [i]" k] by (simp add: child_def)
  have old: "node m pt (is @ i # ks) = None" for ks
    using new p node_append_None [of m pt "is @ [i]" ks] by (simp add: node_snoc)
  show ?thesis
  proof (cases "\<exists>ks. js = is @ i # ks")
    case False
    then have "node (link m p i c) pt js = node ?m pt js"
      using js unfolding link_def by (intro node_store_elsewhere [OF ok' p' is2(1) i]) auto
    then show ?thesis using False same js by auto
  next
    case True
    then obtain ks where ks: "js = is @ i # ks" by blast
    show ?thesis
    proof (cases ks)
      case Nil
      then show ?thesis using ks at by simp
    next
      case (Cons k ls)
      then have "k < 512" using ks js by (simp add: paths_def)
      then have "node (link m p i c) pt js = None"
        using node_append_None [OF below, of k ls] ks Cons by simp
      then show ?thesis using ks Cons old [of ks] by simp
    qed
  qed
qed

lemma link_ok:
  assumes ok: "pt_ok n m pt" "2 \<le> n" "n \<le> 3" and p: "node m pt is = Some p" "is \<in> paths 1"
    and i: "i < 512" and new: "child m p i = None"
    and c: "aligned c" "c \<noteq> 0" "c \<notin> owned n m pt"
  shows "pt_ok n (link m p i c) pt"
    and "2 \<le> k \<Longrightarrow> k \<le> n \<Longrightarrow> owned k (link m p i c) pt = insert c (owned k m pt)"
    and "pte (link m p i c) pt va = pte m pt va"
proof -
  have ok2: "pt_ok 2 m pt" using pt_ok_mono [OF ok(1,2)] .
  have c2: "c \<notin> owned 2 m pt" using c(3) owned_mono [OF ok(2)] by auto
  have nd: "node (link m p i c) pt js = (if js = is @ [i] then Some c else node m pt js)"
    if "js \<in> paths n" for js
    using that ok(3) by (intro node_link [OF ok2 p i new c(1) c2]) (auto dest: paths_mono)
  have isi: "is @ [i] \<in> paths 2" using p(2) i by (simp add: paths_snoc)
  have old: "node m pt (is @ [i]) = None" using new p(1) by (simp add: node_snoc)
  have notc: "node m pt js \<noteq> Some c" if "js \<in> paths n" for js using c(3) that ownedI by blast
  show "pt_ok n (link m p i c) pt"
    using ok(1) c notc nd old unfolding pt_ok_def by (auto split: if_splits)
  show "owned k (link m p i c) pt = insert c (owned k m pt)" if k: "2 \<le> k" "k \<le> n"
  proof -
    have "node (link m p i c) pt js = (if js = is @ [i] then Some c else node m pt js)"
      if "js \<in> paths k" for js using nd paths_mono [OF that k(2)] by blast
    then show ?thesis
      using paths_mono [OF isi k(1)] old unfolding owned_def
      by (intro equalityI subsetI) (auto split: if_splits, metis option.distinct(1))
  qed
  let ?js = "[px 2 va, px 1 va]"
  have j: "?js \<in> paths n" using paths_mono [OF px_paths(1) ok(2)] .
  have pp: "p \<in> owned 2 m pt" "aligned p"
    using ownedI [OF p(1) paths_mono [OF p(2)], of 2] pt_okD(3) [OF ok2 p(1) paths_mono [OF p(2)]] by simp_all
  show "pte (link m p i c) pt va = pte m pt va"
  proof (cases "?js = is @ [i]")
    case True
    then have "node m pt ?js = None" "node (link m p i c) pt ?js = Some c" using old nd [OF j] by auto
    moreover have "entry (link m p i c) c (px 0 va) = 0"
      using c(1) c2 i pp by (subst link_def, subst entry_store_other) (auto simp: entry_zero_page)
    ultimately show ?thesis by (simp add: pte_def)
  next
    case False
    have e: "entry (link m p i c) q (px 0 va) = entry m q (px 0 va)" if q: "node m pt ?js = Some q" for q
    proof -
      have "?js \<noteq> is" using p(2) by (auto simp: paths_def)
      then have "q \<noteq> p" using pt_okD(2) [OF ok2 q px_paths(1), of "is"] p(1) paths_mono [OF p(2), of 2] by auto
      moreover have "q \<noteq> c" using c2 ownedI [OF q px_paths(1)] by auto
      moreover have "aligned q" by (rule pt_okD(3) [OF ok2 q px_paths(1)])
      ultimately show ?thesis
        unfolding link_def using pp c(1) i
        by (subst entry_store_other) (simp_all add: entry_put_page)
    qed
    have "node (link m p i c) pt ?js = node m pt ?js" using nd [OF j] False by (simp only: if_False)
    then show ?thesis using e by (auto simp: pte_def split: option.split)
  qed
qed

lemma get_put_page:
  "aligned p \<Longrightarrow> aligned q \<Longrightarrow> p \<noteq> q \<Longrightarrow> length bs \<le> 4096 \<Longrightarrow> get (put m p bs) q 4096 = get m q 4096"
  using disjoint_pages [of p q 0 4096 "length bs"] by (simp add: get_put_disjoint)

lemma get_store_page:
  assumes "aligned p" and "aligned q" and "p \<noteq> q" and "i < 512"
  shows "get (store64 m (p + 8 * of_nat i) v) q 4096 = get m q 4096"
proof -
  obtain a where a: "unat p = 4096 * a" "a < 2 ^ 52" using assms(1) by (rule aligned_obtain)
  obtain b where b: "unat q = 4096 * b" "b < 2 ^ 52" using assms(2) by (rule aligned_obtain)
  have "a \<noteq> b" using a b assms(3) by (auto simp: word_unat_eq_iff)
  then have "disjoint_ranges q 4096 (p + of_nat (8 * i)) 8"
    using a b assms(4) unat_slot [OF assms(1,4)]
    by (intro disjoint_rangesI; cases a b rule: linorder_cases) auto
  then show ?thesis unfolding store64_def slot_add by (intro get_put_disjoint) simp
qed

lemma get_link_other:
  "aligned p \<Longrightarrow> aligned q \<Longrightarrow> aligned c \<Longrightarrow> p \<noteq> q \<Longrightarrow> c \<noteq> q \<Longrightarrow> i < 512 \<Longrightarrow>
   get (link m p i c) q 4096 = get m q 4096"
  by (simp add: link_def get_store_page get_put_page)

section \<open>Walking with allocation\<close>

text \<open>The operations below change only physical memory, the free list and \<open>intena\<close>.\<close>

definition beyond_kmem :: "'a kmem_state_scheme \<Rightarrow> 'a kmem_state_scheme" where
  "beyond_kmem s = s\<lparr>cpus := \<lambda>_. \<lparr>c_proc = None, noff = 0, intena = False\<rparr>, mem := \<lambda>_. 0, freelist := 0\<rparr>"

definition only_kmem :: "'a kmem_state_scheme \<Rightarrow> 'a kmem_state_scheme \<Rightarrow> bool" where
  "only_kmem s t \<longleftrightarrow> beyond_kmem t = beyond_kmem s
     \<and> (cpus t = cpus s \<or> cpus t = settle_cpus (hart s) (sie s) (cpus s))"

lemma only_kmem_refl: "only_kmem s s"
  by (simp add: only_kmem_def)

lemma only_kmem_fields:
  assumes "only_kmem s t"
  shows "hart t = hart s" "sie t = sie s" "locks t = locks s" "kernel_end t = kernel_end s"
proof -
  have e: "beyond_kmem t = beyond_kmem s" using assms by (simp add: only_kmem_def)
  show "hart t = hart s" using arg_cong [OF e, of hart] by (simp add: beyond_kmem_def)
  show "sie t = sie s" using arg_cong [OF e, of sie] by (simp add: beyond_kmem_def)
  show "locks t = locks s" using arg_cong [OF e, of locks] by (simp add: beyond_kmem_def)
  show "kernel_end t = kernel_end s" using arg_cong [OF e, of kernel_end] by (simp add: beyond_kmem_def)
qed

lemma only_kmem_kready: "only_kmem s t \<Longrightarrow> kready t = kready s"
  using only_kmem_fields [of s t] by (auto simp: only_kmem_def kready_def lock_simps)

lemma only_kmem_trans: "only_kmem s t \<Longrightarrow> only_kmem t u \<Longrightarrow> only_kmem s u"
  using only_kmem_fields [of s t] by (auto simp: only_kmem_def lock_simps)

lemma only_kmem_mem [simp]: "only_kmem s (t\<lparr>mem := m\<rparr>) = only_kmem s t"
  by (simp add: only_kmem_def beyond_kmem_def)

lemma only_kmem_freelist [simp]: "only_kmem s (t\<lparr>freelist := f\<rparr>) = only_kmem s t"
  by (simp add: only_kmem_def beyond_kmem_def)

lemma only_kmem_settle [simp]: "only_kmem s (settle s)"
  by (simp add: only_kmem_def beyond_kmem_def)

lemma only_kmem_eq: "only_kmem s t \<Longrightarrow> t = s\<lparr>cpus := cpus t, mem := mem t, freelist := freelist t\<rparr>"
proof -
  assume "only_kmem s t"
  then have e: "beyond_kmem t = beyond_kmem s" by (simp add: only_kmem_def)
  have "t = (beyond_kmem t)\<lparr>cpus := cpus t, mem := mem t, freelist := freelist t\<rparr>" by (simp add: beyond_kmem_def)
  then show ?thesis unfolding e by (simp add: beyond_kmem_def)
qed

definition pt_inv :: "nat \<Rightarrow> 'a kmem_state_scheme \<Rightarrow> uint64 \<Rightarrow> uint64 list \<Rightarrow> bool" where
  "pt_inv n s pt ps \<longleftrightarrow> kready s \<and> kmem_inv s ps \<and> pt_ok n (mem s) pt \<and> owned n (mem s) pt \<inter> set ps = {}"

text \<open>
  The table may have grown: pages moved from the free list into it, no leaf entry changed, and
  the contents of every page outside the table and the free list stayed as they were.
\<close>

definition pt_grow :: "nat \<Rightarrow> uint64 \<Rightarrow> 'a kmem_state_scheme \<Rightarrow> uint64 list \<Rightarrow> 'a kmem_state_scheme \<Rightarrow> uint64 list \<Rightarrow> bool" where
  "pt_grow n pt s ps t ps' \<longleftrightarrow> pt_inv n t pt ps' \<and> only_kmem s t
     \<and> (\<exists>cs. ps = cs @ ps' \<and> (\<forall>k. 2 \<le> k \<and> k \<le> n \<longrightarrow> owned k (mem t) pt = owned k (mem s) pt \<union> set cs))
     \<and> (\<forall>va. pte (mem t) pt va = pte (mem s) pt va)
     \<and> (\<forall>q. aligned q \<and> q \<notin> owned 2 (mem s) pt \<and> q \<notin> set ps \<longrightarrow> get (mem t) q 4096 = get (mem s) q 4096)"

lemma pt_grow_refl: "pt_inv n s pt ps \<Longrightarrow> pt_grow n pt s ps s ps"
  by (auto simp: pt_grow_def only_kmem_refl)

lemma pt_grow_settle: "pt_inv n s pt ps \<Longrightarrow> pt_grow n pt s ps (settle s) ps"
  by (auto simp: pt_grow_def pt_inv_def kready_def kmem_inv_def lock_simps)

lemma pt_grow_trans:
  assumes "pt_grow n pt s ps t qs" and "pt_grow n pt t qs u rs" and "2 \<le> n"
  shows "pt_grow n pt s ps u rs"
proof -
  obtain cs where cs: "ps = cs @ qs" "\<And>k. 2 \<le> k \<Longrightarrow> k \<le> n \<Longrightarrow> owned k (mem t) pt = owned k (mem s) pt \<union> set cs"
    using assms(1) unfolding pt_grow_def by blast
  obtain ds where ds: "qs = ds @ rs" "\<And>k. 2 \<le> k \<Longrightarrow> k \<le> n \<Longrightarrow> owned k (mem u) pt = owned k (mem t) pt \<union> set ds"
    using assms(2) unfolding pt_grow_def by blast
  have "\<exists>es. ps = es @ rs \<and> (\<forall>k. 2 \<le> k \<and> k \<le> n \<longrightarrow> owned k (mem u) pt = owned k (mem s) pt \<union> set es)"
    using cs ds by (intro exI [of _ "cs @ ds"]) auto
  moreover have "get (mem u) q 4096 = get (mem s) q 4096"
    if "aligned q" "q \<notin> owned 2 (mem s) pt" "q \<notin> set ps" for q
  proof -
    have "q \<notin> owned 2 (mem t) pt" "q \<notin> set qs" using that cs assms(3) by auto
    then show ?thesis using that assms(1,2) unfolding pt_grow_def by simp
  qed
  ultimately show ?thesis
    using assms(1,2) unfolding pt_grow_def by (auto intro: only_kmem_trans)
qed

lemma kalloc_link:
  assumes inv: "pt_inv n s pt (c # ps)" "2 \<le> n" "n \<le> 3" and p: "node (mem s) pt is = Some p" "is \<in> paths 1"
    and i: "i < 512" and new: "child (mem s) p i = None"
    and t: "t = settle s\<lparr>freelist := load64 (mem s) c, mem := link (mem s) p i c\<rparr>"
  shows "pt_grow n pt s (c # ps) t ps"
proof -
  have k: "kready s" "kmem_inv s (c # ps)" and ok: "pt_ok n (mem s) pt" and c: "c \<notin> owned n (mem s) pt"
    and disj: "owned n (mem s) pt \<inter> set ps = {}"
    using inv(1) by (auto simp: pt_inv_def)
  have cc: "aligned c" "c \<noteq> 0" "c \<notin> set ps"
    using k(2) page_ok_nonzero by (auto simp: kmem_inv_def page_ok_def)
  have ok2: "pt_ok 2 (mem s) pt" using pt_ok_mono [OF ok inv(2)] .
  have pp: "p \<in> owned 2 (mem s) pt" "aligned p"
    using ownedI [OF p(1) paths_mono [OF p(2)], of 2] pt_okD(3) [OF ok2 p(1) paths_mono [OF p(2)]] by simp_all
  note L = link_ok [OF ok inv(2,3) p i new cc(1,2) c]
  have pn: "p \<notin> set ps" using pp(1) disj owned_mono [OF inv(2)] by blast
  have pc: "p \<noteq> c" using pp(1) c owned_mono [OF inv(2)] by blast
  have "load64 (link (mem s) p i c) q = load64 (mem s) q" if "q \<in> set ps" for q
  proof -
    have q: "aligned q" "q \<noteq> c" "q \<noteq> p" using that k(2) cc(3) pn by (auto simp: kmem_inv_def page_ok_def)
    have "entry (link (mem s) p i c) q 0 = entry (mem s) q 0"
      unfolding link_def using q pp(2) cc(1) i by (subst entry_store_other) (simp_all add: entry_put_page)
    then show ?thesis by (simp add: entry_def)
  qed
  then have "flist (link (mem s) p i c) (load64 (mem s) c) ps"
    using flist_cong k(2) by (metis flist.simps(2) kmem_inv_def)
  then have "kmem_inv t ps" using k(2) by (simp add: kmem_inv_def t)
  moreover have "kready t" using k(1) by (simp add: kready_def lock_simps t)
  moreover have "owned n (mem t) pt \<inter> set ps = {}" using L(2) [of n] inv(2) disj cc(3) by (simp add: t)
  ultimately have "pt_inv n t pt ps" using L(1) by (simp add: pt_inv_def t)
  moreover have "only_kmem s t" by (simp add: t)
  moreover have "get (mem t) q 4096 = get (mem s) q 4096"
    if "aligned q" "q \<notin> owned 2 (mem s) pt" "q \<notin> set (c # ps)" for q
    using that pp cc(1) i by (auto simp: t intro!: get_link_other)
  ultimately show ?thesis
    using L(2,3) unfolding pt_grow_def by (auto simp: t intro!: exI [of _ "[c]"])
qed

lemma walk_lookup:
  "va < MAXVA \<Longrightarrow> walk pt va False s =
     Ret (case node (mem s) pt [px 2 va, px 1 va] of None \<Rightarrow> 0 | Some q \<Rightarrow> q + 8 * PX 0 va) s"
  by (auto simp: walk_def numeral_2_eq_2 node_2 [unfolded One_nat_def] child_def entry_def Let_def not_le)

lemma pt_inv_head:
  assumes "pt_inv n s pt (c # ps)" and "2 \<le> n"
  shows "pt_ok 2 (mem s) pt" "aligned c" "c \<noteq> 0" "c \<notin> set ps" "c \<notin> owned n (mem s) pt" "c \<notin> owned 2 (mem s) pt"
proof -
  show "pt_ok 2 (mem s) pt" using assms pt_ok_mono by (auto simp: pt_inv_def)
  show "aligned c" "c \<noteq> 0" "c \<notin> set ps" using assms page_ok_nonzero by (auto simp: pt_inv_def kmem_inv_def page_ok_def)
  show "c \<notin> owned n (mem s) pt" using assms by (auto simp: pt_inv_def)
  then show "c \<notin> owned 2 (mem s) pt" using owned_mono [OF assms(2)] by blast
qed

lemma walk_loop_alloc:
  assumes "pt_inv n s pt ps" and "2 \<le> n" and "n \<le> 3" and "l \<le> 2"
    and "node (mem s) pt (take (2 - l) [px 2 va, px 1 va]) = Some p"
  shows "\<exists>r t ps'. walk_loop l p va True s = Ret r t \<and> pt_grow n pt s ps t ps'
    \<and> (r = 0 \<and> ps' = [] \<or> (\<exists>q. node (mem t) pt [px 2 va, px 1 va] = Some q \<and> r = q + 8 * PX 0 va))"
  using assms(1,4,5)
proof (induction l arbitrary: p s ps)
  case 0
  then show ?case by (auto intro: pt_grow_refl)
next
  case (Suc l)
  let ?is = "take (2 - Suc l) [px 2 va, px 1 va]" and ?i = "px (Suc l) va"
  have l: "l = 0 \<or> l = 1" using Suc.prems(2) by auto
  then have step: "take (2 - l) [px 2 va, px 1 va] = ?is @ [?i]" and is1: "?is \<in> paths 1"
    by (auto simp: numeral_2_eq_2 paths_def)
  have e: "load64 (mem s) (p + 8 * PX (Suc l) va) = entry (mem s) p ?i" by (simp add: entry_def)
  show ?case
  proof (cases "child (mem s) p ?i")
    case (Some q)
    then have q: "entry (mem s) p ?i AND PTE_V \<noteq> 0" "PTE2PA (entry (mem s) p ?i) = q"
      by (auto simp: child_def split: if_splits)
    have "node (mem s) pt (take (2 - l) [px 2 va, px 1 va]) = Some q"
      unfolding step using Suc.prems(3) Some by (simp add: node_snoc)
    then show ?thesis using Suc.IH [OF Suc.prems(1)] Suc.prems(2) q by (simp add: Let_def e)
  next
    case None
    then have v: "entry (mem s) p ?i AND PTE_V = 0" by (auto simp: child_def split: if_splits)
    have k: "kready s" "kmem_inv s ps" using Suc.prems(1) by (simp_all add: pt_inv_def)
    show ?thesis
    proof (cases ps)
      case Nil
      then have "walk_loop (Suc l) p va True s = Ret 0 (settle s)"
        using kalloc_Nil [of s] k v by (simp add: Let_def e)
      then show ?thesis using pt_grow_settle [OF Suc.prems(1)] Nil by blast
    next
      case (Cons c qs)
      let ?t = "settle s\<lparr>freelist := load64 (mem s) c, mem := link (mem s) p ?i c\<rparr>"
      have "c \<noteq> 0" using k(2) Cons by (auto simp: kmem_inv_def)
      then have w: "walk_loop (Suc l) p va True s = walk_loop l c va True ?t"
        using kalloc_Cons [of s c qs] k v Cons
        by (simp add: Let_def e memset_put put_put_same link_def)
      have g: "pt_grow n pt s (c # qs) ?t qs"
        using kalloc_link [OF _ assms(2,3) Suc.prems(3) is1 px_less None refl] Suc.prems(1) Cons by blast
      have "?is @ [?i] \<in> paths 3" using is1 by (auto simp: paths_def)
      then have "node (mem ?t) pt (take (2 - l) [px 2 va, px 1 va]) = Some c"
        unfolding step
        using node_link [OF _ Suc.prems(3) is1 px_less None, of c "?is @ [?i]"]
          pt_inv_head [OF _ assms(2), of s pt c qs] Suc.prems(1) Cons
        by simp
      then obtain r u ps' where "walk_loop l c va True ?t = Ret r u" "pt_grow n pt ?t qs u ps'"
        "r = 0 \<and> ps' = [] \<or> (\<exists>q. node (mem u) pt [px 2 va, px 1 va] = Some q \<and> r = q + 8 * PX 0 va)"
        using Suc.IH [of ?t qs c] g Suc.prems(2) unfolding pt_grow_def by auto
      then show ?thesis using w pt_grow_trans [OF g _ assms(2)] Cons by auto
    qed
  qed
qed

lemma walk_alloc:
  assumes "pt_inv n s pt ps" and "2 \<le> n" and "n \<le> 3" and "va < MAXVA"
  shows "\<exists>r t ps'. walk pt va True s = Ret r t \<and> pt_grow n pt s ps t ps'
    \<and> (r = 0 \<and> ps' = [] \<or> (\<exists>q. node (mem t) pt [px 2 va, px 1 va] = Some q \<and> r = q + 8 * PX 0 va))"
  using walk_loop_alloc [OF assms(1-3), of 2 va pt] assms(4) by (simp add: walk_def not_le)

section \<open>Storing a leaf entry\<close>

lemma pte_node:
  "node m pt [px 2 va, px 1 va, px 0 va] = (if pte m pt va AND PTE_V \<noteq> 0 then Some (PTE2PA (pte m pt va)) else None)"
  by (auto simp: pte_def node_3 child_def split: option.split)

text \<open>The page that contains an address, and that two addresses lie in different pages.\<close>

lemma px_inj:
  assumes "va < MAXVA" and "vb < MAXVA" and "[px 2 va, px 1 va, px 0 va] = [px 2 vb, px 1 vb, px 0 vb]"
  shows "PGROUNDDOWN va = PGROUNDDOWN vb"
  using assms(3) by (intro PX_inj [OF assms(1,2)]) (simp_all add: px_def word_unat_eq_iff)

lemma pte_same_page:
  assumes "PGROUNDDOWN va = PGROUNDDOWN vb"
  shows "pte m pt va = pte m pt vb"
proof -
  have "px l va = px l vb" for l
    using PX_PGROUNDDOWN [of l va] PX_PGROUNDDOWN [of l vb] assms by (simp add: px_def)
  then show ?thesis unfolding pte_def by presburger
qed

lemma pte_store_leaf:
  assumes ok: "pt_ok 2 m pt" and q: "node m pt [px 2 va, px 1 va] = Some q" and v: "va < MAXVA"
    and w: "w < MAXVA"
  shows "pte (store64 m (q + 8 * of_nat (px 0 va)) e) pt w =
    (if PGROUNDDOWN w = PGROUNDDOWN va then e else pte m pt w)"
proof -
  let ?m = "store64 m (q + 8 * of_nat (px 0 va)) e"
  have n: "node ?m pt js = node m pt js" if "js \<in> paths 2" for js
    using that by (intro node_store_elsewhere [OF ok q]) (auto simp: paths_def)
  have q': "node ?m pt [px 2 va, px 1 va] = Some q" using n q by simp
  show ?thesis
  proof (cases "PGROUNDDOWN w = PGROUNDDOWN va")
    case True
    then have "pte ?m pt w = pte ?m pt va" by (rule pte_same_page)
    also have "\<dots> = e" using q' by (simp add: pte_def)
    finally show ?thesis using True by simp
  next
    case False
    have "entry ?m r (px 0 w) = entry m r (px 0 w)" if r: "node m pt [px 2 w, px 1 w] = Some r" for r
    proof (rule entry_store_other)
      show "q \<noteq> r \<or> px 0 va \<noteq> px 0 w"
        using False px_inj [OF w v] pt_okD(2) [OF ok q px_paths(1), of "[px 2 w, px 1 w]"] r by auto
    qed (use ok q r px_paths(1) pt_okD(3) in \<open>auto\<close>)
    then show ?thesis using False n [OF px_paths(1)] by (auto simp: pte_def split: option.split)
  qed
qed

lemma node_store_leaf:
  assumes ok: "pt_ok 2 m pt" and q: "node m pt [px 2 va, px 1 va] = Some q" and js: "js \<in> paths 3"
  shows "node (store64 m (q + 8 * PX 0 va) e) pt js =
    (if js = [px 2 va, px 1 va, px 0 va] then if e AND PTE_V \<noteq> 0 then Some (PTE2PA e) else None
     else node m pt js)"
proof (cases "js = [px 2 va, px 1 va, px 0 va]")
  case True
  then show ?thesis using node_store_at [OF ok q px_paths(1) px_less, of 0 va e] by simp
next
  case False
  then have "node (store64 m (q + 8 * of_nat (px 0 va)) e) pt js = node m pt js"
    using js by (intro node_store_elsewhere [OF ok q]) (auto simp: paths_def)
  then show ?thesis using False by simp
qed

lemma tables_store_leaf:
  assumes ok: "pt_ok 2 m pt" and q: "node m pt [px 2 va, px 1 va] = Some q"
  shows "pt_ok 2 (store64 m (q + 8 * PX 0 va) e) pt" "owned 2 (store64 m (q + 8 * PX 0 va) e) pt = owned 2 m pt"
proof -
  have "node (store64 m (q + 8 * PX 0 va) e) pt js = node m pt js" if "js \<in> paths 2" for js
    using node_store_leaf [OF ok q, of js e] that by (auto simp: paths_def)
  then show "pt_ok 2 (store64 m (q + 8 * PX 0 va) e) pt" "owned 2 (store64 m (q + 8 * PX 0 va) e) pt = owned 2 m pt"
    using ok by (auto simp: pt_ok_def owned_def)
qed

lemma leaf_map_ok:
  assumes ok: "pt_ok 3 m pt" and q: "node m pt [px 2 va, px 1 va] = Some q"
    and old: "pte m pt va AND PTE_V = 0" and e: "e AND PTE_V \<noteq> 0" "PTE2PA e = x" and x: "x \<noteq> 0" "x \<notin> owned 3 m pt"
  shows "pt_ok 3 (store64 m (q + 8 * PX 0 va) e) pt"
    and "owned 3 (store64 m (q + 8 * PX 0 va) e) pt = insert x (owned 3 m pt)"
proof -
  let ?m = "store64 m (q + 8 * PX 0 va) e" and ?js = "[px 2 va, px 1 va, px 0 va]"
  have ok2: "pt_ok 2 m pt" using pt_ok_mono [OF ok] by simp
  have n: "node ?m pt js = (if js = ?js then Some x else node m pt js)" if "js \<in> paths 3" for js
    using node_store_leaf [OF ok2 q that, of e] e by simp
  have o: "node m pt ?js = None" using old by (subst pte_node) simp
  have x': "node m pt js \<noteq> Some x" if "js \<in> paths 3" for js using x(2) that ownedI by blast
  show "pt_ok 3 ?m pt"
    using ok x(1) unfolding pt_ok_def by (auto simp: n x' split: if_splits)
  show "owned 3 ?m pt = insert x (owned 3 m pt)"
  proof (intro equalityI subsetI)
    fix y assume "y \<in> owned 3 ?m pt"
    then show "y \<in> insert x (owned 3 m pt)" by (auto simp: owned_def n split: if_splits)
  next
    fix y assume "y \<in> insert x (owned 3 m pt)"
    then consider "y = x" | js where "js \<in> paths 3" "node m pt js = Some y" by (auto simp: owned_def)
    then show "y \<in> owned 3 ?m pt"
    proof cases
      case 1
      then show ?thesis using n [OF px_paths(3)] by (intro ownedI [OF _ px_paths(3)]) auto
    next
      case 2
      then have "js \<noteq> ?js" using o by auto
      then show ?thesis using 2 n by (intro ownedI) auto
    qed
  qed
qed

lemma leaf_unmap_ok:
  assumes ok: "pt_ok 3 m pt" and q: "node m pt [px 2 va, px 1 va] = Some q" and e: "e AND PTE_V = 0"
    and old: "pte m pt va AND PTE_V \<noteq> 0" "PTE2PA (pte m pt va) = x"
  shows "pt_ok 3 (store64 m (q + 8 * PX 0 va) e) pt"
    and "owned 3 (store64 m (q + 8 * PX 0 va) e) pt = owned 3 m pt - {x}"
proof -
  let ?m = "store64 m (q + 8 * PX 0 va) e" and ?js = "[px 2 va, px 1 va, px 0 va]"
  have ok2: "pt_ok 2 m pt" using pt_ok_mono [OF ok] by simp
  have n: "node ?m pt js = (if js = ?js then None else node m pt js)" if "js \<in> paths 3" for js
    using node_store_leaf [OF ok2 q that, of e] e by simp
  have o: "node m pt ?js = Some x" using old by (subst pte_node) simp
  have u: "js = ?js" if "js \<in> paths 3" "node m pt js = Some x" for js
    using pt_okD(2) [OF ok o px_paths(3) that(2,1)] .
  show "pt_ok 3 ?m pt" using ok unfolding pt_ok_def by (auto simp: n split: if_splits)
  show "owned 3 ?m pt = owned 3 m pt - {x}"
  proof (intro equalityI subsetI)
    fix y assume "y \<in> owned 3 ?m pt"
    then show "y \<in> owned 3 m pt - {x}" using u by (auto simp: owned_def n split: if_splits)
  next
    fix y assume "y \<in> owned 3 m pt - {x}"
    then obtain js where "js \<in> paths 3" "node m pt js = Some y" "y \<noteq> x" by (auto simp: owned_def)
    then show "y \<in> owned 3 ?m pt" using n o by (intro ownedI [of _ _ js]) auto
  qed
qed

lemma kmem_inv_mem_cong:
  assumes "kmem_inv s ps" and "\<And>q. q \<in> set ps \<Longrightarrow> load64 m q = load64 (mem s) q"
  shows "kmem_inv (s\<lparr>mem := m\<rparr>) ps"
  using assms flist_cong [of ps m "mem s"] by (simp add: kmem_inv_def)

lemma kmem_inv_store:
  assumes "kmem_inv s ps" and "aligned q" and "q \<notin> set ps" and "i < 512"
  shows "kmem_inv (s\<lparr>mem := store64 (mem s) (q + 8 * of_nat i) v\<rparr>) ps"
proof (rule kmem_inv_mem_cong [OF assms(1)])
  fix r assume r: "r \<in> set ps"
  then have "aligned r" "q \<noteq> r" using assms by (auto simp: kmem_inv_def page_ok_def)
  then show "load64 (store64 (mem s) (q + 8 * of_nat i) v) r = load64 (mem s) r"
    using entry_store_other [of q r i 0 "mem s" v] assms by (simp add: entry_def)
qed

lemma kmem_inv_put:
  assumes "kmem_inv s ps" and "aligned q" and "q \<notin> set ps" and "length bs \<le> 4096"
  shows "kmem_inv (s\<lparr>mem := put (mem s) q bs\<rparr>) ps"
proof (rule kmem_inv_mem_cong [OF assms(1)])
  fix r assume r: "r \<in> set ps"
  then have "aligned r" "q \<noteq> r" using assms by (auto simp: kmem_inv_def page_ok_def)
  then show "load64 (put (mem s) q bs) r = load64 (mem s) r"
    using entry_put_page [of q r bs 0 "mem s"] assms by (simp add: entry_def)
qed

lemma kready_mem [simp]: "kready (s\<lparr>mem := m\<rparr>) = kready s"
  by (simp add: kready_def)

section \<open>Mapping pages\<close>

definition leaf :: "uint64 \<Rightarrow> uint64 \<Rightarrow> uint64" where
  "leaf pa perm = PA2PTE pa OR perm OR PTE_V"

lemma leaf_simps:
  assumes "take_bit 10 perm = perm"
  shows "aligned pa \<Longrightarrow> PTE2PA (leaf pa perm) = pa" and "leaf pa perm AND PTE_V \<noteq> 0"
    and "PTE_FLAGS (leaf pa perm) = perm OR PTE_V"
    and "take_bit 10 g = g \<Longrightarrow> leaf pa perm AND g = (perm OR PTE_V) AND g"
proof -
  have f: "take_bit 10 (perm OR PTE_V) = perm OR PTE_V" using assms by (simp add: take_bit_or)
  have l: "leaf pa perm = PA2PTE pa OR (perm OR PTE_V)" by (simp add: leaf_def or.assoc)
  show "aligned pa \<Longrightarrow> PTE2PA (leaf pa perm) = pa" using f by (simp add: l PTE2PA_PA2PTE)
  have "bit (leaf pa perm AND PTE_V) 0" by (simp add: leaf_def PTE_V_def bit_simps)
  then show "leaf pa perm AND PTE_V \<noteq> 0" by auto
  show "PTE_FLAGS (leaf pa perm) = perm OR PTE_V" using f by (simp add: l PTE_FLAGS_PA2PTE)
  show "take_bit 10 g = g \<Longrightarrow> leaf pa perm AND g = (perm OR PTE_V) AND g" by (simp add: l and_flag_pte)
qed

text \<open>One page has been mapped: the leaf entry is set, the table may have grown.\<close>

definition pt_map :: "nat \<Rightarrow> uint64 \<Rightarrow> 'a kmem_state_scheme \<Rightarrow> uint64 list \<Rightarrow> 'a kmem_state_scheme \<Rightarrow> uint64 list \<Rightarrow>
    uint64 \<Rightarrow> uint64 \<Rightarrow> uint64 \<Rightarrow> bool" where
  "pt_map n pt s ps t ps' va pa perm \<longleftrightarrow> pt_inv n t pt ps' \<and> only_kmem s t
     \<and> (\<exists>cs. ps = cs @ ps' \<and> owned 2 (mem t) pt = owned 2 (mem s) pt \<union> set cs
           \<and> owned n (mem t) pt = owned n (mem s) pt \<union> set cs \<union> (if n = 3 then {pa} else {}))
     \<and> (\<forall>w. w < MAXVA \<longrightarrow> pte (mem t) pt w = (if PGROUNDDOWN w = PGROUNDDOWN va then leaf pa perm else pte (mem s) pt w))
     \<and> (\<forall>q. aligned q \<and> q \<notin> owned 2 (mem s) pt \<and> q \<notin> set ps \<longrightarrow> get (mem t) q 4096 = get (mem s) q 4096)"

lemma slot_nonzero: "aligned q \<Longrightarrow> q \<noteq> 0 \<Longrightarrow> q + 8 * PX l va \<noteq> 0"
proof -
  assume q: "aligned q" "q \<noteq> 0"
  then have "unat (q + of_nat (8 * px l va)) = unat q + 8 * px l va" by (intro unat_slot) auto
  moreover have "q + of_nat (8 * px l va) = q + 8 * PX l va" using slot_add [of q "px l va"] by simp
  ultimately have "unat (q + 8 * PX l va) = unat q + 8 * px l va" by simp
  moreover have "0 < unat q" using q(2) by (simp add: unat_gt_0)
  ultimately show ?thesis by (metis add_is_0 less_irrefl unat_0)
qed

lemma pt_map_store:
  assumes g: "pt_grow n pt s ps t ps'" "2 \<le> n" "n \<le> 3" and q: "node (mem t) pt [px 2 va, px 1 va] = Some q"
    and va: "va < MAXVA" "pte (mem s) pt va AND PTE_V = 0"
    and pa: "aligned pa" "take_bit 10 perm = perm" "n = 3 \<Longrightarrow> pa \<noteq> 0 \<and> pa \<notin> owned 3 (mem s) pt \<and> pa \<notin> set ps"
  shows "pt_map n pt s ps (t\<lparr>mem := store64 (mem t) (q + 8 * PX 0 va) (leaf pa perm)\<rparr>) ps' va pa perm"
proof -
  let ?u = "t\<lparr>mem := store64 (mem t) (q + 8 * PX 0 va) (leaf pa perm)\<rparr>"
  have inv: "pt_inv n t pt ps'" and only: "only_kmem s t" and same: "\<And>w. pte (mem t) pt w = pte (mem s) pt w"
    and frame: "\<And>r. aligned r \<Longrightarrow> r \<notin> owned 2 (mem s) pt \<Longrightarrow> r \<notin> set ps \<Longrightarrow> get (mem t) r 4096 = get (mem s) r 4096"
    using g(1) by (auto simp: pt_grow_def)
  obtain cs where cs: "ps = cs @ ps'" "\<And>k. 2 \<le> k \<Longrightarrow> k \<le> n \<Longrightarrow> owned k (mem t) pt = owned k (mem s) pt \<union> set cs"
    using g(1) unfolding pt_grow_def by blast
  have ok: "pt_ok n (mem t) pt" and ok2: "pt_ok 2 (mem t) pt"
    using inv g(2) pt_ok_mono by (auto simp: pt_inv_def)
  have q2: "q \<in> owned 2 (mem t) pt" "aligned q" by (rule ownedI [OF q px_paths(1)], rule pt_okD(3) [OF ok2 q px_paths(1)])
  then have qn: "q \<notin> set ps'" using inv owned_mono [OF g(2)] by (auto simp: pt_inv_def)
  have k: "kmem_inv ?u ps'" using kmem_inv_store [OF _ q2(2) qn px_less, of t 0 va] inv by (simp add: pt_inv_def)
  note T = tables_store_leaf [OF ok2 q, of "leaf pa perm"]
  have n3: "n = 3 \<or> n = 2" using g by auto
  have L: "pt_ok n (mem ?u) pt \<and> owned n (mem ?u) pt = owned n (mem t) pt \<union> (if n = 3 then {pa} else {})"
  proof (cases "n = 3")
    case True
    then have "pa \<notin> owned 3 (mem t) pt" using pa(3) cs by auto
    then show ?thesis
      using leaf_map_ok [OF _ q, of "leaf pa perm" pa] ok va(2) same pa leaf_simps(1,2) [OF pa(2)] True by simp
  qed (use T n3 in simp)
  have "owned n (mem ?u) pt \<inter> set ps' = {}"
    using L inv pa(3) cs by (auto simp: pt_inv_def)
  then have "pt_inv n ?u pt ps'" using L k inv by (simp add: pt_inv_def)
  moreover have "pte (mem ?u) pt w = (if PGROUNDDOWN w = PGROUNDDOWN va then leaf pa perm else pte (mem s) pt w)"
    if "w < MAXVA" for w
    using pte_store_leaf [OF ok2 q va(1) that, of "leaf pa perm"] same by simp
  moreover have "get (mem ?u) r 4096 = get (mem s) r 4096"
    if r: "aligned r" "r \<notin> owned 2 (mem s) pt" "r \<notin> set ps" for r
  proof -
    have "r \<noteq> q" using q2(1) r cs g(2) by auto
    then show ?thesis using get_store_page [OF q2(2) r(1) _ px_less] frame [OF r] by (simp flip: of_nat_px)
  qed
  moreover have "owned 2 (mem ?u) pt = owned 2 (mem s) pt \<union> set cs" using T(2) cs(2) [of 2] g(2) by simp
  moreover have "owned n (mem ?u) pt = owned n (mem s) pt \<union> set cs \<union> (if n = 3 then {pa} else {})"
    using L cs(2) [of n] g(2) by auto
  ultimately show ?thesis using only cs(1) unfolding pt_map_def by auto
qed

lemma mappages_step:
  assumes inv: "pt_inv n s pt ps" "2 \<le> n" "n \<le> 3" and va: "va < MAXVA" "pte (mem s) pt va AND PTE_V = 0"
    and pa: "aligned pa" "take_bit 10 perm = perm" "n = 3 \<Longrightarrow> pa \<noteq> 0 \<and> pa \<notin> owned 3 (mem s) pt \<and> pa \<notin> set ps"
  shows "(\<exists>t. mappages_loop pt va last_va pa perm s = Ret (-1) t \<and> pt_grow n pt s ps t [])
    \<or> (\<exists>t ps'. mappages_loop pt va last_va pa perm s =
          (if va = last_va then Ret 0 t else mappages_loop pt (va + PGSIZE) last_va (pa + PGSIZE) perm t)
        \<and> pt_map n pt s ps t ps' va pa perm)"
proof -
  obtain r t ps' where w: "walk pt va True s = Ret r t" and g: "pt_grow n pt s ps t ps'"
    and r: "r = 0 \<and> ps' = [] \<or> (\<exists>q. node (mem t) pt [px 2 va, px 1 va] = Some q \<and> r = q + 8 * PX 0 va)"
    using walk_alloc [OF inv va(1)] by blast
  show ?thesis
  proof (cases "r = 0 \<and> ps' = []")
    case True
    then show ?thesis using w g by (subst (1) mappages_loop.simps) auto
  next
    case False
    then obtain q where q: "node (mem t) pt [px 2 va, px 1 va] = Some q" and rq: "r = q + 8 * PX 0 va" using r by blast
    have ok2: "pt_ok 2 (mem t) pt" using g inv(2) pt_ok_mono by (auto simp: pt_grow_def pt_inv_def)
    have "r \<noteq> 0" unfolding rq using pt_okD(1,3) [OF ok2 q px_paths(1)] by (rule slot_nonzero [rotated])
    moreover have "load64 (mem t) r = pte (mem s) pt va"
    proof -
      have "load64 (mem t) r = pte (mem t) pt va" unfolding pte_def q by (simp add: entry_def rq)
      then show ?thesis using g by (simp add: pt_grow_def)
    qed
    ultimately have "mappages_loop pt va last_va pa perm s =
        (let t = t\<lparr>mem := store64 (mem t) (q + 8 * PX 0 va) (leaf pa perm)\<rparr>
         in if va = last_va then Ret 0 t else mappages_loop pt (va + PGSIZE) last_va (pa + PGSIZE) perm t)"
      using w va(2) by (subst mappages_loop.simps) (simp add: leaf_def rq Let_def)
    then show ?thesis using pt_map_store [OF g inv(2,3) q va pa] unfolding Let_def by blast
  qed
qed

end
