(* ===== verification/Uvm.thy ===== *)
theory Uvm
  imports Pagetable
begin

text \<open>
  What \<open>kernel/vm.c\<close> guarantees to its callers: the effect of mapping, unmapping, growing
  and shrinking on the address space, and of copying between kernel and user memory.
\<close>

section \<open>Mapping a range\<close>

lemma last_page:
  assumes "aligned va" and "va < MAXVA" and "va \<noteq> last_va" and "aligned last_va" and "va \<le> last_va" and "last_va < MAXVA"
  shows "unat (va + PGSIZE) = unat va + 4096" "va + PGSIZE \<le> last_va" "va + PGSIZE < MAXVA" "aligned (va + PGSIZE)"
proof -
  obtain a where a: "unat va = 4096 * a" using assms(1) by (rule aligned_obtain)
  obtain b where b: "unat last_va = 4096 * b" using assms(4) by (rule aligned_obtain)
  have "a < b" using a b assms(3,5) by (auto simp: word_le_nat_alt word_unat_eq_iff)
  moreover have u: "unat (va + of_nat 4096) = unat va + 4096"
    using assms(2) by (intro unat_add_64) (simp add: word_less_nat_alt MAXVA_eq)
  ultimately show "va + PGSIZE \<le> last_va" "unat (va + PGSIZE) = unat va + 4096" "va + PGSIZE < MAXVA"
    using a b assms(6) by (auto simp: PGSIZE_def word_le_nat_alt word_less_nat_alt)
  show "aligned (va + PGSIZE)" using assms(1) by simp
qed

text \<open>
  The result of \<open>mappages\<close> on the range from \<open>va\<close> to \<open>last_va\<close> of a table whose
  pages there are unmapped.
\<close>

definition mapped_range :: "uint64 \<Rightarrow> uint64 \<Rightarrow> uint64 \<Rightarrow> uint64 \<Rightarrow> mem \<Rightarrow> mem \<Rightarrow> uint64 \<Rightarrow> bool" where
  "mapped_range va last_va pa perm m m' pt \<longleftrightarrow> (\<forall>w. w < MAXVA \<longrightarrow> pte m' pt w =
     (if va \<le> PGROUNDDOWN w \<and> PGROUNDDOWN w \<le> last_va then leaf (pa + (PGROUNDDOWN w - va)) perm
      else pte m pt w))"

lemma mappages_loop_range:
  assumes "pt_inv 2 s pt ps" and "aligned va" and "aligned last_va" and "va \<le> last_va" and "last_va < MAXVA"
    and "\<forall>w. va \<le> w \<and> w \<le> last_va \<and> aligned w \<longrightarrow> pte (mem s) pt w AND PTE_V = 0"
    and "aligned pa" and "take_bit 10 perm = perm"
  shows "\<exists>r t ps'. mappages_loop pt va last_va pa perm s = Ret r t \<and> pt_inv 2 t pt ps' \<and> only_kmem s t
    \<and> (\<exists>cs. ps = cs @ ps' \<and> owned 2 (mem t) pt = owned 2 (mem s) pt \<union> set cs)
    \<and> (r = 0 \<and> mapped_range va last_va pa perm (mem s) (mem t) pt \<or> r = -1 \<and> ps' = [])
    \<and> (\<forall>q. aligned q \<and> q \<notin> owned 2 (mem s) pt \<and> q \<notin> set ps \<longrightarrow> get (mem t) q 4096 = get (mem s) q 4096)"
  using assms
proof (induction "unat last_va - unat va" arbitrary: va pa s ps rule: less_induct)
  case less
  have va: "va < MAXVA" using less.prems(4,5) by (rule order.strict_trans1)
  have un: "pte (mem s) pt va AND PTE_V = 0" using less.prems(2,4,6) by auto
  consider (fail) t where "mappages_loop pt va last_va pa perm s = Ret (-1) t" "pt_grow 2 pt s ps t []"
    | (ok) t qs where "mappages_loop pt va last_va pa perm s =
          (if va = last_va then Ret 0 t else mappages_loop pt (va + PGSIZE) last_va (pa + PGSIZE) perm t)"
        "pt_map 2 pt s ps t qs va pa perm"
    using mappages_step [OF less.prems(1) _ _ va un less.prems(7,8), of last_va] by auto
  then show ?case
  proof cases
    case fail
    then show ?thesis by (auto simp: pt_grow_def)
  next
    case ok
    have w: "pte (mem t) pt w = (if PGROUNDDOWN w = va then leaf pa perm else pte (mem s) pt w)" if "w < MAXVA" for w
      using ok(2) that less.prems(2) by (simp add: pt_map_def)
    show ?thesis
    proof (cases "va = last_va")
      case True
      then have "mapped_range va last_va pa perm (mem s) (mem t) pt"
        using w by (auto simp: mapped_range_def)
      then show ?thesis using ok True by (auto simp: pt_map_def)
    next
      case False
      note n = last_page [OF less.prems(2) va False less.prems(3,4,5)]
      have un': "pte (mem t) pt w AND PTE_V = 0" if "va + PGSIZE \<le> w \<and> w \<le> last_va \<and> aligned w" for w
      proof -
        have "w \<noteq> va" "va \<le> w" "w < MAXVA" using that n(1) less.prems(5) by (auto simp: word_le_nat_alt word_less_nat_alt)
        then show ?thesis using that w less.prems(6) by auto
      qed
      obtain cs where cs: "ps = cs @ qs" "owned 2 (mem t) pt = owned 2 (mem s) pt \<union> set cs"
        using ok(2) unfolding pt_map_def by blast
      have "\<exists>r u ps'. mappages_loop pt (va + PGSIZE) last_va (pa + PGSIZE) perm t = Ret r u \<and> pt_inv 2 u pt ps' \<and> only_kmem t u
        \<and> (\<exists>cs. qs = cs @ ps' \<and> owned 2 (mem u) pt = owned 2 (mem t) pt \<union> set cs)
        \<and> (r = 0 \<and> mapped_range (va + PGSIZE) last_va (pa + PGSIZE) perm (mem t) (mem u) pt \<or> r = -1 \<and> ps' = [])
        \<and> (\<forall>q. aligned q \<and> q \<notin> owned 2 (mem t) pt \<and> q \<notin> set qs \<longrightarrow> get (mem u) q 4096 = get (mem t) q 4096)"
        using ok(2) un' n less.prems(3,5,7,8)
        by (intro less.hyps) (auto simp: pt_map_def word_le_nat_alt)
      then obtain r u ps' where u: "mappages_loop pt (va + PGSIZE) last_va (pa + PGSIZE) perm t = Ret r u"
          "pt_inv 2 u pt ps'" "only_kmem t u" "\<exists>cs. qs = cs @ ps' \<and> owned 2 (mem u) pt = owned 2 (mem t) pt \<union> set cs"
          "r = 0 \<and> mapped_range (va + PGSIZE) last_va (pa + PGSIZE) perm (mem t) (mem u) pt \<or> r = -1 \<and> ps' = []"
          "\<And>q. aligned q \<Longrightarrow> q \<notin> owned 2 (mem t) pt \<Longrightarrow> q \<notin> set qs \<Longrightarrow> get (mem u) q 4096 = get (mem t) q 4096"
        by blast
      have "mapped_range va last_va pa perm (mem s) (mem u) pt"
        if "mapped_range (va + PGSIZE) last_va (pa + PGSIZE) perm (mem t) (mem u) pt"
        unfolding mapped_range_def
      proof (intro allI impI)
        fix x assume x: "x < MAXVA"
        have "va + PGSIZE \<le> PGROUNDDOWN x \<longleftrightarrow> va \<le> PGROUNDDOWN x \<and> PGROUNDDOWN x \<noteq> va"
        proof -
          have "va < va + PGSIZE" using n(1) by (simp add: word_less_nat_alt)
          then show ?thesis using next_page [OF less.prems(2) aligned_PGROUNDDOWN, of x] by auto
        qed
        then show "pte (mem u) pt x = (if va \<le> PGROUNDDOWN x \<and> PGROUNDDOWN x \<le> last_va
            then leaf (pa + (PGROUNDDOWN x - va)) perm else pte (mem s) pt x)"
          using that x w [OF x] less.prems(4) by (auto simp: mapped_range_def)
      qed
      moreover have "get (mem u) q 4096 = get (mem s) q 4096"
        if "aligned q" "q \<notin> owned 2 (mem s) pt" "q \<notin> set ps" for q
        using that cs u(6) [of q] ok(2) by (auto simp: pt_map_def)
      moreover have "\<exists>cs. ps = cs @ ps' \<and> owned 2 (mem u) pt = owned 2 (mem s) pt \<union> set cs"
        using u(4) cs by (metis (no_types, lifting) append_assoc set_append sup_assoc)
      moreover have "only_kmem s u" using ok(2) u(3) only_kmem_trans by (auto simp: pt_map_def)
      ultimately show ?thesis using ok(1) False u(1,2,5) by auto
    qed
  qed
qed

text \<open>
  C17. \<open>mappages\<close> on an unmapped range below \<open>MAXVA\<close> of a well-formed table never
  panics. It returns 0 with every page of the range mapped to the corresponding physical page
  with the given permissions and every other entry as before, or -1 with the free list
  exhausted. The table stays well-formed, the pages it gained come from the free list, and
  pages outside the table and the free list keep their contents.
\<close>

theorem mappages_maps_range:
  assumes "pt_inv 2 s pt ps" and "0 < sz" and "unat va + unat sz \<le> unat MAXVA"
    and "\<forall>w. PGROUNDDOWN va \<le> w \<and> w < va + sz \<and> aligned w \<longrightarrow> pte (mem s) pt w AND PTE_V = 0"
    and "aligned pa" and "take_bit 10 perm = perm"
  shows "\<exists>r t ps'. mappages pt va sz pa perm s = Ret r t \<and> pt_inv 2 t pt ps'
    \<and> (\<exists>cs. ps = cs @ ps' \<and> owned 2 (mem t) pt = owned 2 (mem s) pt \<union> set cs)
    \<and> (r = 0 \<and> (\<forall>w. w < MAXVA \<longrightarrow> pte (mem t) pt w =
            (if PGROUNDDOWN va \<le> PGROUNDDOWN w \<and> PGROUNDDOWN w < va + sz
             then leaf (pa + (PGROUNDDOWN w - PGROUNDDOWN va)) perm else pte (mem s) pt w))
       \<or> r = -1 \<and> ps' = [])
    \<and> (\<forall>q. aligned q \<and> q \<notin> owned 2 (mem s) pt \<and> q \<notin> set ps \<longrightarrow> get (mem t) q 4096 = get (mem s) q 4096)"
proof -
  let ?a = "PGROUNDDOWN va" and ?l = "PGROUNDDOWN (va + sz - 1)"
  have M: "unat MAXVA = 2 ^ 38" by (simp add: MAXVA_eq)
  have sz: "0 < unat sz" using assms(2) by (simp add: unat_gt_0)
  have u: "unat (va + sz) = unat va + unat sz" using assms(3) M by (simp add: unat_word_ariths)
  then have u1: "unat (va + sz - 1) = unat va + unat sz - 1"
    using sz by (subst unat_sub) (simp_all add: word_le_nat_alt)
  have le: "?a \<le> ?l" using u1 sz by (simp add: word_le_nat_alt unat_PGROUNDDOWN div_le_mono)
  have lt: "?l < MAXVA"
  proof -
    have "unat ?l \<le> unat (va + sz - 1)" by (simp add: unat_PGROUNDDOWN)
    then show ?thesis using u1 sz assms(3) by (simp add: word_less_nat_alt)
  qed
  have iff: "w \<le> ?l \<longleftrightarrow> w < va + sz" if "aligned w" for w
  proof -
    obtain b where "unat w = 4096 * b" using \<open>aligned w\<close> by (rule aligned_obtain)
    then have "unat w \<le> unat ?l \<longleftrightarrow> unat w \<le> unat (va + sz - 1)"
      by (simp add: unat_PGROUNDDOWN less_eq_div_iff_mult_less_eq mult.commute)
    then show ?thesis using u u1 sz by (auto simp: word_le_nat_alt word_less_nat_alt)
  qed
  have "\<forall>w. ?a \<le> w \<and> w \<le> ?l \<and> aligned w \<longrightarrow> pte (mem s) pt w AND PTE_V = 0"
    using assms(4) iff by auto
  note R = mappages_loop_range [OF assms(1) aligned_PGROUNDDOWN aligned_PGROUNDDOWN le lt this assms(5,6)]
  have "mapped_range ?a ?l pa perm (mem s) m pt \<longleftrightarrow> (\<forall>w. w < MAXVA \<longrightarrow> pte m pt w =
      (if ?a \<le> PGROUNDDOWN w \<and> PGROUNDDOWN w < va + sz then leaf (pa + (PGROUNDDOWN w - ?a)) perm else pte (mem s) pt w))" for m
    by (simp add: mapped_range_def iff)
  then show ?thesis using R unfolding mappages_def by blast
qed

section \<open>The address space as the user sees it\<close>

definition uaddr :: "mem \<Rightarrow> uint64 \<Rightarrow> uint64 \<Rightarrow> uint64" where
  "uaddr m pt va = (if va < MAXVA \<and> pte m pt va AND PTE_V \<noteq> 0 \<and> pte m pt va AND PTE_U \<noteq> 0
     then PTE2PA (pte m pt va) else 0)"

text \<open>The byte a user program finds at an address, if it may access it.\<close>

definition ubyte :: "mem \<Rightarrow> uint64 \<Rightarrow> uint64 \<Rightarrow> byte option" where
  "ubyte m pt va = (if uaddr m pt va = 0 then None else Some (m (uaddr m pt va + of_nat (unat va mod 4096))))"

lemma walkaddr_eq:
  assumes "pt_ok 2 (mem s) pt"
  shows "walkaddr pt va s = Ret (uaddr (mem s) pt va) s"
proof (cases "va < MAXVA")
  case True
  show ?thesis
  proof (cases "node (mem s) pt [px 2 va, px 1 va]")
    case None
    then have "pte (mem s) pt va = 0" by (simp add: pte_def)
    then show ?thesis using True None by (simp add: walkaddr_def walk_lookup uaddr_def)
  next
    case (Some q)
    have "q + 8 * PX 0 va \<noteq> 0" by (rule slot_nonzero [OF pt_okD(3,1) [OF assms Some px_paths(1)]])
    moreover have "load64 (mem s) (q + 8 * PX 0 va) = pte (mem s) pt va"
      unfolding pte_def Some by (simp add: entry_def)
    ultimately show ?thesis using True Some by (auto simp: walkaddr_def walk_lookup uaddr_def)
  qed
qed (auto simp: walkaddr_def uaddr_def)

lemma uaddr_same_page:
  assumes "PGROUNDDOWN va = PGROUNDDOWN w"
  shows "uaddr m pt va = uaddr m pt w"
proof -
  have "x < MAXVA \<longleftrightarrow> PGROUNDDOWN x < MAXVA" for x
    using PGROUNDDOWN_less_MAXVA [of x] by (auto simp: word_less_nat_alt unat_PGROUNDDOWN intro: le_less_trans)
  then have "va < MAXVA \<longleftrightarrow> w < MAXVA" using assms by metis
  then show ?thesis using pte_same_page [OF assms] by (simp add: uaddr_def)
qed

lemma page_offset: "va - PGROUNDDOWN va = of_nat (unat va mod 4096)"
proof -
  have "unat (va - PGROUNDDOWN va) = unat va mod 4096"
    by (simp add: unat_sub_if' word_le_nat_alt unat_PGROUNDDOWN modulo_nat_def mult.commute)
  then show ?thesis by (simp flip: \<open>_ = unat va mod 4096\<close>)
qed

lemma uaddr_leaf:
  assumes "uaddr m pt va = c" and "c \<noteq> 0"
  shows "node m pt [px 2 va, px 1 va, px 0 va] = Some c" "va < MAXVA"
  using assms pte_node [of m pt va] by (auto simp: uaddr_def split: if_splits)

lemma uaddr_unowned:
  assumes "pt_ok 3 m pt" and "uaddr m pt va = c" and "c \<noteq> 0"
  shows "c \<notin> owned 2 m pt" "aligned c"
proof -
  note n = uaddr_leaf(1) [OF assms(2,3)]
  show "aligned c" by (rule pt_okD(3) [OF assms(1) n px_paths(3)])
  show "c \<notin> owned 2 m pt"
  proof
    assume "c \<in> owned 2 m pt"
    then obtain js where "js \<in> paths 2" "node m pt js = Some c" by (auto simp: owned_def)
    then have "js = [px 2 va, px 1 va, px 0 va]"
      using pt_okD(2) [OF assms(1) n px_paths(3)] paths_mono [of js 2 3] by simp
    then show False using \<open>js \<in> paths 2\<close> by (simp add: paths_def)
  qed
qed

lemma uaddr_inj:
  assumes "pt_ok 3 m pt" and "uaddr m pt va = c" and "c \<noteq> 0" and "uaddr m pt w = c"
  shows "PGROUNDDOWN w = PGROUNDDOWN va"
proof -
  note n = uaddr_leaf [OF assms(2,3)] and n' = uaddr_leaf [OF assms(4,3)]
  have "[px 2 w, px 1 w, px 0 w] = [px 2 va, px 1 va, px 0 va]"
    by (rule pt_okD(2) [OF assms(1) n(1) px_paths(3) n'(1) px_paths(3)])
  then show ?thesis by (rule px_inj [OF n'(2) n(2)])
qed

lemma put_offset:
  assumes "off + length bs \<le> 4096"
  shows "put m (c + of_nat off) bs = put m c (take off (get m c 4096) @ bs @ drop (off + length bs) (get m c 4096))"
    (is "_ = put m c ?cs")
proof
  fix x
  have len: "length ?cs = 4096" using assms by simp
  have off: "unat (of_nat off :: uint64) = off" using assms by (intro unat_of_nat_64) simp
  have d: "x - (c + of_nat off) = (x - c) - of_nat off" by simp
  show "put m (c + of_nat off) bs x = put m c ?cs x"
  proof (cases "off \<le> unat (x - c)")
    case True
    then have u: "unat (x - (c + of_nat off)) = unat (x - c) - off"
      unfolding d by (subst unat_sub) (simp_all add: word_le_nat_alt off)
    have m: "m (c + of_nat (unat (x - c))) = m x" by simp
    show ?thesis using True assms unfolding put_def len u by (auto simp: nth_append m)
  next
    case False
    then have "unat (x - (c + of_nat off)) = unat (x - c) + 2 ^ 64 - off"
      unfolding d by (simp add: unat_sub_if' word_le_nat_alt off)
    then have "\<not> unat (x - (c + of_nat off)) < length bs" using assms False by simp
    then show ?thesis using False assms unfolding put_def len by (simp add: nth_append)
  qed
qed

lemma unat_offset_in_page: "unat (w - c) < 4096 \<Longrightarrow> \<exists>i<4096. w = c + of_nat i"
  by (intro exI [of _ "unat (w - c)"]) simp

lemma uaddr_put_page:
  assumes "pt_ok 3 m pt" and "uaddr m pt va = c" and "c \<noteq> 0" and "length bs \<le> 4096"
  shows "uaddr (put m c bs) pt w = uaddr m pt w" "pt_ok 3 (put m c bs) pt" "pte (put m c bs) pt w = pte m pt w"
proof -
  note c = uaddr_unowned [OF assms(1-3)]
  have ok2: "pt_ok 2 m pt" using pt_ok_mono [OF assms(1)] by simp
  show p: "pte (put m c bs) pt w = pte m pt w" for w by (rule pte_put_unowned [OF ok2 c(2,1) assms(4)])
  show "uaddr (put m c bs) pt w = uaddr m pt w" by (simp add: uaddr_def p)
  show "pt_ok 3 (put m c bs) pt" using owned_put_unowned(2) [OF ok2 c(2,1) assms(4), of 3] assms(1) by simp
qed

lemma ubyte_put_page:
  assumes "pt_ok 3 m pt" and "uaddr m pt va = c" and "c \<noteq> 0" and "length bs = 4096"
  shows "ubyte (put m c bs) pt w = (if PGROUNDDOWN w = PGROUNDDOWN va then Some (bs ! (unat w mod 4096)) else ubyte m pt w)"
proof (cases "PGROUNDDOWN w = PGROUNDDOWN va")
  case True
  then have "uaddr m pt w = c" using uaddr_same_page [OF True] assms(2) by simp
  then show ?thesis using True assms uaddr_put_page(1) [OF assms(1-3), of bs w] by (simp add: ubyte_def put_def)
next
  case False
  let ?d = "uaddr m pt w"
  show ?thesis
  proof (cases "?d = 0")
    case True
    then show ?thesis using False assms uaddr_put_page(1) [OF assms(1-3), of bs w] by (simp add: ubyte_def)
  next
    case d: False
    then have "?d \<noteq> c" using False uaddr_inj [OF assms(1-3)] by auto
    moreover have "aligned ?d" "aligned c" using uaddr_unowned(2) assms(1-3) d by blast+
    ultimately have g: "get (put m c bs) ?d 4096 = get m ?d 4096" using assms(4) by (intro get_put_page) auto
    have "put m c bs (?d + of_nat i) = m (?d + of_nat i)" if "i < 4096" for i
      using arg_cong [OF g, of "\<lambda>xs. xs ! i"] that by simp
    then show ?thesis using False d assms uaddr_put_page(1) [OF assms(1-3), of bs w] by (simp add: ubyte_def)
  qed
qed

section \<open>Copying to and from user memory\<close>

lemma PGROUNDDOWN_eq_iff: "PGROUNDDOWN w = PGROUNDDOWN va \<longleftrightarrow> unat w div 4096 = unat va div 4096"
  by (simp add: word_unat_eq_iff unat_PGROUNDDOWN)

lemma divmod_4096: "r < 4096 \<Longrightarrow> x = 4096 * a + r \<Longrightarrow> x div 4096 = a \<and> x mod 4096 = (r :: nat)"
  by simp

lemma in_chunk:
  assumes "n \<le> 4096 - unat va mod 4096"
  shows "unat (w - va) < n \<longleftrightarrow> PGROUNDDOWN w = PGROUNDDOWN va
      \<and> unat va mod 4096 \<le> unat w mod 4096 \<and> unat w mod 4096 < unat va mod 4096 + n"
    and "unat (w - va) < n \<Longrightarrow> unat (w - va) = unat w mod 4096 - unat va mod 4096"
proof -
  let ?a = "unat va div 4096" and ?o = "unat va mod 4096"
  have a: "unat va = 4096 * ?a + ?o" by simp
  have b: "?a < 4503599627370496" using unat_lt_2_64 [of va] by (simp add: div_less_iff_less_mult)
  have fw: "unat w = 4096 * ?a + (?o + unat (w - va))" "?o + unat (w - va) < 4096" if "unat (w - va) < n"
  proof -
    show o: "?o + unat (w - va) < 4096" using that assms by simp
    have "unat va + unat (w - va) < 18446744073709551616" using o a b by linarith
    then have "unat (va + of_nat (unat (w - va))) = unat va + unat (w - va)" by (intro unat_add_64) simp
    moreover have "w = va + of_nat (unat (w - va))" by simp
    ultimately have "unat w = unat va + unat (w - va)" by simp
    then show "unat w = 4096 * ?a + (?o + unat (w - va))" using a by simp
  qed
  have bw: "unat (w - va) = unat w mod 4096 - ?o"
    if "unat w div 4096 = ?a" "?o \<le> unat w mod 4096"
  proof -
    have w: "unat w = 4096 * ?a + unat w mod 4096" using that(1) mult_div_mod_eq [of 4096 "unat w"] by simp
    then have "unat va \<le> unat w" using a that(2) by linarith
    then have "va \<le> w" by (simp add: word_le_nat_alt)
    then have "unat (w - va) = unat w - unat va" by (simp add: unat_sub)
    then show ?thesis using a w by linarith
  qed
  have m: "unat w div 4096 = ?a \<and> unat w mod 4096 = ?o + unat (w - va)" if "unat (w - va) < n"
    by (rule divmod_4096 [OF fw(2) [OF that] fw(1) [OF that]])
  show "unat (w - va) < n \<longleftrightarrow> PGROUNDDOWN w = PGROUNDDOWN va \<and> ?o \<le> unat w mod 4096 \<and> unat w mod 4096 < ?o + n"
    using m bw by (auto simp: PGROUNDDOWN_eq_iff less_diff_conv2 add.commute)
  show "unat (w - va) < n \<Longrightarrow> unat (w - va) = unat w mod 4096 - ?o" using m by simp
qed

lemma ubyte_put_chunk:
  assumes ok: "pt_ok 3 m pt" and c: "uaddr m pt va = c" "c \<noteq> 0" and n: "length bs \<le> 4096 - unat va mod 4096"
  shows "ubyte (put m (c + (va - PGROUNDDOWN va)) bs) pt w =
    (if unat (w - va) < length bs then Some (bs ! unat (w - va)) else ubyte m pt w)"
    and "pt_ok 3 (put m (c + (va - PGROUNDDOWN va)) bs) pt"
    and "pte (put m (c + (va - PGROUNDDOWN va)) bs) pt w = pte m pt w"
    and "uaddr (put m (c + (va - PGROUNDDOWN va)) bs) pt w = uaddr m pt w"
proof -
  let ?o = "unat va mod 4096" and ?g = "get m c 4096"
  let ?cs = "take ?o ?g @ bs @ drop (?o + length bs) ?g"
  have n': "?o + length bs \<le> 4096" using n by simp
  have p: "put m (c + (va - PGROUNDDOWN va)) bs = put m c ?cs"
    unfolding page_offset by (rule put_offset [OF n'])
  have len: "length ?cs = 4096" using n' by simp
  show "pt_ok 3 (put m (c + (va - PGROUNDDOWN va)) bs) pt" "pte (put m (c + (va - PGROUNDDOWN va)) bs) pt w = pte m pt w"
    "uaddr (put m (c + (va - PGROUNDDOWN va)) bs) pt w = uaddr m pt w"
    unfolding p using uaddr_put_page [OF ok c, of ?cs] len by simp_all
  have "?cs ! k = (if ?o \<le> k \<and> k < ?o + length bs then bs ! (k - ?o) else ?g ! k)" if "k < 4096" for k
    using that n' by (auto simp: nth_append min_def)
  then have u: "ubyte (put m c ?cs) pt w = (if PGROUNDDOWN w = PGROUNDDOWN va then
      Some (if ?o \<le> unat w mod 4096 \<and> unat w mod 4096 < ?o + length bs then bs ! (unat w mod 4096 - ?o)
            else m (c + of_nat (unat w mod 4096))) else ubyte m pt w)"
    using ubyte_put_page [OF ok c len, of w] by simp
  have "uaddr m pt w = c" if "PGROUNDDOWN w = PGROUNDDOWN va" using uaddr_same_page [OF that] c by simp
  then show "ubyte (put m (c + (va - PGROUNDDOWN va)) bs) pt w =
      (if unat (w - va) < length bs then Some (bs ! unat (w - va)) else ubyte m pt w)"
    unfolding p u using in_chunk [OF n, of w] c(2) by (auto simp: ubyte_def)
qed

lemma chunk_size:
  assumes "n = (if len < PGSIZE - (va - PGROUNDDOWN va) then len else PGSIZE - (va - PGROUNDDOWN va))"
  shows "unat n \<le> 4096 - unat va mod 4096" "n \<le> len" "0 < len \<Longrightarrow> 0 < n"
    "n \<noteq> len \<Longrightarrow> PGROUNDDOWN va + PGSIZE = va + n"
    "unat n = min (unat len) (4096 - unat va mod 4096)"
proof -
  have u: "unat (PGSIZE - (va - PGROUNDDOWN va)) = 4096 - unat va mod 4096"
    unfolding page_offset by (subst unat_sub) (simp_all add: PGSIZE_def word_le_nat_alt)
  then show "unat n \<le> 4096 - unat va mod 4096" "n \<le> len" "0 < len \<Longrightarrow> 0 < n"
    using page_rest_pos [of va] unfolding assms by (auto simp: word_less_nat_alt word_le_nat_alt)
  show "n \<noteq> len \<Longrightarrow> PGROUNDDOWN va + PGSIZE = va + n" unfolding assms by (auto split: if_splits)
  show "unat n = min (unat len) (4096 - unat va mod 4096)" unfolding assms using u by (auto simp: word_less_nat_alt)
qed

text \<open>Stepping over the first \<open>n\<close> of \<open>len\<close> bytes.\<close>

lemma range_split:
  assumes "n \<le> (len :: uint64)"
  shows "unat (w - (va + n)) < unat (len - n) \<longleftrightarrow> unat n \<le> unat (w - va) \<and> unat (w - va) < unat len"
    and "unat n \<le> unat (w - va) \<Longrightarrow> unat (w - (va + n)) = unat (w - va) - unat n"
proof -
  have l: "unat (len - n) = unat len - unat n" using assms by (simp add: unat_sub)
  have d: "w - (va + n) = (w - va) - n" by simp
  show s: "unat n \<le> unat (w - va) \<Longrightarrow> unat (w - (va + n)) = unat (w - va) - unat n"
    unfolding d by (simp add: unat_sub word_le_nat_alt)
  show "unat (w - (va + n)) < unat (len - n) \<longleftrightarrow> unat n \<le> unat (w - va) \<and> unat (w - va) < unat len"
  proof (cases "unat n \<le> unat (w - va)")
    case True
    then show ?thesis using s l by auto
  next
    case False
    then have "unat (w - (va + n)) = unat (w - va) + 2 ^ 64 - unat n"
      unfolding d by (simp add: unat_sub_if' word_le_nat_alt)
    then show ?thesis using False l unat_lt_2_64 [of len] by simp
  qed
qed

lemma copyout_spec:
  assumes "pt_ok 3 (mem s) pt"
  shows "\<exists>r m. copyout pt dstva src len s = Ret r (s\<lparr>mem := m\<rparr>) \<and> pt_ok 3 m pt
    \<and> (\<forall>w. pte m pt w = pte (mem s) pt w)
    \<and> (r = 0 \<longleftrightarrow> (\<forall>w. unat (w - dstva) < unat len \<longrightarrow> ubyte (mem s) pt w \<noteq> None))
    \<and> (r = 0 \<longrightarrow> (\<forall>w. unat (w - dstva) < unat len \<longrightarrow> ubyte m pt w = Some (src (unat (w - dstva)))))
    \<and> (\<forall>w. \<not> unat (w - dstva) < unat len \<longrightarrow> ubyte m pt w = ubyte (mem s) pt w)"
  using assms
proof (induction pt dstva src len s rule: copyout.induct)
  case (1 pt va src len s)
  show ?case
  proof (cases "0 < len")
    case False
    then have "copyout pt va src len s = Ret 0 (s\<lparr>mem := mem s\<rparr>)" "unat len = 0"
      by (simp_all add: copyout.simps not_less)
    then show ?thesis using 1(2) by (intro exI [of _ 0] exI [of _ "mem s"]) auto
  next
    case len: True
    let ?c = "uaddr (mem s) pt va"
    have wa: "walkaddr pt (PGROUNDDOWN va) s = Ret ?c s"
      using walkaddr_eq [OF pt_ok_mono [OF 1(2)], of "PGROUNDDOWN va"] uaddr_same_page [of "PGROUNDDOWN va" va] by simp
    have c: "uaddr (mem s) pt (PGROUNDDOWN va) = ?c" using uaddr_same_page [of "PGROUNDDOWN va" va] by simp
    show ?thesis
    proof (cases "?c = 0")
      case True
      then have "copyout pt va src len s = Ret (-1) (s\<lparr>mem := mem s\<rparr>)" using len wa by (subst copyout.simps) simp
      moreover have "\<exists>w. unat (w - va) < unat len \<and> ubyte (mem s) pt w = None"
        using True len by (intro exI [of _ va]) (simp add: ubyte_def unat_gt_0)
      ultimately show ?thesis using 1(2) by (intro exI [of _ "-1"] exI [of _ "mem s"]) auto
    next
      case mapped: False
      define n where "n = (if len < PGSIZE - (va - PGROUNDDOWN va) then len else PGSIZE - (va - PGROUNDDOWN va))"
      note N = chunk_size [OF n_def]
      define m where "m = put (mem s) (?c + (va - PGROUNDDOWN va)) (map src [0..<unat n])"
      have ch: "length (map src [0..<unat n]) \<le> 4096 - unat va mod 4096" using N(1) by simp
      note M = ubyte_put_chunk [OF 1(2) refl mapped ch, folded m_def]
      let ?s = "s\<lparr>mem := m\<rparr>"
      have step: "copyout pt va src len s = copyout pt (PGROUNDDOWN va + PGSIZE) (\<lambda>i. src (unat n + i)) (len - n) ?s"
        using len wa mapped by (subst copyout.simps) (simp add: Let_def n_def m_def)
      have ub: "ubyte m pt w = (if unat (w - va) < unat n then Some (src (unat (w - va))) else ubyte (mem s) pt w)" for w
        using M(1) by simp
      have none: "ubyte m pt w = None \<longleftrightarrow> ubyte (mem s) pt w = None" for w using M(4) [of w] by (simp add: ubyte_def)
      have first: "ubyte (mem s) pt w \<noteq> None" if "unat (w - va) < unat n" for w
        using ub [of w] none [of w] that by auto
      let ?va = "PGROUNDDOWN va + PGSIZE"
      have rest: "unat (w - ?va) < unat (len - n) \<longleftrightarrow> unat n \<le> unat (w - va) \<and> unat (w - va) < unat len"
        and idx: "unat (w - ?va) < unat (len - n) \<Longrightarrow> unat n + unat (w - ?va) = unat (w - va)" for w
        using range_split [OF N(2), of w va] N(4) by (cases "n = len"; auto)+
      obtain r m' where ih: "copyout pt ?va (\<lambda>i. src (unat n + i)) (len - n) ?s = Ret r (?s\<lparr>mem := m'\<rparr>)" "pt_ok 3 m' pt"
          "\<And>w. pte m' pt w = pte m pt w"
          "r = 0 \<longleftrightarrow> (\<forall>w. unat (w - ?va) < unat (len - n) \<longrightarrow> ubyte m pt w \<noteq> None)"
          "r = 0 \<Longrightarrow> \<forall>w. unat (w - ?va) < unat (len - n) \<longrightarrow> ubyte m' pt w = Some (src (unat n + unat (w - ?va)))"
          "\<And>w. \<not> unat (w - ?va) < unat (len - n) \<Longrightarrow> ubyte m' pt w = ubyte m pt w"
        using 1(1) [OF len refl wa mapped refl n_def refl] M(2) unfolding m_def [symmetric] by auto
      have "r = 0 \<longleftrightarrow> (\<forall>w. unat (w - va) < unat len \<longrightarrow> ubyte (mem s) pt w \<noteq> None)"
        unfolding ih(4) none rest using first by (metis not_less)
      moreover have "ubyte m' pt w = Some (src (unat (w - va)))" if "r = 0" "unat (w - va) < unat len" for w
        using that ih(5,6) rest [of w] idx [of w] ub [of w] by (cases "unat n \<le> unat (w - va)") auto
      moreover have "ubyte m' pt w = ubyte (mem s) pt w" if "\<not> unat (w - va) < unat len" for w
        using that ih(6) [of w] rest [of w] ub [of w] N(2) by (auto simp: word_le_nat_alt)
      moreover have "pte m' pt w = pte (mem s) pt w" for w using ih(3) M(3) by simp
      ultimately show ?thesis using step ih(1,2) by auto
    qed
  qed
qed

lemma copyin_spec:
  assumes "pt_ok 2 (mem s) pt"
  shows "\<exists>r d. copyin pt dst k srcva len s = Ret (r, d) s
    \<and> (r = 0 \<longleftrightarrow> (\<forall>i<unat len. ubyte (mem s) pt (srcva + of_nat i) \<noteq> None))
    \<and> (r = 0 \<longrightarrow> (\<forall>i<unat len. ubyte (mem s) pt (srcva + of_nat i) = Some (d (k + i))))
    \<and> (\<forall>j. j < k \<or> k + unat len \<le> j \<longrightarrow> d j = dst j)"
  using assms
proof (induction pt dst k srcva len s rule: copyin.induct)
  case (1 pt dst k va len s)
  show ?case
  proof (cases "0 < len")
    case False
    then show ?thesis by (simp add: copyin.simps not_less)
  next
    case len: True
    let ?c = "uaddr (mem s) pt va"
    have wa: "walkaddr pt (PGROUNDDOWN va) s = Ret ?c s"
      using walkaddr_eq [OF 1(2), of "PGROUNDDOWN va"] uaddr_same_page [of "PGROUNDDOWN va" va] by simp
    show ?thesis
    proof (cases "?c = 0")
      case True
      then have "copyin pt dst k va len s = Ret (-1, dst) s" using len wa by (subst copyin.simps) simp
      moreover have "\<exists>i<unat len. ubyte (mem s) pt (va + of_nat i) = None"
        using True len by (intro exI [of _ 0]) (simp add: ubyte_def unat_gt_0)
      ultimately show ?thesis by auto
    next
      case mapped: False
      define n where "n = (if len < PGSIZE - (va - PGROUNDDOWN va) then len else PGSIZE - (va - PGROUNDDOWN va))"
      note N = chunk_size [OF n_def]
      define d where "d = write_at dst k (get (mem s) (?c + (va - PGROUNDDOWN va)) (unat n))"
      let ?va = "PGROUNDDOWN va + PGSIZE"
      have step: "copyin pt dst k va len s = copyin pt d (k + unat n) ?va (len - n) s"
        using len wa mapped by (subst copyin.simps) (simp add: Let_def n_def d_def)
      obtain r d' where ih: "copyin pt d (k + unat n) ?va (len - n) s = Ret (r, d') s"
          "r = 0 \<longleftrightarrow> (\<forall>i<unat (len - n). ubyte (mem s) pt (?va + of_nat i) \<noteq> None)"
          "r = 0 \<Longrightarrow> \<forall>i<unat (len - n). ubyte (mem s) pt (?va + of_nat i) = Some (d' (k + unat n + i))"
          "\<And>j. j < k + unat n \<or> k + unat n + unat (len - n) \<le> j \<Longrightarrow> d' j = d j"
        using 1(1) [OF len refl wa mapped refl n_def d_def 1(2)] by auto
      have l: "unat (len - n) = unat len - unat n" "unat n \<le> unat len"
        using N(2) by (simp_all add: unat_sub word_le_nat_alt)
      have first: "ubyte (mem s) pt (va + of_nat i) = Some (d (k + i))" if i: "i < unat n" for i
      proof -
        have "unat (va + of_nat i - va) = i" using i N(1) by simp
        then have "PGROUNDDOWN (va + of_nat i) = PGROUNDDOWN va" "unat (va + of_nat i) mod 4096 = unat va mod 4096 + i"
          using in_chunk [OF N(1), of "va + of_nat i"] i by auto
        then have "ubyte (mem s) pt (va + of_nat i) = Some (mem s (?c + of_nat (unat va mod 4096 + i)))"
          using uaddr_same_page [of "va + of_nat i" va "mem s" pt] mapped by (simp add: ubyte_def)
        then show ?thesis using i by (simp add: d_def write_at_def page_offset add.assoc)
      qed
      have rest: "va + of_nat i = ?va + of_nat (i - unat n)" if "unat n \<le> i" "i < unat len" for i
      proof -
        have "n \<noteq> len" using that by auto
        then have "?va = va + of_nat (unat n)" using N(4) by simp
        then show ?thesis using that by (simp add: of_nat_diff)
      qed
      have "r = 0 \<longleftrightarrow> (\<forall>i<unat len. ubyte (mem s) pt (va + of_nat i) \<noteq> None)"
      proof
        assume "r = 0"
        have "ubyte (mem s) pt (va + of_nat i) \<noteq> None" if "unat n \<le> i" "i < unat len" for i
        proof -
          have "i - unat n < unat (len - n)" using that l by simp
          then show ?thesis using ih(2) \<open>r = 0\<close> by (subst rest [OF that]) blast
        qed
        then show "\<forall>i<unat len. ubyte (mem s) pt (va + of_nat i) \<noteq> None" using first by (metis not_less option.distinct(1))
      next
        assume a: "\<forall>i<unat len. ubyte (mem s) pt (va + of_nat i) \<noteq> None"
        have "ubyte (mem s) pt (?va + of_nat i) \<noteq> None" if "i < unat (len - n)" for i
        proof -
          have i: "unat n + i < unat len" using that l by simp
          have "va + of_nat (unat n + i) = ?va + of_nat i" using rest [OF _ i] by (simp only: le_add1 add_diff_cancel_left')
          then show ?thesis using a i by metis
        qed
        then show "r = 0" using ih(2) by blast
      qed
      moreover have "ubyte (mem s) pt (va + of_nat i) = Some (d' (k + i))" if "r = 0" "i < unat len" for i
      proof (cases "unat n \<le> i")
        case True
        have "i - unat n < unat (len - n)" "k + unat n + (i - unat n) = k + i" using that True l by auto
        then show ?thesis using ih(3) [OF that(1)] by (subst rest [OF True that(2)]) metis
      next
        case False
        then show ?thesis using ih(4) [of "k + i"] first [of i] by simp
      qed
      moreover have "d' j = dst j" if "j < k \<or> k + unat len \<le> j" for j
        using that ih(4) [of j] l by (auto simp: d_def write_at_def)
      ultimately show ?thesis using step ih(1) by auto
    qed
  qed
qed

text \<open>
  C16. \<open>copyout\<close> is exact: on a well-formed user table it returns 0 if and only if every
  destination byte is mapped for the user; then the user reads the source bytes in the
  destination range. Every other user byte and the page table itself are unchanged in all cases.
\<close>

theorem copyout_correct:
  assumes "pt_ok 3 (mem s) pt"
  shows "\<exists>r m. copyout pt dstva src len s = Ret r (s\<lparr>mem := m\<rparr>) \<and> pt_ok 3 m pt
    \<and> (\<forall>w. pte m pt w = pte (mem s) pt w)
    \<and> (r = 0 \<longleftrightarrow> (\<forall>w. unat (w - dstva) < unat len \<longrightarrow> ubyte (mem s) pt w \<noteq> None))
    \<and> (r = 0 \<longrightarrow> (\<forall>w. unat (w - dstva) < unat len \<longrightarrow> ubyte m pt w = Some (src (unat (w - dstva)))))
    \<and> (\<forall>w. \<not> unat (w - dstva) < unat len \<longrightarrow> ubyte m pt w = ubyte (mem s) pt w)"
  using copyout_spec [OF assms] .

text \<open>
  C9. Copying out and back in is the identity: after a successful \<open>copyout\<close> of \<open>len\<close>
  bytes, \<open>copyin\<close> from the same address succeeds and delivers those bytes, and writes
  nothing outside its destination.
\<close>

theorem copyin_copyout:
  assumes "pt_ok 3 (mem s) pt" and "copyout pt va src len s = Ret 0 t"
  shows "\<exists>d. copyin pt dst 0 va len t = Ret (0, d) t \<and> (\<forall>i<unat len. d i = src i)
    \<and> (\<forall>i. unat len \<le> i \<longrightarrow> d i = dst i)"
proof -
  obtain m where t: "t = s\<lparr>mem := m\<rparr>" and ok: "pt_ok 3 m pt"
      and b: "\<And>w. unat (w - va) < unat len \<Longrightarrow> ubyte m pt w = Some (src (unat (w - va)))"
    using copyout_spec [OF assms(1), of va src len] assms(2) by auto
  have o: "unat (va + of_nat i - va) = i" if "i < unat len" for i
    using that unat_lt_2_64 [of len] by simp
  have ok2: "pt_ok 2 (mem t) pt" using pt_ok_mono [OF ok] t by simp
  have "ubyte (mem t) pt (va + of_nat i) = Some (src i)" if "i < unat len" for i
    using b [of "va + of_nat i"] o [OF that] that t by simp
  then show ?thesis using copyin_spec [OF ok2, of dst 0 va len] by auto
qed

end
