(* ===== verification/Address_Space.thy ===== *)
theory Address_Space
  imports Uvm
begin

text \<open>
  Growing and shrinking a process image: \<open>uvmunmap\<close>, \<open>uvmdealloc\<close> and
  \<open>uvmalloc\<close> of \<open>kernel/vm.c\<close> keep the page table well-formed, conserve the pages
  (every page is in the table or on the free list, as before), and leave the rest of the
  address space alone; a failed growth is undone.
\<close>

section \<open>Steps on an address space\<close>

text \<open>The addresses whose page starts in the interval.\<close>

definition page_range :: "uint64 \<Rightarrow> uint64 \<Rightarrow> uint64 set" where
  "page_range a b = {w. a \<le> PGROUNDDOWN w \<and> PGROUNDDOWN w < b}"

definition same_on :: "uint64 set \<Rightarrow> uint64 \<Rightarrow> mem \<Rightarrow> mem \<Rightarrow> bool" where
  "same_on W pt m m' \<longleftrightarrow> (\<forall>w\<in>W. w < MAXVA \<longrightarrow> pte m' pt w = pte m pt w
     \<and> (pte m pt w AND PTE_V \<noteq> 0 \<longrightarrow> get m' (PTE2PA (pte m pt w)) 4096 = get m (PTE2PA (pte m pt w)) 4096))"

definition as_step :: "uint64 set \<Rightarrow> uint64 \<Rightarrow> 'a kmem_state_scheme \<Rightarrow> uint64 list \<Rightarrow> 'a kmem_state_scheme \<Rightarrow> uint64 list \<Rightarrow> bool" where
  "as_step W pt s ps t ps' \<longleftrightarrow> pt_inv 3 t pt ps' \<and> only_kmem s t \<and> same_on W pt (mem s) (mem t)
     \<and> owned 3 (mem t) pt \<union> set ps' = owned 3 (mem s) pt \<union> set ps"

lemma same_on_refl: "same_on W pt m m"
  by (simp add: same_on_def)

lemma same_on_trans: "same_on W pt m m' \<Longrightarrow> same_on W pt m' m'' \<Longrightarrow> same_on W pt m m''"
  by (simp add: same_on_def)

lemma same_on_mono: "same_on W pt m m' \<Longrightarrow> V \<subseteq> W \<Longrightarrow> same_on V pt m m'"
  by (auto simp: same_on_def)

lemma as_step_refl: "pt_inv 3 s pt ps \<Longrightarrow> as_step W pt s ps s ps"
  by (simp add: as_step_def same_on_refl only_kmem_refl)

lemma as_step_trans: "as_step W pt s ps t qs \<Longrightarrow> as_step W pt t qs u rs \<Longrightarrow> as_step W pt s ps u rs"
  by (auto simp: as_step_def intro: same_on_trans only_kmem_trans)

lemma as_step_mono: "as_step W pt s ps t qs \<Longrightarrow> V \<subseteq> W \<Longrightarrow> as_step V pt s ps t qs"
  by (auto simp: as_step_def intro: same_on_mono)

lemma same_on_ubyte:
  assumes "same_on W pt m m'" and "w \<in> W"
  shows "ubyte m' pt w = ubyte m pt w"
proof (cases "w < MAXVA")
  case True
  then have p: "pte m' pt w = pte m pt w"
    and g: "pte m pt w AND PTE_V \<noteq> 0 \<Longrightarrow> get m' (PTE2PA (pte m pt w)) 4096 = get m (PTE2PA (pte m pt w)) 4096"
    using assms by (auto simp: same_on_def)
  have "m' (PTE2PA (pte m pt w) + of_nat i) = m (PTE2PA (pte m pt w) + of_nat i)"
    if "pte m pt w AND PTE_V \<noteq> 0" "i < 4096" for i
    using arg_cong [OF g [OF that(1)], of "\<lambda>xs. xs ! i"] that(2) by simp
  then show ?thesis using p by (simp add: ubyte_def uaddr_def)
qed (simp add: ubyte_def uaddr_def)

text \<open>A mapped page is not a table page, and belongs to one address only.\<close>

lemma pte_page:
  assumes "pt_ok 3 m pt" and "pte m pt va AND PTE_V \<noteq> 0"
  shows "PTE2PA (pte m pt va) \<notin> owned 2 m pt" "PTE2PA (pte m pt va) \<noteq> 0" "PTE2PA (pte m pt va) \<in> owned 3 m pt"
    and "va < MAXVA \<Longrightarrow> w < MAXVA \<Longrightarrow> pte m pt w AND PTE_V \<noteq> 0 \<Longrightarrow> PTE2PA (pte m pt w) = PTE2PA (pte m pt va) \<Longrightarrow>
      PGROUNDDOWN w = PGROUNDDOWN va"
proof -
  have n: "node m pt [px 2 va, px 1 va, px 0 va] = Some (PTE2PA (pte m pt va))" using assms(2) by (subst pte_node) simp
  show "PTE2PA (pte m pt va) \<noteq> 0" by (rule pt_okD(1) [OF assms(1) n px_paths(3)])
  show "PTE2PA (pte m pt va) \<in> owned 3 m pt" by (rule ownedI [OF n px_paths(3)])
  have "js = [px 2 va, px 1 va, px 0 va]" if "js \<in> paths 3" "node m pt js = Some (PTE2PA (pte m pt va))" for js
    using pt_okD(2) [OF assms(1) n px_paths(3) that(2,1)] .
  note u = this
  show "PTE2PA (pte m pt va) \<notin> owned 2 m pt"
  proof
    assume "PTE2PA (pte m pt va) \<in> owned 2 m pt"
    then obtain js where js: "js \<in> paths 2" "node m pt js = Some (PTE2PA (pte m pt va))" by (auto simp: owned_def)
    then have "js = [px 2 va, px 1 va, px 0 va]" using u paths_mono [of js 2 3] by simp
    then show False using js(1) by (simp add: paths_def)
  qed
  show "PGROUNDDOWN w = PGROUNDDOWN va"
    if "va < MAXVA" "w < MAXVA" "pte m pt w AND PTE_V \<noteq> 0" "PTE2PA (pte m pt w) = PTE2PA (pte m pt va)"
  proof -
    have "node m pt [px 2 w, px 1 w, px 0 w] = Some (PTE2PA (pte m pt va))" using that by (subst pte_node) simp
    then show ?thesis using u px_paths(3) px_inj [OF that(2,1)] by blast
  qed
qed

lemma store64_page: "store64 (put m x (replicate 4096 b)) x v = put m x (le_bytes 8 v @ replicate 4088 b)"
proof -
  have "store64 (put m x (replicate 4096 b)) x v =
      put (put m x (replicate 4096 b)) (x + of_nat 0) (le_bytes 8 v)" by (simp add: store64_def)
  also have "\<dots> = put (put m x (replicate 4096 b)) x (le_bytes 8 v @ replicate 4088 b)"
    by (subst put_offset) (simp_all add: mem_simps)
  also have "\<dots> = put m x (le_bytes 8 v @ replicate 4088 b)" by (rule put_put_same) simp
  finally show ?thesis .
qed

lemma pte_lookup:
  assumes "pt_ok 2 (mem s) pt" and "va < MAXVA" and "pte (mem s) pt va AND PTE_V \<noteq> 0"
  obtains q where "node (mem s) pt [px 2 va, px 1 va] = Some q" "walk pt va False s = Ret (q + 8 * PX 0 va) s"
    "q + 8 * PX 0 va \<noteq> 0" "load64 (mem s) (q + 8 * PX 0 va) = pte (mem s) pt va" "aligned q" "q \<in> owned 2 (mem s) pt"
proof -
  obtain q where q: "node (mem s) pt [px 2 va, px 1 va] = Some q"
    using assms(3) by (auto simp: pte_def split: option.splits)
  show thesis
  proof (rule that [OF q])
    show "walk pt va False s = Ret (q + 8 * PX 0 va) s" by (subst walk_lookup [OF assms(2)]) (simp only: q option.case)
    show "q + 8 * PX 0 va \<noteq> 0" by (rule slot_nonzero [OF pt_okD(3,1) [OF assms(1) q px_paths(1)]])
    show "load64 (mem s) (q + 8 * PX 0 va) = pte (mem s) pt va" unfolding pte_def q by (simp add: entry_def)
    show "aligned q" by (rule pt_okD(3) [OF assms(1) q px_paths(1)])
    show "q \<in> owned 2 (mem s) pt" by (rule ownedI [OF q px_paths(1)])
  qed
qed

section \<open>Unmapping\<close>

text \<open>A page that \<open>uvmunmap\<close> accepts: mapped by a leaf to a page that can be freed.\<close>

definition removable :: "uint64 \<Rightarrow> mem \<Rightarrow> uint64 \<Rightarrow> uint64 \<Rightarrow> bool" where
  "removable e m pt va \<longleftrightarrow> pte m pt va AND PTE_V \<noteq> 0 \<and> PTE_FLAGS (pte m pt va) \<noteq> PTE_V
     \<and> page_ok e (PTE2PA (pte m pt va))"

lemma unmap_page:
  assumes inv: "pt_inv 3 s pt ps" and va: "va < MAXVA" "aligned va" "removable (kernel_end s) (mem s) pt va" and b: "va < last_va"
  shows "\<exists>t x. uvmunmap_loop pt va last_va True s = uvmunmap_loop pt (va + PGSIZE) last_va True t
    \<and> as_step {w. PGROUNDDOWN w \<noteq> va} pt s ps t (x # ps) \<and> (\<forall>w. w < MAXVA \<and> PGROUNDDOWN w = va \<longrightarrow> pte (mem t) pt w = 0)"
proof -
  let ?m = "mem s" and ?x = "PTE2PA (pte (mem s) pt va)"
  have ok: "pt_ok 3 ?m pt" "pt_ok 2 ?m pt" and k: "kready s" "kmem_inv s ps" and d: "owned 3 ?m pt \<inter> set ps = {}"
    using inv pt_ok_mono [of 3 ?m pt 2] by (simp_all add: pt_inv_def)
  have v: "pte ?m pt va AND PTE_V \<noteq> 0" and fl: "PTE_FLAGS (pte ?m pt va) \<noteq> PTE_V" and px: "page_ok (kernel_end s) ?x"
    using va(3) by (auto simp: removable_def)
  note P = pte_page [OF ok(1) v]
  obtain q where q: "node ?m pt [px 2 va, px 1 va] = Some q" "walk pt va False s = Ret (q + 8 * PX 0 va) s"
    "q + 8 * PX 0 va \<noteq> 0" "load64 ?m (q + 8 * PX 0 va) = pte ?m pt va" "aligned q" "q \<in> owned 2 ?m pt"
    by (rule pte_lookup [OF ok(2) va(1) v])
  define cs where "cs = le_bytes 8 (freelist s) @ replicate 4088 (1 :: byte)"
  have cs: "length cs \<le> 4096" by (simp add: cs_def)
  let ?s1 = "settle s\<lparr>mem := put ?m ?x cs, freelist := ?x\<rparr>"
  have kf: "kfree ?x s = Ret () ?s1" using kfree_ok [OF k(1) px] by (simp add: cs_def store64_page)
  have xps: "?x \<notin> set ps" using P(3) d by blast
  have k1: "kmem_inv ?s1 (?x # ps)" using kmem_inv_free [OF k(2) px xps] by (simp add: cs_def store64_page)
  have ax: "aligned ?x" by simp
  have n1: "node (put ?m ?x cs) pt [px 2 va, px 1 va] = Some q"
    using node_put_unowned [OF ok(2) ax P(1) px_paths(2) cs] q(1) by simp
  have ok1: "pt_ok 3 (put ?m ?x cs) pt" "pt_ok 2 (put ?m ?x cs) pt" "owned 3 (put ?m ?x cs) pt = owned 3 ?m pt"
    using owned_put_unowned [OF ok(2) ax P(1) cs, of 3] owned_put_unowned [OF ok(2) ax P(1) cs, of 2] ok by simp_all
  have p1: "pte (put ?m ?x cs) pt w = pte ?m pt w" for w by (rule pte_put_unowned [OF ok(2) ax P(1) cs])
  let ?t = "?s1\<lparr>mem := store64 (put ?m ?x cs) (q + 8 * PX 0 va) 0\<rparr>"
  have step: "uvmunmap_loop pt va last_va True s = uvmunmap_loop pt (va + PGSIZE) last_va True ?t"
    using b q v fl kf by (subst uvmunmap_loop.simps) (simp add: Let_def)
  have qx: "q \<noteq> ?x" using q(6) P(1) by auto
  have qps: "q \<notin> set ps" using q(6) owned_mono [of 2 3 ?m pt] d by auto
  note L = leaf_unmap_ok [OF ok1(1) n1 _ _ refl, of 0, simplified p1]
  have "kmem_inv ?t (?x # ps)" using kmem_inv_store [OF k1 q(5), of "px 0 va" 0] qx qps by simp
  moreover have "kready ?t" using k(1) by (simp add: kready_def lock_simps)
  moreover have o: "owned 3 (mem ?t) pt = owned 3 ?m pt - {?x}" using L(2) v ok1(3) by simp
  ultimately have inv': "pt_inv 3 ?t pt (?x # ps)" using L(1) v d by (auto simp: pt_inv_def)
  have pt: "pte (mem ?t) pt w = (if PGROUNDDOWN w = va then 0 else pte ?m pt w)" if "w < MAXVA" for w
    using pte_store_leaf [OF ok1(2) n1 va(1) that, of 0] va(2) p1 by simp
  have "get (mem ?t) (PTE2PA (pte ?m pt w)) 4096 = get ?m (PTE2PA (pte ?m pt w)) 4096"
    if w: "w < MAXVA" "PGROUNDDOWN w \<noteq> va" "pte ?m pt w AND PTE_V \<noteq> 0" for w
  proof -
    have "PTE2PA (pte ?m pt w) \<noteq> ?x" using P(4) [OF va(1) w(1,3)] w(2) va(2) by auto
    moreover have "PTE2PA (pte ?m pt w) \<noteq> q" using pte_page(1) [OF ok(1) w(3)] q(6) by auto
    ultimately show ?thesis
      using get_store_page [OF q(5), of "PTE2PA (pte ?m pt w)" "px 0 va"] cs by (simp add: get_put_page)
  qed
  then have "same_on {w. PGROUNDDOWN w \<noteq> va} pt ?m (mem ?t)" using pt by (simp add: same_on_def)
  moreover have "only_kmem s ?t" by simp
  moreover have "owned 3 (mem ?t) pt \<union> set (?x # ps) = owned 3 ?m pt \<union> set ps" using o P(3) by auto
  ultimately have "as_step {w. PGROUNDDOWN w \<noteq> va} pt s ps ?t (?x # ps)" using inv' by (simp add: as_step_def)
  then show ?thesis using step pt by (intro exI [of _ ?t] exI [of _ ?x]) auto
qed

lemma page_rangeI: "aligned w \<Longrightarrow> a \<le> w \<Longrightarrow> w < b \<Longrightarrow> w \<in> page_range a b"
  by (simp add: page_range_def)

lemma next_page_below:
  assumes "aligned va" and "aligned e" and "va < e"
  shows "unat (va + PGSIZE) = unat va + 4096" "va + PGSIZE \<le> e" "va < va + PGSIZE" "aligned (va + PGSIZE)"
    and "aligned w \<Longrightarrow> va + PGSIZE \<le> w \<longleftrightarrow> va \<le> w \<and> w \<noteq> va"
proof -
  obtain a where a: "unat va = 4096 * a" using assms(1) by (rule aligned_obtain)
  obtain b where b: "unat e = 4096 * b" "b < 2 ^ 52" using assms(2) by (rule aligned_obtain)
  have "a < b" using a b assms(3) by (simp add: word_less_nat_alt)
  then have u: "unat (va + of_nat 4096) = unat va + 4096" using a b by (intro unat_add_64) auto
  then show u': "unat (va + PGSIZE) = unat va + 4096" by (simp add: PGSIZE_def)
  then show "va + PGSIZE \<le> e" and lt: "va < va + PGSIZE"
    using a b \<open>a < b\<close> by (simp_all add: word_le_nat_alt word_less_nat_alt)
  show "aligned (va + PGSIZE)" using assms(1) by simp
  show "aligned w \<Longrightarrow> va + PGSIZE \<le> w \<longleftrightarrow> va \<le> w \<and> w \<noteq> va"
    using next_page [OF assms(1) _ lt, of w] by auto
qed

lemma page_range_Suc:
  assumes "aligned va" and "aligned e" and "va < e"
  shows "page_range va e = {w. PGROUNDDOWN w = va} \<union> page_range (va + PGSIZE) e"
  using next_page_below(5) [OF assms aligned_PGROUNDDOWN] assms(3) by (auto simp: page_range_def)

lemma unmap_range:
  assumes "pt_inv 3 s pt ps" and "aligned va" and "aligned e" and "va \<le> e" and "e \<le> MAXVA"
    and "\<forall>w. aligned w \<and> va \<le> w \<and> w < e \<longrightarrow> removable (kernel_end s) (mem s) pt w"
  shows "\<exists>t xs. uvmunmap_loop pt va e True s = Ret () t \<and> as_step (- page_range va e) pt s ps t (xs @ ps)
    \<and> (\<forall>w\<in>page_range va e. w < MAXVA \<longrightarrow> pte (mem t) pt w = 0) \<and> 4096 * length xs = unat e - unat va"
  using assms
proof (induction "unat e - unat va" arbitrary: va s ps rule: less_induct)
  case less
  show ?case
  proof (cases "va < e")
    case False
    then have "uvmunmap_loop pt va e True s = Ret () s" "page_range va e = {}" "unat e - unat va = 0"
      using less.prems(4)
      by (auto simp: uvmunmap_loop.simps page_range_def word_less_nat_alt word_le_nat_alt)
    then show ?thesis using as_step_refl [OF less.prems(1)] by (intro exI [of _ s] exI [of _ "[]"]) simp
  next
    case True
    note n = next_page_below [OF less.prems(2,3) True]
    have va: "va < MAXVA" using True less.prems(5) by simp
    obtain t x where t: "uvmunmap_loop pt va e True s = uvmunmap_loop pt (va + PGSIZE) e True t"
        "as_step {w. PGROUNDDOWN w \<noteq> va} pt s ps t (x # ps)"
        "\<And>w. w < MAXVA \<Longrightarrow> PGROUNDDOWN w = va \<Longrightarrow> pte (mem t) pt w = 0"
      using unmap_page [OF less.prems(1) va less.prems(2) _ True] less.prems(2,6) True by fastforce
    have ke: "kernel_end t = kernel_end s" using t(2) only_kmem_fields(4) by (auto simp: as_step_def)
    have "removable (kernel_end t) (mem t) pt w" if "aligned w" "va + PGSIZE \<le> w" "w < e" for w
    proof -
      have w: "va \<le> w" "w \<noteq> va" using n(5) [OF that(1)] that(2) by auto
      then have "pte (mem t) pt w = pte (mem s) pt w"
        using t(2) that less.prems(5) by (simp add: as_step_def same_on_def)
      then show ?thesis using less.prems(6) that w ke by (simp add: removable_def)
    qed
    then have "\<exists>u xs. uvmunmap_loop pt (va + PGSIZE) e True t = Ret () u
        \<and> as_step (- page_range (va + PGSIZE) e) pt t (x # ps) u (xs @ x # ps)
        \<and> (\<forall>w\<in>page_range (va + PGSIZE) e. w < MAXVA \<longrightarrow> pte (mem u) pt w = 0)
        \<and> 4096 * length xs = unat e - unat (va + PGSIZE)"
      using t(2) less.prems(2-5) n True
      by (intro less.hyps) (auto simp: as_step_def word_less_nat_alt)
    then obtain u xs where u: "uvmunmap_loop pt (va + PGSIZE) e True t = Ret () u"
        "as_step (- page_range (va + PGSIZE) e) pt t (x # ps) u (xs @ x # ps)"
        "\<And>w. w \<in> page_range (va + PGSIZE) e \<Longrightarrow> w < MAXVA \<Longrightarrow> pte (mem u) pt w = 0"
        "4096 * length xs = unat e - unat (va + PGSIZE)"
      by blast
    note R = page_range_Suc [OF less.prems(2,3) True]
    have "as_step (- page_range va e) pt s ps t (x # ps)" by (rule as_step_mono [OF t(2)]) (auto simp: R)
    moreover have "as_step (- page_range va e) pt t (x # ps) u (xs @ x # ps)" by (rule as_step_mono [OF u(2)]) (auto simp: R)
    ultimately have st: "as_step (- page_range va e) pt s ps u ((xs @ [x]) @ ps)" by (auto dest: as_step_trans)
    have "pte (mem u) pt w = 0" if "w \<in> page_range va e" "w < MAXVA" for w
    proof (cases "w \<in> page_range (va + PGSIZE) e")
      case False
      then have "pte (mem t) pt w = 0" using that R t(3) by auto
      then show ?thesis using False u(2) that(2) by (simp add: as_step_def same_on_def)
    qed (use u(3) that(2) in blast)
    moreover have "4096 * length (xs @ [x]) = unat e - unat va"
      using u(4) n(1,2) by (simp add: word_le_nat_alt)
    ultimately show ?thesis using t(1) u(1) st by metis
  qed
qed

section \<open>Adding a page\<close>

text \<open>The state after \<open>kalloc\<close> returned \<open>p\<close> and the page was filled with \<open>bs\<close>.\<close>

abbreviation filled :: "'a kmem_state_scheme \<Rightarrow> uint64 \<Rightarrow> byte list \<Rightarrow> 'a kmem_state_scheme" where
  "filled s p bs \<equiv> settle s\<lparr>freelist := load64 (mem s) p, mem := put (mem s) p bs\<rparr>"

lemma filled_inv:
  assumes inv: "pt_inv 3 s pt (p # qs)" and bs: "length bs = 4096"
  shows "pt_inv 3 (filled s p bs) pt qs" "same_on UNIV pt (mem s) (mem (filled s p bs))"
    "\<And>k. 2 \<le> k \<Longrightarrow> k \<le> 3 \<Longrightarrow> owned k (mem (filled s p bs)) pt = owned k (mem s) pt"
proof -
  have h: "pt_ok 2 (mem s) pt" "aligned p" "p \<noteq> 0" "p \<notin> set qs" "p \<notin> owned 3 (mem s) pt" "p \<notin> owned 2 (mem s) pt"
    using pt_inv_head [OF inv] by simp_all
  note O = owned_put_unowned [OF h(1,2,6), of bs]
  have "kmem_inv (settle s\<lparr>freelist := load64 (mem s) p, mem := put (mem s) p (replicate 4096 5)\<rparr>) qs"
    using inv kmem_inv_alloc by (auto simp: pt_inv_def)
  from kmem_inv_put [OF this h(2,4), of bs] have "kmem_inv (filled s p bs) qs" using bs by (simp add: put_put_same)
  moreover have "kready (filled s p bs)" using inv by (simp add: pt_inv_def kready_def lock_simps)
  ultimately show "pt_inv 3 (filled s p bs) pt qs" using O [of 3] inv bs by (simp add: pt_inv_def)
  show "owned k (mem (filled s p bs)) pt = owned k (mem s) pt" if "2 \<le> k" "k \<le> 3" for k
    using owned_put_unowned(1) [OF h(1,2,6), of bs k] that bs by simp
  have "get (put (mem s) p bs) (PTE2PA (pte (mem s) pt w)) 4096 = get (mem s) (PTE2PA (pte (mem s) pt w)) 4096"
    if "pte (mem s) pt w AND PTE_V \<noteq> 0" for w
  proof -
    have "PTE2PA (pte (mem s) pt w) \<noteq> p" using pte_page(3) [OF _ that] inv h(5) by (auto simp: pt_inv_def)
    then show ?thesis using h(2) bs by (intro get_put_page) auto
  qed
  moreover have "pte (put (mem s) p bs) pt w = pte (mem s) pt w" for w
    by (rule pte_put_unowned [OF h(1,2,6)]) (simp add: bs)
  ultimately show "same_on UNIV pt (mem s) (mem (filled s p bs))" by (simp add: same_on_def)
qed

lemma grow_same_on:
  assumes "pt_grow 3 pt s ps t ps'" and "pt_inv 3 s pt ps"
  shows "same_on UNIV pt (mem s) (mem t)"
proof -
  have "get (mem t) (PTE2PA (pte (mem s) pt w)) 4096 = get (mem s) (PTE2PA (pte (mem s) pt w)) 4096"
    if "pte (mem s) pt w AND PTE_V \<noteq> 0" for w
  proof -
    have "PTE2PA (pte (mem s) pt w) \<notin> owned 2 (mem s) pt" "PTE2PA (pte (mem s) pt w) \<notin> set ps"
      using assms(2) pte_page(1,3) [OF _ that] by (auto simp: pt_inv_def)
    then show ?thesis using assms(1) by (simp add: pt_grow_def)
  qed
  then show ?thesis using assms(1) by (simp add: same_on_def pt_grow_def)
qed

lemma mappages_one:
  assumes "aligned va"
  shows "mappages pt va PGSIZE pa perm s = mappages_loop pt va va pa perm s"
proof -
  obtain a where a: "unat va = 4096 * a" "a < 2 ^ 52" using assms by (rule aligned_obtain)
  have "va + PGSIZE - 1 = va + of_nat 4095" by (simp add: PGSIZE_def)
  moreover have "unat (va + of_nat 4095) = unat va + 4095" using a by (intro unat_add_64) simp
  ultimately have "unat (va + PGSIZE - 1) = 4096 * a + 4095" using a by (simp only:)
  then have "unat (PGROUNDDOWN (va + PGSIZE - 1)) = unat va" using a unfolding unat_PGROUNDDOWN by simp
  then have "PGROUNDDOWN (va + PGSIZE - 1) = va" by (simp only: word_unat_eq_iff)
  then show ?thesis using assms by (simp add: mappages_def)
qed

lemma free_unowned:
  assumes inv: "pt_inv 3 t pt ps" and p: "page_ok (kernel_end t) p" "p \<notin> owned 3 (mem t) pt" "p \<notin> set ps"
  shows "\<exists>u. kfree p t = Ret () u \<and> pt_inv 3 u pt (p # ps) \<and> same_on UNIV pt (mem t) (mem u) \<and> only_kmem t u
    \<and> owned 3 (mem u) pt = owned 3 (mem t) pt"
proof -
  have ok2: "pt_ok 2 (mem t) pt" using inv pt_ok_mono [of 3 _ pt 2] by (simp add: pt_inv_def)
  have p2: "p \<notin> owned 2 (mem t) pt" "aligned p" using p owned_mono [of 2 3 "mem t" pt] by (auto simp: page_ok_def)
  define cs where "cs = le_bytes 8 (freelist t) @ replicate 4088 (1 :: byte)"
  have cs: "length cs \<le> 4096" by (simp add: cs_def)
  let ?u = "settle t\<lparr>mem := put (mem t) p cs, freelist := p\<rparr>"
  have k: "kready t" "kmem_inv t ps" using inv by (simp_all add: pt_inv_def)
  have "kfree p t = Ret () ?u" using kfree_ok [OF k(1) p(1)] by (simp add: cs_def store64_page)
  moreover have "kmem_inv ?u (p # ps)" using kmem_inv_free [OF k(2) p(1,3)] by (simp add: cs_def store64_page)
  moreover have "kready ?u" using k(1) by (simp add: kready_def lock_simps)
  moreover have ou: "owned 3 (mem ?u) pt = owned 3 (mem t) pt" and "pt_ok 3 (mem ?u) pt"
    using owned_put_unowned [OF ok2 p2(2,1) cs, of 3] inv by (simp_all add: pt_inv_def)
  moreover have "get (put (mem t) p cs) (PTE2PA (pte (mem t) pt w)) 4096 = get (mem t) (PTE2PA (pte (mem t) pt w)) 4096"
    if "pte (mem t) pt w AND PTE_V \<noteq> 0" for w
    using pte_page(3) [OF _ that] inv p(2) p2 cs by (intro get_put_page) (auto simp: pt_inv_def)
  then have "same_on UNIV pt (mem t) (mem ?u)"
    using pte_put_unowned [OF ok2 p2(2,1) cs] by (simp add: same_on_def)
  ultimately show ?thesis using p(2) inv by (intro exI [of _ ?u]) (simp add: pt_inv_def)
qed

lemma add_page:
  assumes inv: "pt_inv 3 s pt (p # qs)" and bs: "length bs = 4096" and perm: "take_bit 10 perm = perm"
    and va: "va < MAXVA" "aligned va" "pte (mem s) pt va AND PTE_V = 0"
  shows "(\<exists>t u ps'. mappages pt va PGSIZE p perm (filled s p bs) = Ret (-1) t \<and> kfree p t = Ret () u
        \<and> as_step UNIV pt s (p # qs) u ps')
    \<or> (\<exists>t ps'. mappages pt va PGSIZE p perm (filled s p bs) = Ret 0 t
        \<and> as_step {w. PGROUNDDOWN w \<noteq> va} pt s (p # qs) t ps' \<and> get (mem t) p 4096 = bs
        \<and> (\<forall>w. w < MAXVA \<and> PGROUNDDOWN w = va \<longrightarrow> pte (mem t) pt w = leaf p perm))"
proof -
  let ?s = "filled s p bs"
  note F = filled_inv [OF inv bs]
  have p: "aligned p" "p \<noteq> 0" "p \<notin> set qs" "p \<notin> owned 3 (mem s) pt" "p \<notin> owned 2 (mem s) pt"
    using pt_inv_head [OF inv] by simp_all
  have pok: "page_ok (kernel_end s) p" using inv by (simp add: pt_inv_def kmem_inv_def)
  have un: "pte (mem ?s) pt va AND PTE_V = 0" using F(2) va by (simp add: same_on_def)
  have only: "only_kmem s ?s" by simp
  have pn: "3 = (3::nat) \<Longrightarrow> p \<noteq> 0 \<and> p \<notin> owned 3 (mem ?s) pt \<and> p \<notin> set qs" using p F(3) [of 3] by simp
  consider (fail) t where "mappages_loop pt va va p perm ?s = Ret (-1) t" "pt_grow 3 pt ?s qs t []"
    | (ok) t ps' where "mappages_loop pt va va p perm ?s = Ret 0 t" "pt_map 3 pt ?s qs t ps' va p perm"
    using mappages_step [OF F(1) _ _ va(1) un p(1) perm pn, of va] by auto
  then show ?thesis
  proof cases
    case fail
    have inv': "pt_inv 3 t pt []" and only': "only_kmem s t" and o: "owned 3 (mem t) pt = owned 3 (mem s) pt \<union> set qs"
      and "owned 2 (mem t) pt = owned 2 (mem s) pt \<union> set qs"
      using fail(2) only_kmem_trans [OF only] F(3) [of 3] F(3) [of 2] by (auto simp: pt_grow_def)
    have "p \<notin> owned 3 (mem t) pt" using o p by auto
    then obtain u where u: "kfree p t = Ret () u" "pt_inv 3 u pt [p]" "same_on UNIV pt (mem t) (mem u)" "only_kmem t u"
        "owned 3 (mem u) pt = owned 3 (mem t) pt"
      using free_unowned [OF inv', of p] pok only_kmem_fields(4) [OF only'] by auto
    have "same_on UNIV pt (mem s) (mem u)"
      using same_on_trans [OF same_on_trans [OF F(2) grow_same_on [OF fail(2) F(1)]] u(3)] .
    moreover have "owned 3 (mem u) pt \<union> set [p] = owned 3 (mem s) pt \<union> set (p # qs)" unfolding u(5) o by auto
    ultimately have "as_step UNIV pt s (p # qs) u [p]"
      unfolding as_step_def using u(2) only_kmem_trans [OF only' u(4)] by blast
    then show ?thesis using fail(1) u(1) unfolding mappages_one [OF va(2)] by blast
  next
    case ok
    obtain cs where cs: "qs = cs @ ps'" "owned 3 (mem t) pt = owned 3 (mem ?s) pt \<union> set cs \<union> {p}"
      using ok(2) by (auto simp: pt_map_def)
    have frame: "get (mem t) q 4096 = get (mem ?s) q 4096" if "aligned q" "q \<notin> owned 2 (mem ?s) pt" "q \<notin> set qs" for q
      using ok(2) that by (simp add: pt_map_def)
    have w: "pte (mem t) pt w = (if PGROUNDDOWN w = va then leaf p perm else pte (mem ?s) pt w)" if "w < MAXVA" for w
      using ok(2) that va(2) by (simp add: pt_map_def)
    have "get (mem t) (PTE2PA (pte (mem ?s) pt w)) 4096 = get (mem ?s) (PTE2PA (pte (mem ?s) pt w)) 4096"
      if "pte (mem ?s) pt w AND PTE_V \<noteq> 0" for w
      using pte_page(1,3) [OF _ that] F(1) by (intro frame) (auto simp: pt_inv_def)
    then have "same_on {w. PGROUNDDOWN w \<noteq> va} pt (mem ?s) (mem t)" using w by (simp add: same_on_def)
    then have "same_on {w. PGROUNDDOWN w \<noteq> va} pt (mem s) (mem t)"
      using same_on_trans same_on_mono [OF F(2)] by blast
    moreover have "get (mem t) p 4096 = bs"
      using frame [OF p(1)] p(3,5) F(3) [of 2] bs by (simp add: get_put_same)
    moreover have "owned 3 (mem t) pt \<union> set ps' = owned 3 (mem s) pt \<union> set (p # qs)" using cs F(3) [of 3] by auto
    moreover have "pt_inv 3 t pt ps'" "only_kmem s t" using ok(2) only_kmem_trans [OF only] by (simp_all add: pt_map_def)
    ultimately have "as_step {w. PGROUNDDOWN w \<noteq> va} pt s (p # qs) t ps'" "get (mem t) p 4096 = bs"
      by (simp_all add: as_step_def)
    moreover have "\<forall>w. w < MAXVA \<and> PGROUNDDOWN w = va \<longrightarrow> pte (mem t) pt w = leaf p perm" using w by simp
    ultimately show ?thesis using ok(1) unfolding mappages_one [OF va(2)] by blast
  qed
qed

section \<open>Shrinking\<close>

lemma scast_ucast_small:
  assumes "unat (x :: uint64) < 2 ^ 31"
  shows "scast (ucast x :: 32 word) = x"
proof -
  have "take_bit 31 x = x"
    using assms by (simp add: take_bit_eq_mod word_unat_eq_iff unat_mod_distrib)
  then have hi: "\<not> bit x i" if "31 \<le> i" for i using that by (metis bit_take_bit_iff not_less)
  show ?thesis
    by (rule bit_word_eqI) (use hi in \<open>auto simp: bit_simps min_def split: if_splits\<close>)
qed

lemma npages_exact:
  assumes "aligned a" and "aligned b" and "b \<le> a" and "a \<le> MAXVA"
  shows "b + scast (ucast ((a - b) div PGSIZE) :: 32 word) * PGSIZE = a"
proof -
  obtain i where i: "unat a = 4096 * i" using assms(1) by (rule aligned_obtain)
  obtain j where j: "unat b = 4096 * j" using assms(2) by (rule aligned_obtain)
  have ij: "j \<le> i" "i \<le> 2 ^ 26" using assms(3,4) i j by (auto simp: word_le_nat_alt MAXVA_eq)
  have d: "unat (a - b) = 4096 * (i - j)" using assms(3) i j by (simp add: unat_sub diff_mult_distrib2)
  have q: "unat ((a - b) div PGSIZE) = i - j" using d by (simp add: PGSIZE_def unat_div_distrib)
  then have "scast (ucast ((a - b) div PGSIZE) :: 32 word) = (a - b) div PGSIZE"
    using ij by (intro scast_ucast_small) simp
  moreover have "(a - b) div PGSIZE * PGSIZE = a - b"
    using d q ij by (simp add: word_unat_eq_iff unat_word_ariths PGSIZE_def)
  ultimately show ?thesis by simp
qed

lemma PGROUNDUP_le:
  assumes "sz \<le> MAXVA"
  shows "PGROUNDUP sz \<le> MAXVA" "sz \<le> PGROUNDUP sz" "unat (PGROUNDUP sz) = (unat sz + 4095) div 4096 * 4096"
proof -
  have s: "unat sz \<le> 2 ^ 38" using assms by (simp add: word_le_nat_alt MAXVA_eq)
  show u: "unat (PGROUNDUP sz) = (unat sz + 4095) div 4096 * 4096" by (rule unat_PGROUNDUP) (use s in simp)
  show "PGROUNDUP sz \<le> MAXVA" "sz \<le> PGROUNDUP sz" using s by (simp_all add: word_le_nat_alt u MAXVA_eq)
qed

lemma PGROUNDUP_aligned: "aligned a \<Longrightarrow> a \<le> MAXVA \<Longrightarrow> PGROUNDUP a = a"
proof -
  assume a: "aligned a" "a \<le> MAXVA"
  obtain i where "unat a = 4096 * i" using a(1) by (rule aligned_obtain)
  then have "unat (PGROUNDUP a) = unat a" using PGROUNDUP_le(3) [OF a(2)] by simp
  then show ?thesis by (simp only: word_unat_eq_iff)
qed

lemma uvmdealloc_spec:
  assumes "pt_inv 3 s pt ps" and "oldsz \<le> MAXVA"
    and "\<forall>w. aligned w \<and> PGROUNDUP newsz \<le> w \<and> w < PGROUNDUP oldsz \<longrightarrow> removable (kernel_end s) (mem s) pt w"
  shows "\<exists>t xs. uvmdealloc pt oldsz newsz s = Ret (min oldsz newsz) t
    \<and> as_step (- page_range (PGROUNDUP newsz) (PGROUNDUP oldsz)) pt s ps t (xs @ ps)
    \<and> (newsz < oldsz \<longrightarrow> (\<forall>w\<in>page_range (PGROUNDUP newsz) (PGROUNDUP oldsz). w < MAXVA \<longrightarrow> pte (mem t) pt w = 0))"
proof (cases "newsz < oldsz")
  case False
  then show ?thesis using as_step_refl [OF assms(1)] by (intro exI [of _ s] exI [of _ "[]"]) (auto simp: uvmdealloc_def not_less)
next
  case True
  let ?a = "PGROUNDUP newsz" and ?e = "PGROUNDUP oldsz"
  have n: "newsz \<le> MAXVA" using True assms(2) by simp
  note e = PGROUNDUP_le [OF assms(2)] and a = PGROUNDUP_le [OF n]
  show ?thesis
  proof (cases "?a < ?e")
    case False
    then have "page_range ?a ?e = {}" by (auto simp: page_range_def)
    then show ?thesis
      using as_step_refl [OF assms(1)] True False
      by (intro exI [of _ s] exI [of _ "[]"]) (auto simp: uvmdealloc_def)
  next
    case lt: True
    then have "?a \<le> ?e" by simp
    then obtain t xs where t: "uvmunmap_loop pt ?a ?e True s = Ret () t" "as_step (- page_range ?a ?e) pt s ps t (xs @ ps)"
        "\<forall>w\<in>page_range ?a ?e. w < MAXVA \<longrightarrow> pte (mem t) pt w = 0"
      using unmap_range [OF assms(1) aligned_PGROUNDUP aligned_PGROUNDUP _ e(1) assms(3)] by blast
    have np: "?a + scast (ucast ((?e - ?a) div PGSIZE) :: 32 word) * PGSIZE = ?e"
      by (rule npages_exact) (use \<open>?a \<le> ?e\<close> e(1) in simp_all)
    have "uvmdealloc pt oldsz newsz s = Ret newsz t"
      using True lt t(1) aligned_PGROUNDUP [of newsz] by (auto simp: uvmdealloc_def uvmunmap_def Let_def np aligned_def)
    then show ?thesis using t(2,3) True by (intro exI [of _ t] exI [of _ xs]) (auto simp: min_def)
  qed
qed

section \<open>Growing\<close>

definition grown :: "uint64 \<Rightarrow> mem \<Rightarrow> uint64 \<Rightarrow> uint64 \<Rightarrow> bool" where
  "grown e m pt w \<longleftrightarrow> (\<exists>p. pte m pt w = leaf p (PTE_W OR PTE_X OR PTE_R OR PTE_U) \<and> page_ok e p
     \<and> get m p 4096 = replicate 4096 0)"

lemma user_perm [simp]:
  "take_bit 10 (PTE_W OR PTE_X OR PTE_R OR PTE_U) = (PTE_W OR PTE_X OR PTE_R OR PTE_U)"
  by (simp add: PTE_W_def PTE_X_def PTE_R_def PTE_U_def take_bit_eq_mod push_bit_eq_mult)

lemma grown_removable:
  assumes "grown e m pt w"
  shows "removable e m pt w"
proof -
  obtain p where p: "pte m pt w = leaf p (PTE_W OR PTE_X OR PTE_R OR PTE_U)" "page_ok e p"
    using assms by (auto simp: grown_def)
  have "(PTE_W OR PTE_X OR PTE_R OR PTE_U) OR PTE_V \<noteq> PTE_V"
    by (simp add: PTE_W_def PTE_X_def PTE_R_def PTE_U_def PTE_V_def push_bit_eq_mult)
  then show ?thesis using p leaf_simps [OF user_perm, of p] by (auto simp: removable_def page_ok_def)
qed

lemma grown_ubyte:
  assumes "grown e m pt w" and "w < MAXVA" and "0 < e"
  shows "ubyte m pt w = Some 0"
proof -
  obtain p where p: "pte m pt w = leaf p (PTE_W OR PTE_X OR PTE_R OR PTE_U)" "page_ok e p" "get m p 4096 = replicate 4096 0"
    using assms by (auto simp: grown_def)
  have "take_bit 10 PTE_U = PTE_U" "((PTE_W OR PTE_X OR PTE_R OR PTE_U) OR PTE_V) AND PTE_U \<noteq> 0"
    by (simp_all add: PTE_W_def PTE_X_def PTE_R_def PTE_U_def PTE_V_def push_bit_eq_mult take_bit_eq_mod)
  then have u: "uaddr m pt w = p"
    using leaf_simps(1,2) [OF user_perm, of p] leaf_simps(4) [OF user_perm, of PTE_U p] p assms(2)
    by (auto simp: uaddr_def page_ok_def)
  have "m (p + of_nat i) = 0" if "i < 4096" for i using arg_cong [OF p(3), of "\<lambda>xs. xs ! i"] that by simp
  then show ?thesis using u page_ok_nonzero [OF p(2) assms(3)] by (simp add: ubyte_def)
qed

lemma ubyte_unmapped: "(w < MAXVA \<longrightarrow> pte m pt w AND PTE_V = 0) \<Longrightarrow> ubyte m pt w = None"
  by (auto simp: ubyte_def uaddr_def)

lemma same_on_grown:
  assumes "same_on W pt m m'" and "w \<in> W" and "w < MAXVA" and "grown e m pt w"
  shows "grown e m' pt w"
proof -
  obtain p where p: "pte m pt w = leaf p (PTE_W OR PTE_X OR PTE_R OR PTE_U)" "page_ok e p" "get m p 4096 = replicate 4096 0"
    using assms by (auto simp: grown_def)
  then have "PTE2PA (pte m pt w) = p" "pte m pt w AND PTE_V \<noteq> 0"
    using leaf_simps [OF user_perm, of p] by (auto simp: page_ok_def)
  then have "pte m' pt w = leaf p (PTE_W OR PTE_X OR PTE_R OR PTE_U)" "get m' p 4096 = replicate 4096 0"
    using assms(1-3) p unfolding same_on_def by metis+
  then show ?thesis using p(2) unfolding grown_def by blast
qed

lemma page_range_split:
  assumes "old \<le> a" and "a \<le> e"
  shows "page_range old e = page_range old a \<union> page_range a e"
  using assms by (auto simp: page_range_def)

lemma as_step_kernel_end: "as_step W pt s ps t qs \<Longrightarrow> kernel_end t = kernel_end s"
  using only_kmem_fields(4) by (auto simp: as_step_def)

lemma as_step_pte: "as_step W pt s ps t qs \<Longrightarrow> w \<in> W \<Longrightarrow> w < MAXVA \<Longrightarrow> pte (mem t) pt w = pte (mem s) pt w"
  by (simp add: as_step_def same_on_def)

lemma as_step_inv: "as_step W pt s ps t qs \<Longrightarrow> pt_inv 3 t pt qs"
  by (simp add: as_step_def)

lemma rollback:
  assumes st: "as_step UNIV pt s ps u qs" and al: "aligned old" "aligned a" "old \<le> a" "a \<le> MAXVA" "a \<le> new"
    and g: "\<forall>w\<in>page_range old a. w < MAXVA \<longrightarrow> grown (kernel_end s) (mem s) pt w"
    and free: "\<forall>w\<in>page_range a new. w < MAXVA \<longrightarrow> pte (mem s) pt w AND PTE_V = 0"
  shows "\<exists>v t ps'. uvmdealloc pt a old u = Ret v t \<and> as_step (- page_range old new) pt s ps t ps'
    \<and> (\<forall>w\<in>page_range old new. w < MAXVA \<longrightarrow> pte (mem t) pt w AND PTE_V = 0)"
proof -
  have old: "old \<le> MAXVA" using al by simp
  have r: "PGROUNDUP a = a" "PGROUNDUP old = old" using PGROUNDUP_aligned al old by auto
  have ke: "kernel_end u = kernel_end s" by (rule as_step_kernel_end [OF st])
  have same: "same_on UNIV pt (mem s) (mem u)" using st by (simp add: as_step_def)
  have "removable (kernel_end u) (mem u) pt w" if "aligned w" "old \<le> w" "w < a" for w
  proof -
    have "w \<in> page_range old a" "w < MAXVA" using that al by (auto intro: page_rangeI)
    then have "grown (kernel_end s) (mem u) pt w" using g by (intro same_on_grown [OF same UNIV_I]) auto
    then show ?thesis unfolding ke by (rule grown_removable)
  qed
  then obtain t xs where t: "uvmdealloc pt a old u = Ret (min a old) t" "as_step (- page_range old a) pt u qs t (xs @ qs)"
      "old < a \<Longrightarrow> \<forall>w\<in>page_range old a. w < MAXVA \<longrightarrow> pte (mem t) pt w = 0"
    using uvmdealloc_spec [OF as_step_inv [OF st] al(4), of old] unfolding r by blast
  note R = page_range_split [OF al(3,5)]
  have "as_step (- page_range old new) pt s ps t (xs @ qs)"
    using as_step_trans [OF as_step_mono [OF st] as_step_mono [OF t(2)]] R by auto
  moreover have "pte (mem t) pt w AND PTE_V = 0" if w: "w \<in> page_range old new" "w < MAXVA" for w
  proof (cases "w \<in> page_range old a")
    case True
    then have "old < a" by (auto simp: page_range_def)
    then show ?thesis using t(3) True w(2) by simp
  next
    case False
    then have "pte (mem t) pt w = pte (mem s) pt w"
      using as_step_pte [OF t(2) _ w(2)] as_step_pte [OF st _ w(2)] by simp
    then show ?thesis using free False R w by auto
  qed
  ultimately show ?thesis using t(1) by blast
qed

lemma uvmalloc_loop_spec:
  assumes "pt_inv 3 s pt ps" and "aligned old" and "aligned a" and "old \<le> a" and "a \<le> PGROUNDUP new" and "new \<le> MAXVA"
    and "\<forall>w\<in>page_range old a. w < MAXVA \<longrightarrow> grown (kernel_end s) (mem s) pt w"
    and "\<forall>w\<in>page_range a new. w < MAXVA \<longrightarrow> pte (mem s) pt w AND PTE_V = 0"
  shows "\<exists>r t ps'. uvmalloc_loop pt a old new s = Ret r t \<and> as_step (- page_range old new) pt s ps t ps'
    \<and> (r = new \<and> (\<forall>w\<in>page_range old new. w < MAXVA \<longrightarrow> grown (kernel_end s) (mem t) pt w)
       \<or> r = 0 \<and> (\<forall>w\<in>page_range old new. w < MAXVA \<longrightarrow> pte (mem t) pt w AND PTE_V = 0))"
  using assms
proof (induction "unat (PGROUNDUP new) - unat a" arbitrary: a s ps rule: less_induct)
  case less
  show ?case
  proof (cases "a < new")
    case False
    then have "page_range old new \<subseteq> page_range old a" by (auto simp: page_range_def)
    then show ?thesis
      using False less.prems(7) as_step_refl [OF less.prems(1)] by (subst uvmalloc_loop.simps) auto
  next
    case True
    let ?perm = "PTE_W OR PTE_X OR PTE_R OR PTE_U"
    have lt: "a < PGROUNDUP new" using True PGROUNDUP_le(2) [OF less.prems(6)] by simp
    note n = next_page_below [OF less.prems(3) aligned_PGROUNDUP lt]
    have a: "a < MAXVA" "a \<le> MAXVA" "a \<le> new" using True less.prems(6) by auto
    have k: "kready s" "kmem_inv s ps" using less.prems(1) by (simp_all add: pt_inv_def)
    note RB = rollback [OF _ less.prems(2,3,4) a(2,3) less.prems(7,8)]
    have un: "pte (mem s) pt a AND PTE_V = 0" using less.prems(3,8) True a by (auto intro: page_rangeI)
    show ?thesis
    proof (cases ps)
      case Nil
      have "as_step UNIV pt s ps (settle s) ps"
        using pt_grow_settle [OF less.prems(1)] by (simp add: as_step_def pt_grow_def same_on_refl)
      from RB [OF this] show ?thesis
        using kalloc_Nil [of s] k Nil True by (subst uvmalloc_loop.simps) fastforce
    next
      case (Cons p qs)
      have p0: "p \<noteq> 0" using pt_inv_head(3) [of 3 s pt p qs] less.prems(1) Cons by simp
      let ?s = "filled s p (replicate 4096 0)"
      have st: "uvmalloc_loop pt a old new s = res_bind (mappages pt a PGSIZE p ?perm ?s) (\<lambda>r s.
          if r \<noteq> 0 then res_bind (kfree p s) (\<lambda>_ s. res_bind (uvmdealloc pt a old s) (\<lambda>_ s. Ret 0 s))
          else uvmalloc_loop pt (a + PGSIZE) old new s)"
        using kalloc_Cons [of s p qs] k Cons True p0
        by (subst uvmalloc_loop.simps) (simp add: Let_def memset_put put_put_same)
      consider (fail) t u ps' where "mappages pt a PGSIZE p ?perm ?s = Ret (-1) t" "kfree p t = Ret () u"
          "as_step UNIV pt s ps u ps'"
        | (ok) t ps' where "mappages pt a PGSIZE p ?perm ?s = Ret 0 t" "as_step {w. PGROUNDDOWN w \<noteq> a} pt s ps t ps'"
          "get (mem t) p 4096 = replicate 4096 0" "\<forall>w. w < MAXVA \<and> PGROUNDDOWN w = a \<longrightarrow> pte (mem t) pt w = leaf p ?perm"
        using add_page [OF _ _ user_perm a(1) less.prems(3) un, of p qs "replicate 4096 0"] less.prems(1) Cons by auto
      then show ?thesis
      proof cases
        case fail
        from RB [OF fail(3)] show ?thesis using st fail(1,2) by fastforce
      next
        case ok
        have ke: "kernel_end t = kernel_end s" by (rule as_step_kernel_end [OF ok(2)])
        have sm: "same_on {w. PGROUNDDOWN w \<noteq> a} pt (mem s) (mem t)" using ok(2) by (simp add: as_step_def)
        have pok: "page_ok (kernel_end s) p" using k(2) Cons by (simp add: kmem_inv_def)
        have R: "page_range old (a + PGSIZE) = page_range old a \<union> {w. PGROUNDDOWN w = a}"
          using n(3) next_page [OF less.prems(3) aligned_PGROUNDDOWN n(3)] less.prems(4) by (auto simp: page_range_def)
        have "grown (kernel_end t) (mem t) pt w" if w: "w \<in> page_range old (a + PGSIZE)" "w < MAXVA" for w
        proof (cases "PGROUNDDOWN w = a")
          case True
          then show ?thesis using ok(3,4) w(2) pok ke by (auto simp: grown_def)
        next
          case False
          then have "grown (kernel_end s) (mem s) pt w" using less.prems(7) w R by auto
          then show ?thesis unfolding ke using same_on_grown [OF sm _ w(2)] False by simp
        qed
        moreover have "pte (mem t) pt w AND PTE_V = 0" if w: "w \<in> page_range (a + PGSIZE) new" "w < MAXVA" for w
        proof -
          have "PGROUNDDOWN w \<noteq> a" "w \<in> page_range a new"
            using w n(5) [OF aligned_PGROUNDDOWN, of w] by (auto simp: page_range_def)
          then show ?thesis using as_step_pte [OF ok(2) _ w(2)] less.prems(8) w(2) by simp
        qed
        ultimately have "\<exists>r u qs. uvmalloc_loop pt (a + PGSIZE) old new t = Ret r u
            \<and> as_step (- page_range old new) pt t ps' u qs
            \<and> (r = new \<and> (\<forall>w\<in>page_range old new. w < MAXVA \<longrightarrow> grown (kernel_end t) (mem u) pt w)
               \<or> r = 0 \<and> (\<forall>w\<in>page_range old new. w < MAXVA \<longrightarrow> pte (mem u) pt w AND PTE_V = 0))"
          using as_step_inv [OF ok(2)] less.prems(2,6) n lt order.trans [OF less.prems(4) less_imp_le [OF n(3)]]
          by (intro less.hyps) (auto simp: word_less_nat_alt)
        then obtain r u qs where u: "uvmalloc_loop pt (a + PGSIZE) old new t = Ret r u"
            "as_step (- page_range old new) pt t ps' u qs"
            "r = new \<and> (\<forall>w\<in>page_range old new. w < MAXVA \<longrightarrow> grown (kernel_end t) (mem u) pt w)
               \<or> r = 0 \<and> (\<forall>w\<in>page_range old new. w < MAXVA \<longrightarrow> pte (mem u) pt w AND PTE_V = 0)"
          by blast
        have "as_step (- page_range old new) pt s ps t ps'"
          by (rule as_step_mono [OF ok(2)]) (use less.prems(4) True in \<open>auto simp: page_range_def\<close>)
        then show ?thesis using as_step_trans [OF _ u(2)] u(1,3) st ok(1) ke by auto
      qed
    qed
  qed
qed

section \<open>Empty tables\<close>

lemma empty_table:
  assumes "aligned pt" and "pt \<noteq> 0" and "\<And>i. i < 512 \<Longrightarrow> entry m pt i AND PTE_V = 0"
  shows "pt_ok n m pt" "owned n m pt = {pt}" "pte m pt va = 0"
proof -
  have n: "node m pt is = (if is = [] then Some pt else None)" if "is \<in> paths n" for n "is"
    using that
  proof (induction "is" arbitrary: n rule: rev_induct)
    case (snoc i "is")
    then have "is \<in> paths n" "i < 512" by (auto simp: paths_def)
    then show ?case using snoc.IH assms(3) by (simp add: node_snoc child_def)
  qed simp
  show "pt_ok n m pt" using assms(1,2) by (auto simp: pt_ok_def n split: if_splits)
  show "owned n m pt = {pt}" by (auto simp: owned_def n split: if_splits intro: bexI [of _ "[]"])
  show "pte m pt va = 0" using n [OF px_paths(1)] by (simp add: pte_def)
qed

text \<open>
  C6. Growing a process: on a well-formed user table whose range from \<open>oldsz\<close> to
  \<open>newsz\<close> is unmapped, \<open>uvmalloc\<close> never panics. Either it returns \<open>newsz\<close> and every
  byte of the new pages is readable by the user and zero, or it returns 0 and the range is
  unmapped again. Both ways the user's other bytes are unchanged, the table is well-formed, and
  no page is lost: table and free list together hold the pages they held before.
\<close>

theorem uvmalloc_grows_or_undoes:
  assumes "pt_inv 3 s pt ps" and "oldsz \<le> newsz" and "newsz \<le> MAXVA"
    and "\<forall>w\<in>page_range (PGROUNDUP oldsz) newsz. w < MAXVA \<longrightarrow> pte (mem s) pt w AND PTE_V = 0"
  shows "\<exists>r t ps'. uvmalloc pt oldsz newsz s = Ret r t \<and> pt_inv 3 t pt ps'
    \<and> owned 3 (mem t) pt \<union> set ps' = owned 3 (mem s) pt \<union> set ps
    \<and> (\<forall>w. w \<notin> page_range (PGROUNDUP oldsz) newsz \<longrightarrow> ubyte (mem t) pt w = ubyte (mem s) pt w)
    \<and> (r = newsz \<and> (\<forall>w\<in>page_range (PGROUNDUP oldsz) newsz. w < MAXVA \<longrightarrow> ubyte (mem t) pt w = Some 0)
       \<or> r = 0 \<and> (\<forall>w\<in>page_range (PGROUNDUP oldsz) newsz. ubyte (mem t) pt w = None))"
proof -
  let ?W = "page_range (PGROUNDUP oldsz) newsz"
  have e: "0 < kernel_end s" using assms(1) by (simp add: pt_inv_def kmem_inv_def)
  have u: "uvmalloc pt oldsz newsz s = uvmalloc_loop pt (PGROUNDUP oldsz) (PGROUNDUP oldsz) newsz s"
    using assms(2) by (auto simp: uvmalloc_def)
  have le: "PGROUNDUP oldsz \<le> PGROUNDUP newsz"
    using PGROUNDUP_le(3) [of oldsz] PGROUNDUP_le(3) [OF assms(3)] assms(2,3)
    by (simp add: word_le_nat_alt div_le_mono)
  have emp: "page_range (PGROUNDUP oldsz) (PGROUNDUP oldsz) = {}" by (auto simp: page_range_def)
  obtain r t ps' where t: "uvmalloc_loop pt (PGROUNDUP oldsz) (PGROUNDUP oldsz) newsz s = Ret r t"
      "as_step (- ?W) pt s ps t ps'"
      "r = newsz \<and> (\<forall>w\<in>?W. w < MAXVA \<longrightarrow> grown (kernel_end s) (mem t) pt w)
       \<or> r = 0 \<and> (\<forall>w\<in>?W. w < MAXVA \<longrightarrow> pte (mem t) pt w AND PTE_V = 0)"
    using uvmalloc_loop_spec [OF assms(1) aligned_PGROUNDUP aligned_PGROUNDUP order_refl le assms(3) _ assms(4)]
    unfolding emp by blast
  have same: "same_on (- ?W) pt (mem s) (mem t)" using t(2) by (simp add: as_step_def)
  have "ubyte (mem t) pt w = ubyte (mem s) pt w" if "w \<notin> ?W" for w
    using same_on_ubyte [OF same] that by simp
  moreover have "r = newsz \<and> (\<forall>w\<in>?W. w < MAXVA \<longrightarrow> ubyte (mem t) pt w = Some 0) \<or> r = 0 \<and> (\<forall>w\<in>?W. ubyte (mem t) pt w = None)"
    using t(3) grown_ubyte [OF _ _ e] ubyte_unmapped by blast
  ultimately show ?thesis using u t(1,2) by (auto simp: as_step_def)
qed

text \<open>
  C18. Shrinking a process: when the pages between the two sizes are mapped to freeable pages,
  \<open>uvmdealloc\<close> returns the smaller size, the pages are no longer mapped and are back on the
  free list, every other user byte is unchanged, and no page is lost.
\<close>

theorem uvmdealloc_shrinks:
  assumes "pt_inv 3 s pt ps" and "oldsz \<le> MAXVA" and "newsz < oldsz"
    and "\<forall>w. aligned w \<and> PGROUNDUP newsz \<le> w \<and> w < PGROUNDUP oldsz \<longrightarrow> removable (kernel_end s) (mem s) pt w"
  shows "\<exists>t xs. uvmdealloc pt oldsz newsz s = Ret newsz t \<and> pt_inv 3 t pt (xs @ ps)
    \<and> owned 3 (mem t) pt \<union> set (xs @ ps) = owned 3 (mem s) pt \<union> set ps
    \<and> (\<forall>w\<in>page_range (PGROUNDUP newsz) (PGROUNDUP oldsz). ubyte (mem t) pt w = None)
    \<and> (\<forall>w. w \<notin> page_range (PGROUNDUP newsz) (PGROUNDUP oldsz) \<longrightarrow> ubyte (mem t) pt w = ubyte (mem s) pt w)"
proof -
  let ?W = "page_range (PGROUNDUP newsz) (PGROUNDUP oldsz)"
  obtain t xs where t: "uvmdealloc pt oldsz newsz s = Ret (min oldsz newsz) t" "as_step (- ?W) pt s ps t (xs @ ps)"
      "\<forall>w\<in>?W. w < MAXVA \<longrightarrow> pte (mem t) pt w = 0"
    using uvmdealloc_spec [OF assms(1,2,4)] assms(3) by blast
  have m: "min oldsz newsz = newsz" using assms(3) by (auto simp: min_def)
  have "same_on (- ?W) pt (mem s) (mem t)" using t(2) by (simp add: as_step_def)
  then have "\<forall>w. w \<notin> ?W \<longrightarrow> ubyte (mem t) pt w = ubyte (mem s) pt w" using same_on_ubyte by blast
  moreover have "\<forall>w\<in>?W. ubyte (mem t) pt w = None" using t(3) ubyte_unmapped [of _ "mem t" pt] by simp
  ultimately show ?thesis using t(1,2) m unfolding as_step_def by metis
qed

end
