(* ===== verification/Vm_Examples.thy ===== *)
theory Vm_Examples
  imports Address_Space
begin

text \<open>
  Concrete page tables: an empty one and one with a single user page at address 0. They show
  that the hypotheses of the theorems on \<open>kernel/vm.c\<close> can be met.
\<close>

text \<open>A table with nothing mapped and four free pages, for the witnesses.\<close>

definition demo_mem :: mem where
  "demo_mem = store64 (store64 (store64 (\<lambda>_. 0) 0x80022000 0x80023000) 0x80023000 0x80024000) 0x80024000 0x80025000"

definition demo_kmem :: kmem_state where
  "demo_kmem = boot_kmem\<lparr>mem := demo_mem, freelist := 0x80022000\<rparr>"

lemma aligned_demo [simp]:
  "aligned 0x80021000" "aligned 0x80022000" "aligned 0x80023000" "aligned 0x80024000" "aligned 0x80025000"
  by (simp_all add: aligned_def PGSIZE_def)

lemma demo_load [simp]:
  "load64 demo_mem 0x80022000 = 0x80023000" "load64 demo_mem 0x80023000 = 0x80024000"
  "load64 demo_mem 0x80024000 = 0x80025000" "load64 demo_mem 0x80025000 = 0"
  by (simp_all add: demo_mem_def load64_store64_other_page mem_simps)

lemma demo_entry: "i < 512 \<Longrightarrow> entry demo_mem 0x80021000 i = 0"
proof -
  assume i: "i < 512"
  have z: "entry (\<lambda>_. 0) 0x80021000 i = 0" by (simp add: entry_def)
  have "entry (store64 m p v) 0x80021000 i = entry m 0x80021000 i" if "aligned p" "p \<noteq> 0x80021000" for m p v
    using entry_store_other [of p "0x80021000" 0 i m v] that i by simp
  then show ?thesis by (simp add: demo_mem_def z)
qed

lemma demo_inv: "pt_inv 3 demo_kmem 0x80021000 [0x80022000, 0x80023000, 0x80024000, 0x80025000]"
  and demo_pte: "pte (mem demo_kmem) 0x80021000 w = 0"
proof -
  have e: "entry demo_mem 0x80021000 i AND PTE_V = 0" if "i < 512" for i using demo_entry [OF that] by simp
  note E = empty_table [OF aligned_demo(1) _ e, simplified]
  have "kready demo_kmem" by (simp add: demo_kmem_def boot_kmem_simps)
  moreover have "kmem_inv demo_kmem [0x80022000, 0x80023000, 0x80024000, 0x80025000]"
    by (simp add: demo_kmem_def kmem_inv_def page_ok_def) (simp add: boot_kmem_def mach.defs PHYSTOP_def KERNBASE_def)
  ultimately show "pt_inv 3 demo_kmem 0x80021000 [0x80022000, 0x80023000, 0x80024000, 0x80025000]"
    using E(1,2) by (simp add: pt_inv_def) (simp add: demo_kmem_def E)
  show "pte (mem demo_kmem) 0x80021000 w = 0" using E(3) by (simp add: demo_kmem_def)
qed

theorem uvmalloc_grows_or_undoes_witness:
  "\<exists>r t. uvmalloc 0x80021000 0 5000 demo_kmem = Ret r t \<and> (r = 5000 \<or> r = 0)
    \<and> (\<forall>w. w \<notin> page_range (PGROUNDUP 0) 5000 \<longrightarrow> ubyte (mem t) 0x80021000 w = ubyte (mem demo_kmem) 0x80021000 w)"
  using uvmalloc_grows_or_undoes [OF demo_inv, of 0 5000] by (auto simp: demo_pte MAXVA_eq)

text \<open>One user page, at address 0.\<close>

definition one_page_mem :: mem where
  "one_page_mem = store64 (link (link (\<lambda>_. 0) 0x80021000 0 0x80022000) 0x80022000 0 0x80023000)
     (0x80023000 + 8 * PX 0 0) (leaf 0x80024000 (PTE_W OR PTE_X OR PTE_R OR PTE_U))"

definition one_page :: kmem_state where
  "one_page = boot_kmem\<lparr>mem := one_page_mem\<rparr>"

lemma PX_0 [simp]: "PX l 0 = 0"
  by (simp add: PX_def)

lemma px_0 [simp]: "px l 0 = 0"
  by (simp add: px_def)

lemma one_page_ok:
  "pt_ok 3 one_page_mem 0x80021000"
  "owned 3 one_page_mem 0x80021000 = {0x80021000, 0x80022000, 0x80023000, 0x80024000}"
  "w < MAXVA \<Longrightarrow> pte one_page_mem 0x80021000 w =
     (if PGROUNDDOWN w = 0 then leaf 0x80024000 (PTE_W OR PTE_X OR PTE_R OR PTE_U) else 0)"
proof -
  let ?m0 = "\<lambda>_ :: uint64. 0 :: byte" and ?r = "0x80021000" and ?a = "0x80022000" and ?b = "0x80023000" and ?c = "0x80024000"
  let ?m1 = "link ?m0 ?r 0 ?a"
  let ?m2 = "link ?m1 ?a 0 ?b"
  have e0: "entry ?m0 p i = 0" for p i by (simp add: entry_def)
  note E = empty_table [OF aligned_demo(1), of ?m0, simplified e0, simplified]
  have c0: "child ?m0 ?r 0 = None" by (simp add: child_def e0)
  have L1: "pt_ok 3 ?m1 ?r" "owned 3 ?m1 ?r = {?r, ?a}" "owned 2 ?m1 ?r = {?r, ?a}" "pte ?m1 ?r w = 0" for w
    using link_ok [OF E(1) _ _ node_Nil paths_Nil _ c0, of 3 ?a] E(2,3) by auto
  have n1: "node ?m1 ?r [0] = Some ?a"
    using node_link [OF E(1) node_Nil paths_Nil _ c0, of ?a "[0]"] E(2) by (simp add: paths_def)
  have c1: "child ?m1 ?a 0 = None"
    using node_link [OF E(1) node_Nil paths_Nil _ c0, of ?a "[0, 0]"] E(2) n1
    by (simp add: paths_def node_2 node_1 c0)
  have p1: "[0] \<in> paths 1" by (simp add: paths_def)
  have L2: "pt_ok 3 ?m2 ?r" "owned 3 ?m2 ?r = {?b, ?r, ?a}" "pte ?m2 ?r w = 0" for w
    using link_ok [OF L1(1) _ _ n1 p1 _ c1, of ?b] L1(2,4) by auto
  have n2: "node ?m2 ?r [px 2 0, px 1 0] = Some ?b"
    using node_link [OF pt_ok_mono [OF L1(1)] n1 p1 _ c1, of ?b "[0, 0]"] L1(3) by (simp add: paths_def)
  note L3 = leaf_map_ok [OF L2(1) n2, of "leaf ?c (PTE_W OR PTE_X OR PTE_R OR PTE_U)" ?c, folded one_page_mem_def]
  show "pt_ok 3 one_page_mem ?r" "owned 3 one_page_mem ?r = {?r, ?a, ?b, ?c}"
    using L3 L2(2,3) leaf_simps(1,2) [OF user_perm, of ?c] by auto
  show "pte one_page_mem ?r w = (if PGROUNDDOWN w = 0 then leaf ?c (PTE_W OR PTE_X OR PTE_R OR PTE_U) else 0)"
    if "w < MAXVA"
    using pte_store_leaf [OF pt_ok_mono [OF L2(1)] n2 _ that] L2(3)
    by (simp add: one_page_mem_def MAXVA_eq PGROUNDDOWN_def)
qed

lemma one_page_inv: "pt_inv 3 one_page 0x80021000 []"
  using one_page_ok(1,2)
  by (simp add: pt_inv_def one_page_def) (simp add: boot_kmem_simps)

lemma one_page_ubyte: "w < 4096 \<Longrightarrow> ubyte (mem one_page) 0x80021000 w \<noteq> None"
proof -
  assume w: "w < 4096"
  then have "PGROUNDDOWN w = 0" "w < MAXVA"
    by (simp_all add: word_unat_eq_iff unat_PGROUNDDOWN word_less_nat_alt MAXVA_eq)
  moreover have "take_bit 10 PTE_U = PTE_U" "((PTE_W OR PTE_X OR PTE_R OR PTE_U) OR PTE_V) AND PTE_U \<noteq> 0"
    by (simp_all add: PTE_W_def PTE_X_def PTE_R_def PTE_U_def PTE_V_def push_bit_eq_mult take_bit_eq_mod)
  ultimately have "uaddr (mem one_page) 0x80021000 w = 0x80024000"
    using one_page_ok(3) [of w] leaf_simps(1,2) [OF user_perm, of "0x80024000"]
      leaf_simps(4) [OF user_perm, of PTE_U "0x80024000"]
    by (simp add: uaddr_def one_page_def)
  then show ?thesis by (simp add: ubyte_def)
qed

lemma one_page_copyout:
  "\<exists>m. copyout 0x80021000 0 (\<lambda>i. of_nat i) 50 one_page = Ret 0 (one_page\<lparr>mem := m\<rparr>)"
proof -
  have "\<forall>w. unat (w - 0) < unat (50 :: uint64) \<longrightarrow> ubyte (mem one_page) 0x80021000 w \<noteq> None"
    using one_page_ubyte by (simp add: word_less_nat_alt)
  then show ?thesis
    using copyout_spec [of one_page "0x80021000" 0 "\<lambda>i. of_nat i" 50] one_page_ok(1) by (auto simp: one_page_def)
qed

theorem copyout_correct_witness:
  "\<exists>m. copyout 0x80021000 100 (\<lambda>i. of_nat i) 50 one_page = Ret 0 (one_page\<lparr>mem := m\<rparr>)
    \<and> ubyte m 0x80021000 107 = Some 7"
proof -
  have "w < 4096" if "unat (w - 100) < 50" for w :: uint64
  proof -
    have "w = 100 + of_nat (unat (w - 100))" by simp
    moreover have "unat (100 + of_nat (unat (w - 100)) :: uint64) = 100 + unat (w - 100)"
      using that unat_add_64 [of 100 "unat (w - 100)"] by simp
    ultimately have "unat w = 100 + unat (w - 100)" by simp
    then show ?thesis using that by (simp add: word_less_nat_alt)
  qed
  then have "\<forall>w. unat (w - 100) < unat (50 :: uint64) \<longrightarrow> ubyte (mem one_page) 0x80021000 w \<noteq> None"
    using one_page_ubyte by simp
  moreover have "pt_ok 3 (mem one_page) 0x80021000" using one_page_ok(1) by (simp add: one_page_def)
  ultimately obtain m where "copyout 0x80021000 100 (\<lambda>i. of_nat i) 50 one_page = Ret 0 (one_page\<lparr>mem := m\<rparr>)"
      "\<forall>w. unat (w - 100) < unat (50 :: uint64) \<longrightarrow> ubyte m 0x80021000 w = Some (of_nat (unat (w - 100)))"
    using copyout_correct [of one_page "0x80021000" 100 "\<lambda>i. of_nat i" 50] by blast
  then show ?thesis by (intro exI [of _ m]) simp
qed

theorem copyin_copyout_witness:
  "\<exists>t d. copyout 0x80021000 0 (\<lambda>i. of_nat i) 50 one_page = Ret 0 t
    \<and> copyin 0x80021000 (\<lambda>_. 0) 0 0 50 t = Ret (0, d) t \<and> d 7 = 7 \<and> d 60 = 0"
proof -
  obtain t where t: "copyout 0x80021000 0 (\<lambda>i. of_nat i) 50 one_page = Ret 0 t" using one_page_copyout by blast
  have "pt_ok 3 (mem one_page) 0x80021000" using one_page_ok(1) by (simp add: one_page_def)
  from copyin_copyout [OF this t, of "\<lambda>_. 0"] show ?thesis using t by auto
qed

theorem uvmdealloc_shrinks_witness:
  "\<exists>t xs. uvmdealloc 0x80021000 4096 0 one_page = Ret 0 t \<and> pt_inv 3 t 0x80021000 xs
    \<and> ubyte (mem t) 0x80021000 7 = None"
proof -
  have u: "PGROUNDUP 0 = 0" "PGROUNDUP 4096 = 4096"
    by (simp_all add: word_unat_eq_iff unat_PGROUNDUP)
  have "removable (kernel_end one_page) (mem one_page) 0x80021000 w" if "aligned w" "w < 4096" for w
  proof -
    have "w = 0" using that by (simp add: aligned_iff word_less_nat_alt flip: unat_0_iff)
    moreover have "(PTE_W OR PTE_X OR PTE_R OR PTE_U) OR PTE_V \<noteq> PTE_V"
      by (simp add: PTE_W_def PTE_X_def PTE_R_def PTE_U_def PTE_V_def push_bit_eq_mult)
    ultimately show ?thesis
      using one_page_ok(3) [of 0] leaf_simps(1-3) [OF user_perm, of "0x80024000"]
      by (simp add: removable_def one_page_def MAXVA_eq PGROUNDDOWN_def)
        (simp add: page_ok_def boot_kmem_def mach.defs PHYSTOP_def KERNBASE_def)
  qed
  moreover have "7 \<in> page_range 0 4096" by (simp add: page_range_def word_less_nat_alt unat_PGROUNDDOWN)
  ultimately show ?thesis
    using uvmdealloc_shrinks [OF one_page_inv, of 4096 0] by (auto simp: u MAXVA_eq)
qed

theorem mappages_maps_range_witness:
  "\<exists>r t. mappages 0x80021000 4096 8192 0x80030000 (PTE_R OR PTE_W) demo_kmem = Ret r t \<and> (r = 0 \<or> r = -1)"
proof -
  have "pt_inv 2 demo_kmem 0x80021000 [0x80022000, 0x80023000, 0x80024000, 0x80025000]"
    using demo_inv pt_ok_mono [of 3 "mem demo_kmem" "0x80021000" 2] owned_mono [of 2 3 "mem demo_kmem" "0x80021000"]
    by (auto simp: pt_inv_def)
  moreover have "take_bit 10 (PTE_R OR PTE_W) = (PTE_R OR PTE_W)"
    by (simp add: PTE_R_def PTE_W_def push_bit_eq_mult take_bit_eq_mod)
  moreover have "aligned 0x80030000" by (simp add: aligned_def PGSIZE_def)
  ultimately show ?thesis
    using mappages_maps_range [of demo_kmem "0x80021000" "[0x80022000, 0x80023000, 0x80024000, 0x80025000]" 8192 4096
        "0x80030000" "PTE_R OR PTE_W"] demo_pte
    by (auto simp: MAXVA_eq)
qed

end
