(* ===== verification/Pipe.thy ===== *)
theory Pipe
  imports Descriptors Vm_Examples
begin

text \<open>
  Pipes as queues: the reading and writing ends of \<open>kernel/pipe.c\<close> implement a bounded
  first-in first-out queue of bytes between user buffers.
\<close>

definition pipe_list :: "pipe \<Rightarrow> byte list" where
  "pipe_list p = ring_list PIPESIZE (pi_data p) (pi_nread p) (pi_nwrite p)"

definition pipe_ok :: "pipe \<Rightarrow> bool" where
  "pipe_ok p \<longleftrightarrow> length (pipe_list p) \<le> PIPESIZE"

definition same_ends :: "pipe \<Rightarrow> pipe \<Rightarrow> bool" where
  "same_ends p q \<longleftrightarrow> pi_readopen p = pi_readopen q \<and> pi_writeopen p = pi_writeopen q"

interpretation pipe_ring: ring PIPESIZE "TYPE(32)"
  by unfold_locales (simp_all add: PIPESIZE_def)

definition pipe_put :: "byte \<Rightarrow> pipe \<Rightarrow> pipe" where
  "pipe_put c p = p\<lparr>pi_data := (pi_data p)(unat (pi_nwrite p) mod PIPESIZE := c), pi_nwrite := pi_nwrite p + 1\<rparr>"

lemma pipe_put_list:
  assumes "length (pipe_list p) < PIPESIZE"
  shows "pipe_list (pipe_put c p) = pipe_list p @ [c]" "same_ends (pipe_put c p) p"
  using pipe_ring.ring_write [of "pi_nwrite p" "pi_nread p"] assms
  by (simp_all add: pipe_list_def pipe_put_def same_ends_def)

lemma pipe_get_list:
  assumes "pi_nread p \<noteq> pi_nwrite p"
  shows "pipe_list p = pi_data p (unat (pi_nread p) mod PIPESIZE) # pipe_list (p\<lparr>pi_nread := pi_nread p + 1\<rparr>)"
  using pipe_ring.ring_read [of "pi_nwrite p" "pi_nread p"] assms by (auto simp: pipe_list_def)

lemma pipe_full_iff: "pi_nwrite p = pi_nread p + of_nat PIPESIZE \<longleftrightarrow> length (pipe_list p) = PIPESIZE"
  using pipe_ring.full_iff [of "pi_nwrite p" "pi_nread p"] by (simp add: pipe_list_def)

lemma pipe_empty_iff: "pi_nread p = pi_nwrite p \<longleftrightarrow> pipe_list p = []"
proof -
  have "pipe_list p = [] \<longleftrightarrow> unat (pi_nwrite p - pi_nread p) = 0" by (metis length_0_conv length_ring_list pipe_list_def)
  also have "\<dots> \<longleftrightarrow> pi_nwrite p = pi_nread p" by (simp add: unat_eq_0)
  finally show ?thesis by auto
qed

text \<open>The process that runs, inside a critical section\<close>

definition inside :: "nat \<Rightarrow> 'a mach_scheme \<Rightarrow> bool" where
  "inside p s \<longleftrightarrow> cpu_ok s \<and> 0 < noff (cpus s (hart s)) \<and> cur s = Some p"

lemma inside_myproc: "inside p s \<Longrightarrow> myproc s = Ret (Some p) s"
  by (simp add: inside_def myproc_eq settle_cpus_deep)

definition set_pipe :: "uint64 \<Rightarrow> pipe \<Rightarrow> 'a file_state_scheme \<Rightarrow> 'a file_state_scheme" where
  "set_pipe a q s = s\<lparr>pipes := (pipes s)(a := q)\<rparr>"

lemma set_pipe_simps [simp]:
  "hart (set_pipe a q s) = hart s" "sie (set_pipe a q s) = sie s" "cpus (set_pipe a q s) = cpus s" "locks (set_pipe a q s) = locks s"
  "proc (set_pipe a q s) = proc s" "mem (set_pipe a q s) = mem s" "pipes (set_pipe a q s) a = q"
  "set_pipe a r (set_pipe a q s) = set_pipe a r s" "set_pipe a (pipes s a) s = s"
  by (simp_all add: set_pipe_def)

lemma upd_pipe_eq: "upd_pipe a f s = set_pipe a (f (pipes s a)) s"
  by (simp add: upd_pipe_def set_pipe_def)

lemma inside_set_pipe [simp]: "inside p (set_pipe a q s) \<longleftrightarrow> inside p s"
  by (simp add: inside_def)

lemma pipewrite_steps:
  assumes "inside p s" and "pi_readopen (pipes s pi)" and "p_killed (proc s p) = 0"
    and "pt_ok 2 (mem s) (p_pagetable (proc s p))" and "length (pipe_list (pipes s pi)) + length bs \<le> PIPESIZE"
    and "\<forall>j<length bs. ubyte (mem s) (p_pagetable (proc s p)) (addr + of_int i + of_nat j) = Some (bs ! j)"
  shows "\<exists>q. pipewrite_loop (length bs + k) pi addr i s = pipewrite_loop k pi addr (i + int (length bs)) (set_pipe pi q s)
      \<and> pipe_list q = pipe_list (pipes s pi) @ bs \<and> same_ends q (pipes s pi)"
  using assms
proof (induction bs arbitrary: i s)
  case Nil
  show ?case by (intro exI [of _ "pipes s pi"]) (simp add: same_ends_def)
next
  case (Cons b bs)
  let ?pt = "p_pagetable (proc s p)"
  have b: "ubyte (mem s) ?pt (addr + of_int i) = Some b" using Cons.prems(6) by (auto dest: spec [of _ 0])
  obtain d where c: "copyin ?pt (\<lambda>_. 0) 0 (addr + of_int i) 1 s = Ret (0, d) s" "d 0 = b"
    using copyin_spec [OF Cons.prems(4), of "\<lambda>_. 0" 0 "addr + of_int i" 1] b by auto
  let ?q = "pipe_put b (pipes s pi)"
  let ?s = "set_pipe pi ?q s"
  have room: "length (pipe_list (pipes s pi)) < PIPESIZE" using Cons.prems(5) by simp
  note put = pipe_put_list [OF room, of b]
  have step: "pipewrite_loop (Suc (length bs + k)) pi addr i s = pipewrite_loop (length bs + k) pi addr (i + 1) ?s"
    using Cons.prems(1-3) room c by (simp add: inside_myproc pipe_full_iff upd_pipe_eq pipe_put_def)
  have "\<exists>q. pipewrite_loop (length bs + k) pi addr (i + 1) ?s = pipewrite_loop k pi addr (i + 1 + int (length bs)) (set_pipe pi q ?s)
      \<and> pipe_list q = pipe_list (pipes ?s pi) @ bs \<and> same_ends q (pipes ?s pi)"
  proof (rule Cons.IH)
    show "\<forall>j<length bs. ubyte (mem ?s) (p_pagetable (proc ?s p)) (addr + of_int (i + 1) + of_nat j) = Some (bs ! j)"
      using Cons.prems(6) by (auto simp: algebra_simps dest: spec [of _ "Suc _"])
  qed (use Cons.prems(1-5) put in \<open>simp_all add: same_ends_def\<close>)
  then obtain q where "pipewrite_loop (length bs + k) pi addr (i + 1) ?s = pipewrite_loop k pi addr (i + 1 + int (length bs)) (set_pipe pi q s)"
      "pipe_list q = pipe_list ?q @ bs" "same_ends q ?q" by auto
  then show ?case using put step by (intro exI [of _ q]) (simp add: same_ends_def add.assoc del: pipewrite_loop.simps)
qed

text \<open>The user's memory after a byte at a time has been copied out\<close>

lemma next_byte:
  fixes a w :: uint64
  assumes "Suc m < 2 ^ 64"
  shows "(if unat (w - (a + 1)) < m then Some (L ! unat (w - (a + 1))) else if w = a then Some c else f) =
    (if unat (w - a) < Suc m then Some ((c # L) ! unat (w - a)) else f)"
proof (cases "w = a")
  case True
  have "w - (a + 1) = -1" using True by simp
  then have "unat (w - (a + 1)) = 2 ^ 64 - 1" by (simp add: unsigned_minus_1_eq_mask mask_eq_exp_minus_1)
  then show ?thesis using True assms by simp
next
  case False
  then have "w - a \<noteq> 0" by simp
  then have "unat (w - a) = Suc (unat (w - a - 1))" by (metis Suc_pred' One_nat_def unat_gt_0 unat_minus_one)
  also have "w - a - 1 = w - (a + 1)" by simp
  finally show ?thesis using False by simp
qed

lemma piperead_steps:
  assumes "inside p s" and "pt_ok 3 (mem s) (p_pagetable (proc s p))" and "m \<le> length (pipe_list (pipes s pi))"
    and "pipe_ok (pipes s pi)"
    and "\<forall>j<m. ubyte (mem s) (p_pagetable (proc s p)) (addr + of_int i + of_nat j) \<noteq> None"
  shows "\<exists>q M. piperead_copy (m + k) pi addr i s = piperead_copy k pi addr (i + int m) ((set_pipe pi q s)\<lparr>mem := M\<rparr>)
      \<and> pipe_list q = drop m (pipe_list (pipes s pi)) \<and> same_ends q (pipes s pi) \<and> pt_ok 3 M (p_pagetable (proc s p))
      \<and> (\<forall>w. ubyte M (p_pagetable (proc s p)) w =
           (let j = unat (w - (addr + of_int i)) in if j < m then Some (pipe_list (pipes s pi) ! j)
            else ubyte (mem s) (p_pagetable (proc s p)) w))"
  using assms
proof (induction m arbitrary: i s)
  case 0
  have "(set_pipe pi (pipes s pi) s)\<lparr>mem := mem s\<rparr> = s" by simp
  then show ?case using 0 by (intro exI [of _ "pipes s pi"] exI [of _ "mem s"]) (simp add: same_ends_def)
next
  case (Suc m)
  let ?pt = "p_pagetable (proc s p)" and ?a = "addr + of_int i" and ?P = "pipes s pi"
  let ?c = "pi_data ?P (unat (pi_nread ?P) mod PIPESIZE)" and ?q = "?P\<lparr>pi_nread := pi_nread ?P + 1\<rparr>"
  have ne: "pi_nread ?P \<noteq> pi_nwrite ?P" using Suc.prems(3) by (auto simp: pipe_empty_iff)
  note L = pipe_get_list [OF ne]
  have m: "Suc m < 2 ^ 64" using Suc.prems(3,4) by (simp add: pipe_ok_def PIPESIZE_def)
  have one: "unat (w - ?a) < unat (1 :: uint64) \<longleftrightarrow> w = ?a" for w by (simp add: unat_eq_0)
  have "ubyte (mem s) ?pt ?a \<noteq> None" using Suc.prems(5) by (auto dest: spec [of _ 0])
  then obtain M where M: "copyout ?pt ?a (\<lambda>_. ?c) 1 (set_pipe pi ?q s) = Ret 0 ((set_pipe pi ?q s)\<lparr>mem := M\<rparr>)" "pt_ok 3 M ?pt"
    "\<And>w. ubyte M ?pt w = (if w = ?a then Some ?c else ubyte (mem s) ?pt w)"
    using copyout_spec [of "set_pipe pi ?q s" ?pt ?a "\<lambda>_. ?c" 1] Suc.prems(2) unfolding one by auto
  let ?s = "(set_pipe pi ?q s)\<lparr>mem := M\<rparr>"
  have step: "piperead_copy (Suc (m + k)) pi addr i s = piperead_copy (m + k) pi addr (i + 1) ?s"
    using Suc.prems(1) ne M(1) by (simp add: inside_myproc upd_pipe_eq Let_def)
  have "\<exists>q N. piperead_copy (m + k) pi addr (i + 1) ?s = piperead_copy k pi addr (i + 1 + int m) ((set_pipe pi q ?s)\<lparr>mem := N\<rparr>)
      \<and> pipe_list q = drop m (pipe_list (pipes ?s pi)) \<and> same_ends q (pipes ?s pi) \<and> pt_ok 3 N (p_pagetable (proc ?s p))
      \<and> (\<forall>w. ubyte N (p_pagetable (proc ?s p)) w =
           (let j = unat (w - (addr + of_int (i + 1))) in if j < m then Some (pipe_list (pipes ?s pi) ! j)
            else ubyte (mem ?s) (p_pagetable (proc ?s p)) w))"
  proof (rule Suc.IH)
    show "\<forall>j<m. ubyte (mem ?s) (p_pagetable (proc ?s p)) (addr + of_int (i + 1) + of_nat j) \<noteq> None"
      using Suc.prems(5) M(3) by (auto simp: algebra_simps dest: spec [of _ "Suc _"])
  qed (use Suc.prems(1-4) M(2) L in \<open>simp_all add: inside_def pipe_ok_def\<close>)
  then obtain q N where "piperead_copy (m + k) pi addr (i + 1) ?s = piperead_copy k pi addr (i + 1 + int m) ((set_pipe pi q s)\<lparr>mem := N\<rparr>)"
    "pipe_list q = drop m (pipe_list ?q)" "same_ends q ?P" "pt_ok 3 N ?pt"
    "\<And>w. ubyte N ?pt w = (if unat (w - (?a + 1)) < m then Some (pipe_list ?q ! unat (w - (?a + 1)))
        else if w = ?a then Some ?c else ubyte (mem s) ?pt w)"
    by (auto simp: M(3) set_pipe_def same_ends_def Let_def algebra_simps)
  then show ?case using step L unfolding next_byte [OF m]
    by (intro exI [of _ q] exI [of _ N]) (simp add: add.assoc Let_def del: piperead_copy.simps)
qed

section \<open>The whole operations\<close>

abbreviation in_pipe :: "uint64 \<Rightarrow> 'a mach_scheme \<Rightarrow> 'a mach_scheme" where
  "in_pipe pi s \<equiv> s\<lparr>sie := (sie s)(hart s := False), cpus := enter_cpus (hart s) (sie s) (cpus s),
     locks := take_lock (Pipe_lock pi) (hart s) (locks s)\<rparr>"

definition wake_all :: "chan \<Rightarrow> 'a proc_state_scheme \<Rightarrow> nat \<Rightarrow> proc" where
  "wake_all ch s = wake_table ch (cur s) [0..<NPROC] (proc s)"

lemma pipe_enter:
  assumes "calm s" and "cur s = Some p"
  shows "acquire (Pipe_lock pi) s = Ret () (in_pipe pi s)" "inside p (in_pipe pi s)"
  using assms calmD [OF assms(1)] cpus_okD [OF calmD(1) [OF assms(1)]] by (simp_all add: acquire_free inside_def lock_simps)

lemma pipe_wake:
  assumes "calm s" and "u = (set_pipe pi q (in_pipe pi s))\<lparr>mem := M\<rparr>"
  shows "wakeup ch u = Ret () (u\<lparr>proc := wake_all ch s\<rparr>)"
  using calmD [OF assms(1)] cpus_okD [OF calmD(1) [OF assms(1)]] unfolding assms(2)
  by (simp add: wakeup_locked lock_simps settle_cpus_deep wake_all_def)

lemma pipe_leave:
  assumes "calm s" and "u = (set_pipe pi q (in_pipe pi s))\<lparr>mem := M, proc := P\<rparr>"
  shows "release (Pipe_lock pi) u = Ret () ((set_pipe pi q (settle s))\<lparr>mem := M, proc := P\<rparr>)"
  using calmD [OF assms(1)] unfolding assms(2) by (simp add: lock_simps set_pipe_def)

lemma pipe_finish:
  assumes "calm s" and "u = (set_pipe pi q (in_pipe pi s))\<lparr>mem := M\<rparr>"
  shows "res_bind (wakeup ch u) (\<lambda>_ s. res_bind (release (Pipe_lock pi) s) (\<lambda>_ s. Ret v s)) =
    Ret v ((set_pipe pi q (settle s))\<lparr>mem := M, proc := wake_all ch s\<rparr>)"
  using pipe_wake [OF assms, of ch] pipe_leave [OF assms(1) refl, where pi = pi and q = q and M = M and P = "wake_all ch s"]
  by (simp add: assms(2))

lemma pipe_done:
  assumes "calm s" and "t = (set_pipe pi q (settle s))\<lparr>mem := M, proc := P\<rparr>"
  shows "calm t"
  using assms by (simp add: calm_def lock_simps)

definition wakes :: "chan \<Rightarrow> 'a proc_state_scheme \<Rightarrow> 'a proc_state_scheme \<Rightarrow> bool" where
  "wakes ch s t \<longleftrightarrow> (\<forall>r<NPROC. cur s \<noteq> Some r \<and> p_state (proc s r) = SLEEPING \<and> p_chan (proc s r) = Some ch
     \<longrightarrow> p_state (proc t r) = RUNNABLE)"

definition waits :: "nat \<Rightarrow> chan \<Rightarrow> 'a proc_state_scheme \<Rightarrow> bool" where
  "waits p ch t \<longleftrightarrow> p_state (proc t p) = SLEEPING \<and> p_chan (proc t p) = Some ch"

lemma wake_all_wakes: "proc t = wake_all ch s \<Longrightarrow> wakes ch s t"
  by (auto simp: wakes_def wake_all_def wake_table_def woken_def)

lemma pipe_sleep:
  assumes "calm s" and "cur s = Some p" and "noff (cpus s (hart s)) = 0"
    and "u = (set_pipe pi q (in_pipe pi s))\<lparr>mem := M, proc := P\<rparr>"
  shows "\<exists>t. sleep ch (Pipe_lock pi) u = Sleeps t \<and> pipes t = (pipes s)(pi := q) \<and> waits p ch t
    \<and> (\<forall>r. r \<noteq> p \<longrightarrow> proc t r = P r)"
proof -
  have ms: "may_sleep p (Pipe_lock pi) u"
    using assms(2,3) calmD [OF assms(1)] unfolding assms(4) by (simp add: may_sleep_def lock_simps)
  let ?t = "u\<lparr>locks := drop_lock (Pipe_lock pi) (take_lock (Proc_lock p) (hart u) (locks u)),
       proc := (proc u)(p := (proc u p)\<lparr>p_chan := Some ch, p_state := SLEEPING\<rparr>)\<rparr>"
  have "pipes ?t = (pipes s)(pi := q)" "proc ?t = P(p := (P p)\<lparr>p_chan := Some ch, p_state := SLEEPING\<rparr>)"
    unfolding assms(4) by (simp_all add: set_pipe_def)
  then show ?thesis by (intro exI [of _ ?t] conjI, intro sleep_eq [OF ms]) (simp_all add: waits_def)
qed

lemma pipewrite_fits:
  assumes "calm s" and "cur s = Some p" and "pt_ok 2 (mem s) (p_pagetable (proc s p))" and "pi_readopen (pipes s pi)"
    and "p_killed (proc s p) = 0" and "length (pipe_list (pipes s pi)) + length bs \<le> PIPESIZE"
    and "\<forall>j<length bs. ubyte (mem s) (p_pagetable (proc s p)) (addr + of_nat j) = Some (bs ! j)"
  shows "\<exists>t. pipewrite pi addr (int (length bs)) s = Ret (int (length bs)) t \<and> pipe_list (pipes t pi) = pipe_list (pipes s pi) @ bs
    \<and> calm t \<and> wakes (Chan_nread pi) s t"
proof -
  note e = pipe_enter [OF assms(1,2), of pi]
  obtain q where q: "pipewrite_loop (length bs + 0) pi addr 0 (in_pipe pi s) =
      pipewrite_loop 0 pi addr (0 + int (length bs)) (set_pipe pi q (in_pipe pi s))"
    "pipe_list q = pipe_list (pipes s pi) @ bs"
    using pipewrite_steps [OF e(2), of pi bs addr 0 0] assms by auto
  let ?t = "(set_pipe pi q (settle s))\<lparr>mem := mem s, proc := wake_all (Chan_nread pi) s\<rparr>"
  have u: "set_pipe pi q (in_pipe pi s) = (set_pipe pi q (in_pipe pi s))\<lparr>mem := mem s\<rparr>" by (simp add: set_pipe_def)
  have "pipewrite pi addr (int (length bs)) s = Ret (int (length bs)) ?t"
    using q(1) pipe_finish [OF assms(1) u, of "Chan_nread pi" "int (length bs)"] by (simp add: pipewrite_def e(1) pipewrite_end_def)
  then show ?thesis
    using q(2) pipe_done [OF assms(1) refl] wake_all_wakes [of ?t] by (intro exI [of _ ?t]) simp
qed

lemma pipewrite_full:
  assumes "calm s" and "cur s = Some p" and "noff (cpus s (hart s)) = 0" and "pt_ok 2 (mem s) (p_pagetable (proc s p))"
    and "pi_readopen (pipes s pi)" and "p_killed (proc s p) = 0" and "pipe_ok (pipes s pi)"
    and "PIPESIZE < length (pipe_list (pipes s pi)) + length bs"
    and "\<forall>j<length bs. ubyte (mem s) (p_pagetable (proc s p)) (addr + of_nat j) = Some (bs ! j)"
  shows "\<exists>t. pipewrite pi addr (int (length bs)) s = Sleeps t
    \<and> pipe_list (pipes t pi) = pipe_list (pipes s pi) @ take (PIPESIZE - length (pipe_list (pipes s pi))) bs
    \<and> waits p (Chan_nwrite pi) t \<and> wakes (Chan_nread pi) s t"
proof -
  note e = pipe_enter [OF assms(1,2), of pi]
  let ?room = "PIPESIZE - length (pipe_list (pipes s pi))"
  define k where "k = length bs - ?room - 1"
  define B where "B = take ?room bs"
  have B: "length (pipe_list (pipes s pi)) + length B = PIPESIZE"
    "\<forall>j<length B. ubyte (mem s) (p_pagetable (proc s p)) (addr + of_int 0 + of_nat j) = Some (B ! j)"
    using assms(7-9) by (auto simp: B_def pipe_ok_def)
  have k: "length bs = length B + Suc k" using assms(7,8) by (auto simp: k_def B_def pipe_ok_def)
  obtain q where q: "pipewrite_loop (length B + Suc k) pi addr 0 (in_pipe pi s) =
      pipewrite_loop (Suc k) pi addr (0 + int (length B)) (set_pipe pi q (in_pipe pi s))"
    "pipe_list q = pipe_list (pipes s pi) @ B" "same_ends q (pipes s pi)"
    using pipewrite_steps [OF e(2), of pi B addr 0 "Suc k"] assms(4-6) B by (auto simp del: pipewrite_loop.simps)
  let ?u = "set_pipe pi q (in_pipe pi s)"
  have u: "?u = ?u\<lparr>mem := mem s\<rparr>" "?u\<lparr>proc := P\<rparr> = ?u\<lparr>mem := mem s, proc := P\<rparr>" for P by (simp_all add: set_pipe_def)
  have full: "length (pipe_list q) = PIPESIZE" using q(2) B(1) by simp
  obtain t where t: "sleep (Chan_nwrite pi) (Pipe_lock pi) (?u\<lparr>proc := wake_all (Chan_nread pi) s\<rparr>) = (Sleeps t :: (_, int) res)"
    "pipes t = (pipes s)(pi := q)" "waits p (Chan_nwrite pi) t" "\<forall>r. r \<noteq> p \<longrightarrow> proc t r = wake_all (Chan_nread pi) s r"
    using pipe_sleep [OF assms(1-3) u(2), of "Chan_nwrite pi" "wake_all (Chan_nread pi) s"] by auto
  have "pipewrite_loop (Suc k) pi addr (0 + int (length B)) (set_pipe pi q (in_pipe pi s)) = Sleeps t"
    using full assms(5,6) q(3) pipe_wake [OF assms(1) u(1), of "Chan_nread pi"] t(1)
    by (simp add: inside_myproc [of p] e(2) pipe_full_iff same_ends_def)
  then have "pipewrite_loop (length bs) pi addr 0 (in_pipe pi s) = Sleeps t" using q(1) k by (simp del: pipewrite_loop.simps)
  then have "pipewrite pi addr (int (length bs)) s = Sleeps t" by (simp add: pipewrite_def e(1))
  moreover have "wakes (Chan_nread pi) s t"
    using t(4) assms(2) by (auto simp: wakes_def wake_all_def wake_table_def woken_def)
  ultimately show ?thesis using t(2,3) q(2) by (auto simp: B_def)
qed

lemma piperead_empty:
  assumes "calm s" and "cur s = Some p" and "noff (cpus s (hart s)) = 0" and "p_killed (proc s p) = 0"
    and "pipe_list (pipes s pi) = []" and "pi_writeopen (pipes s pi)"
  shows "\<exists>t. piperead pi addr n s = Sleeps t \<and> pipes t = pipes s \<and> waits p (Chan_nread pi) t"
proof -
  note e = pipe_enter [OF assms(1,2), of pi]
  have u: "in_pipe pi s = (set_pipe pi (pipes s pi) (in_pipe pi s))\<lparr>mem := mem s, proc := proc s\<rparr>"
    by (simp add: set_pipe_def)
  obtain t where "sleep (Chan_nread pi) (Pipe_lock pi) (in_pipe pi s) = (Sleeps t :: (_, int) res)" "pipes t = (pipes s)(pi := pipes s pi)"
    "waits p (Chan_nread pi) t"
    using pipe_sleep [OF assms(1-3) u, of "Chan_nread pi"] by auto
  then show ?thesis
    using assms(4-6) by (simp add: piperead_def piperead_loop_def e inside_myproc [of p] pipe_empty_iff)
qed

lemma piperead_some:
  assumes "calm s" and "cur s = Some p" and "pt_ok 3 (mem s) (p_pagetable (proc s p))" and "pipe_ok (pipes s pi)"
    and "pipe_list (pipes s pi) \<noteq> [] \<or> \<not> pi_writeopen (pipes s pi)" and "m = min n (length (pipe_list (pipes s pi)))"
    and "\<forall>j<m. ubyte (mem s) (p_pagetable (proc s p)) (addr + of_nat j) \<noteq> None"
  shows "\<exists>t. piperead pi addr (int n) s = Ret (int m) t \<and> pipe_list (pipes t pi) = drop m (pipe_list (pipes s pi))
    \<and> calm t \<and> wakes (Chan_nwrite pi) s t
    \<and> (\<forall>w. ubyte (mem t) (p_pagetable (proc s p)) w = (if unat (w - addr) < m then Some (pipe_list (pipes s pi) ! unat (w - addr))
         else ubyte (mem s) (p_pagetable (proc s p)) w))"
proof -
  note e = pipe_enter [OF assms(1,2), of pi]
  have n: "n = m + (n - m)" using assms(6) by simp
  obtain q M where q: "piperead_copy (m + (n - m)) pi addr 0 (in_pipe pi s) =
      piperead_copy (n - m) pi addr (0 + int m) ((set_pipe pi q (in_pipe pi s))\<lparr>mem := M\<rparr>)"
    "pipe_list q = drop m (pipe_list (pipes s pi))"
    "\<forall>w. ubyte M (p_pagetable (proc s p)) w =
         (if unat (w - addr) < m then Some (pipe_list (pipes s pi) ! unat (w - addr)) else ubyte (mem s) (p_pagetable (proc s p)) w)"
    using piperead_steps [OF e(2), of m pi addr 0 "n - m"] assms by (auto simp: Let_def)
  let ?u = "(set_pipe pi q (in_pipe pi s))\<lparr>mem := M\<rparr>"
  let ?t = "(set_pipe pi q (settle s))\<lparr>mem := M, proc := wake_all (Chan_nwrite pi) s\<rparr>"
  have "n - m = 0 \<or> pipe_list q = []" using q(2) assms(6) by auto
  then have "piperead_copy (n - m) pi addr (int m) ?u = piperead_end pi (int m) ?u"
    by (cases "n - m") (auto simp: pipe_empty_iff)
  moreover have "piperead_end pi (int m) ?u = Ret (int m) ?t"
    using pipe_finish [OF assms(1) refl] by (simp add: piperead_end_def)
  moreover have "piperead pi addr (int n) s = piperead_copy n pi addr 0 (in_pipe pi s)"
    using assms(5) by (auto simp: piperead_def piperead_loop_def e pipe_empty_iff)
  ultimately have "piperead pi addr (int n) s = Ret (int m) ?t" using q(1) n by simp
  then show ?thesis
    using q(2,3) pipe_done [OF assms(1) refl] wake_all_wakes [of ?t] by (intro exI [of _ ?t]) simp
qed

text \<open>
  C13. Pipes are bounded first-in first-out queues of at most 512 bytes between user buffers,
  whatever the wrap-around of the 32-bit counters. A write that fits appends the bytes of the user's
  buffer and returns their number; one that does not fit fills the pipe and leaves the writer
  asleep until a reader makes room. A read takes the oldest bytes, at most as many as asked for, puts
  them into the user's buffer, changes no other byte of the user's memory and returns their number; it
  sleeps only while the pipe is empty and its write end open, and returns 0 when that end is closed.
  Each side makes the processes that sleep on the other side runnable.
\<close>

theorem pipe_refines_fifo:
  assumes "calm s" and "cur s = Some p" and "noff (cpus s (hart s)) = 0" and "p_killed (proc s p) = 0"
    and "pt = p_pagetable (proc s p)" and "pt_ok 3 (mem s) pt" and "pipe_ok (pipes s pi)" and "L = pipe_list (pipes s pi)"
  shows "(pi_readopen (pipes s pi) \<and> (\<forall>j<length bs. ubyte (mem s) pt (addr + of_nat j) = Some (bs ! j)) \<longrightarrow>
      (if length L + length bs \<le> PIPESIZE
       then \<exists>t. pipewrite pi addr (int (length bs)) s = Ret (int (length bs)) t \<and> pipe_list (pipes t pi) = L @ bs
              \<and> pipe_ok (pipes t pi) \<and> calm t \<and> wakes (Chan_nread pi) s t
       else \<exists>t. pipewrite pi addr (int (length bs)) s = Sleeps t \<and> pipe_list (pipes t pi) = L @ take (PIPESIZE - length L) bs
              \<and> pipe_ok (pipes t pi) \<and> waits p (Chan_nwrite pi) t \<and> wakes (Chan_nread pi) s t))
    \<and> (\<forall>m. m = min n (length L) \<and> (\<forall>j<m. ubyte (mem s) pt (addr + of_nat j) \<noteq> None) \<longrightarrow>
      (if L = [] \<and> pi_writeopen (pipes s pi)
       then \<exists>t. piperead pi addr (int n) s = Sleeps t \<and> pipes t = pipes s \<and> waits p (Chan_nread pi) t
       else \<exists>t. piperead pi addr (int n) s = Ret (int m) t \<and> pipe_list (pipes t pi) = drop m L
              \<and> pipe_ok (pipes t pi) \<and> calm t \<and> wakes (Chan_nwrite pi) s t
              \<and> (\<forall>w. ubyte (mem t) pt w = (if unat (w - addr) < m then Some (L ! unat (w - addr)) else ubyte (mem s) pt w))))"
proof (intro conjI impI allI, goal_cases)
  case 1
  have pt2: "pt_ok 2 (mem s) (p_pagetable (proc s p))" using pt_ok_mono [OF assms(6)] assms(5) by simp
  show ?case
  proof (cases "length L + length bs \<le> PIPESIZE")
    case True
    then show ?thesis using pipewrite_fits [OF assms(1,2) pt2 _ assms(4)] 1 assms(5,8) by (fastforce simp: pipe_ok_def)
  next
    case False
    then show ?thesis
      using pipewrite_full [OF assms(1-3) pt2 _ assms(4,7), of bs addr] 1 assms(5,7,8) by (fastforce simp: pipe_ok_def)
  qed
next
  case (2 m)
  have pt3: "pt_ok 3 (mem s) (p_pagetable (proc s p))" using assms(5,6) by simp
  show ?case
  proof (cases "L = [] \<and> pi_writeopen (pipes s pi)")
    case True
    then show ?thesis using piperead_empty [OF assms(1-4)] assms(8) by auto
  next
    case False
    then obtain t where t: "piperead pi addr (int n) s = Ret (int m) t" "pipe_list (pipes t pi) = drop m L" "calm t"
      "wakes (Chan_nwrite pi) s t"
      "\<forall>w. ubyte (mem t) pt w = (if unat (w - addr) < m then Some (L ! unat (w - addr)) else ubyte (mem s) pt w)"
      using piperead_some [OF assms(1,2) pt3 assms(7), of m n addr] 2 assms(5,8) by blast
    moreover have "pipe_ok (pipes t pi)" using t(2) assms(7,8) by (simp add: pipe_ok_def)
    ultimately show ?thesis using False by auto
  qed
qed

text \<open>A process with one page of memory, and a pipe that holds two bytes while its counters wrap around\<close>

definition demo_pipe :: file_state where
  "demo_pipe = demo_files\<lparr>mem := one_page_mem, proc := (\<lambda>_. no_proc)(1 := no_proc\<lparr>p_pagetable := 0x80021000\<rparr>),
     pipes := \<lambda>_. \<lparr>pi_data = (\<lambda>_. 0)(511 := 7, 0 := 8), pi_nread = 0xFFFFFFFF, pi_nwrite = 1, pi_readopen = True, pi_writeopen = True\<rparr>\<rparr>"

lemma demo_pipe_ok:
  "calm demo_pipe" "cur demo_pipe = Some 1" "noff (cpus demo_pipe (hart demo_pipe)) = 0" "p_killed (proc demo_pipe 1) = 0"
  "0x80021000 = p_pagetable (proc demo_pipe 1)" "pt_ok 3 (mem demo_pipe) 0x80021000" "pipe_ok (pipes demo_pipe 0x80030000)"
  "[7, 8] = pipe_list (pipes demo_pipe 0x80030000)"
proof -
  show "[7, 8] = pipe_list (pipes demo_pipe 0x80030000)"
    by (simp add: demo_pipe_def pipe_list_def ring_list_def PIPESIZE_def upt_rec)
  then show "pipe_ok (pipes demo_pipe 0x80030000)" by (simp add: pipe_ok_def PIPESIZE_def flip: \<open>[7, 8] = _\<close>)
  show "pt_ok 3 (mem demo_pipe) 0x80021000" using one_page_ok(1) by (simp add: demo_pipe_def)
qed (simp_all add: demo_pipe_def calm_def cpus_ok_def free_lock_def no_proc_def)

theorem pipe_refines_fifo_witness:
  "(\<exists>t c. pipewrite 0x80030000 0 1 demo_pipe = Ret 1 t \<and> pipe_list (pipes t 0x80030000) = [7, 8, c])
   \<and> (\<exists>t. piperead 0x80030000 0 5 demo_pipe = Ret 2 t \<and> pipe_list (pipes t 0x80030000) = []
        \<and> ubyte (mem t) 0x80021000 0 = Some 7 \<and> ubyte (mem t) 0x80021000 1 = Some 8)"
proof -
  have u: "ubyte (mem demo_pipe) 0x80021000 w \<noteq> None" if "w < 4096" for w
    using one_page_ubyte [OF that] by (simp add: demo_pipe_def one_page_def)
  obtain c where "ubyte (mem demo_pipe) 0x80021000 0 = Some c" using u [of 0] by auto
  moreover have "pi_readopen (pipes demo_pipe 0x80030000)" by (simp add: demo_pipe_def)
  moreover have "\<forall>j<2. ubyte (mem demo_pipe) 0x80021000 (of_nat j) \<noteq> None"
    using u [of 0] u [of 1] by (auto simp: less_2_cases_iff)
  ultimately show ?thesis
    using pipe_refines_fifo [OF demo_pipe_ok, of "[c]" 0 5] by (auto simp: PIPESIZE_def)
qed

end
