(* ===== verification/Sh.thy ===== *)
theory Sh
  imports Prelude
begin

text \<open>
  The command parser of the shell, \<open>user/sh.c\<close>. The line is a string without NUL, followed
  by a NUL; a \<open>char *\<close> into the buffer is an index, and the moving pointer \<open>*ps\<close> is the
  state that the parsing functions pass on. Commands are the tagged structs as a datatype; a
  word is the pair of pointers to its first character and past its last one.
\<close>

section \<open>Commands\<close>

type_synonym token = "nat \<times> nat"

datatype cmd =
    EXEC "token list"
  | REDIR cmd token int int
  | PIPE cmd cmd
  | LIST cmd cmd
  | BACK cmd

definition MAXARGS :: nat where "MAXARGS = 10"
definition O_RDONLY :: int where "O_RDONLY = 0x000"
definition O_WRONLY :: int where "O_WRONLY = 0x001"
definition O_CREATE :: int where "O_CREATE = 0x200"
definition O_TRUNC :: int where "O_TRUNC = 0x400"

definition execcmd :: cmd where "execcmd = EXEC []"

definition redircmd :: "cmd \<Rightarrow> nat \<Rightarrow> nat \<Rightarrow> int \<Rightarrow> int \<Rightarrow> cmd" where
  "redircmd subcmd file efile md fd = REDIR subcmd (file, efile) md fd"

definition pipecmd :: "cmd \<Rightarrow> cmd \<Rightarrow> cmd" where "pipecmd left right = PIPE left right"

definition listcmd :: "cmd \<Rightarrow> cmd \<Rightarrow> cmd" where "listcmd left right = LIST left right"

definition backcmd :: "cmd \<Rightarrow> cmd" where "backcmd subcmd = BACK subcmd"

text \<open>
  \<open>parseexec\<close> keeps a pointer to the \<open>execcmd\<close> inside the redirections it builds around
  it, and appends arguments there.
\<close>

primrec add_arg :: "token \<Rightarrow> cmd \<Rightarrow> cmd" where
  "add_arg t (EXEC args) = EXEC (args @ [t])"
| "add_arg t (REDIR c f md fd) = REDIR (add_arg t c) f md fd"
| "add_arg t (PIPE l r) = PIPE l r"
| "add_arg t (LIST l r) = LIST l r"
| "add_arg t (BACK c) = BACK c"

section \<open>Tokens\<close>

definition NUL :: char where "NUL = CHR 0x00"

definition at :: "string \<Rightarrow> nat \<Rightarrow> char" where
  "at s i = (if i < length s then s ! i else NUL)"

definition whitespace :: "char list" where
  "whitespace = [CHR '' '', CHR 0x09, CHR 0x0D, CHR 0x0A, CHR 0x0B]"

definition symbols :: "char list" where
  "symbols = ''<|>&;()''"

text \<open>\<open>strchr(str, c) != 0\<close>\<close>

definition strchr :: "char list \<Rightarrow> char \<Rightarrow> bool" where
  "strchr str c \<longleftrightarrow> c \<in> set str"

function skip_while :: "(char \<Rightarrow> bool) \<Rightarrow> string \<Rightarrow> nat \<Rightarrow> nat" where
  "skip_while P s i = (if i < length s \<and> P (at s i) then skip_while P s (i + 1) else i)"
  by pat_completeness auto
termination by (relation "measure (\<lambda>(P, s, i). length s - i)") auto

declare skip_while.simps [simp del]

abbreviation skip_space :: "string \<Rightarrow> nat \<Rightarrow> nat" where
  "skip_space \<equiv> skip_while (strchr whitespace)"

text \<open>\<open>gettoken\<close> returns the token's kind and its two pointers, with the position behind it.\<close>

definition gettoken :: "string \<Rightarrow> nat \<Rightarrow> (nat, char \<times> token) res" where
  "gettoken s i =
     (let q = skip_space s i;
          c = at s q;
          (ret, eq) =
            (if c = NUL then (c, q)
             else if c \<in> set ''|();&<'' then (c, q + 1)
             else if c = CHR ''>'' then
               (if at s (q + 1) = CHR ''>'' then (CHR ''+'', q + 2) else (c, q + 1))
             else (CHR ''a'', skip_while (\<lambda>c. \<not> strchr whitespace c \<and> \<not> strchr symbols c) s q))
      in Ret (ret, (q, eq)) (skip_space s eq))"

definition peek :: "string \<Rightarrow> char list \<Rightarrow> nat \<Rightarrow> (nat, bool) res" where
  "peek s toks i =
     (let i = skip_space s i
      in Ret (at s i \<noteq> NUL \<and> strchr toks (at s i)) i)"

section \<open>Progress of the scanner\<close>

lemma skip_while_ge: "i \<le> skip_while P s i"
  by (induction P s i rule: skip_while.induct) (subst skip_while.simps, auto)

lemma skip_while_le: "i \<le> length s \<Longrightarrow> skip_while P s i \<le> length s"
  by (induction P s i rule: skip_while.induct) (subst skip_while.simps, auto)

lemma skip_while_all: "i \<le> j \<Longrightarrow> j < skip_while P s i \<Longrightarrow> P (s ! j)"
proof (induction P s i rule: skip_while.induct)
  case (1 P s i)
  show ?case
  proof (cases "i < length s \<and> P (at s i)")
    case True
    then have "j < skip_while P s (i + 1)" using 1(3) by (simp add: skip_while.simps [of P s i])
    then show ?thesis using 1 True by (cases "i = j") (auto simp: at_def)
  next
    case False
    then show ?thesis using 1(2,3) by (auto simp: skip_while.simps [of P s i])
  qed
qed

lemma skip_while_stop: "skip_while P s i < length s \<Longrightarrow> \<not> P (s ! skip_while P s i)"
proof (induction P s i rule: skip_while.induct)
  case (1 P s i)
  then show ?case by (cases "i < length s \<and> P (at s i)") (auto simp: skip_while.simps [of P s i] at_def)
qed

lemma skip_while_step: "i < length s \<Longrightarrow> P (s ! i) \<Longrightarrow> i < skip_while P s i"
  using skip_while_ge [of "i + 1" P s] by (simp add: skip_while.simps [of P s i] at_def)

text \<open>Words contain neither blanks nor symbols.\<close>

definition wordchar :: "char \<Rightarrow> bool" where
  "wordchar c \<longleftrightarrow> \<not> strchr whitespace c \<and> \<not> strchr symbols c"

definition word_at :: "string \<Rightarrow> token \<Rightarrow> bool" where
  "word_at s t \<longleftrightarrow> fst t < snd t \<and> snd t \<le> length s \<and> (\<forall>i. fst t \<le> i \<and> i < snd t \<longrightarrow> wordchar (s ! i))
     \<and> (snd t < length s \<longrightarrow> \<not> wordchar (s ! snd t))"

lemma gettoken_Ret:
  assumes "gettoken s i = Ret (c, t) j" and "NUL \<notin> set s" and "i \<le> length s"
  shows "i \<le> j" "j \<le> length s" "c \<noteq> NUL \<Longrightarrow> i < j" "c = CHR ''a'' \<Longrightarrow> word_at s t"
proof -
  let ?q = "skip_space s i"
  let ?W = "\<lambda>c. \<not> strchr whitespace c \<and> \<not> strchr symbols c"
  let ?w = "skip_while ?W s ?q"
  have q: "i \<le> ?q" "?q \<le> length s" using skip_while_ge skip_while_le assms(3) by blast+
  have j: "j = skip_space s (snd t)"
    using assms(1) by (auto simp: gettoken_def Let_def split: if_splits)
  have e: "snd t \<le> length s \<and> ?q \<le> snd t \<and> (c \<noteq> NUL \<longrightarrow> ?q < snd t) \<and> (c = CHR ''a'' \<longrightarrow> word_at s t)"
  proof (cases "?q < length s")
    case False
    then show ?thesis using assms(1) q by (auto simp: gettoken_def Let_def at_def NUL_def)
  next
    case True
    then have c: "at s ?q = s ! ?q" "s ! ?q \<noteq> NUL" using assms(2) nth_mem by (fastforce simp: at_def)+
    have ws: "\<not> strchr whitespace (s ! ?q)" using skip_while_stop True by blast
    have w: "?q \<le> ?w" "?w \<le> length s" using skip_while_ge skip_while_le q by blast+
    show ?thesis
    proof (cases "s ! ?q \<in> set symbols")
      case sym: True
      have "at s (?q + 1) = CHR ''>'' \<Longrightarrow> ?q + 1 < length s" by (auto simp: at_def NUL_def split: if_splits)
      then show ?thesis using assms(1) sym True c by (auto simp: gettoken_def Let_def symbols_def split: if_splits)
    next
      case False
      then have "gettoken s i = Ret (CHR ''a'', (?q, ?w)) (skip_space s ?w)"
        using c by (auto simp: gettoken_def Let_def symbols_def)
      then have t: "t = (?q, ?w)" using assms(1) by simp
      have "?W (s ! ?q)" using ws False by (simp add: strchr_def)
      then have "?q < ?w" by (rule skip_while_step [OF True, where P = ?W])
      then have "word_at s t"
        using w skip_while_all [of ?q _ ?W s] skip_while_stop [of ?W s ?q] by (auto simp: t word_at_def wordchar_def)
      then show ?thesis using w \<open>?q < ?w\<close> t by simp
    qed
  qed
  then have "snd t \<le> j" "j \<le> length s" unfolding j using skip_while_ge skip_while_le by blast+
  then show "i \<le> j" "j \<le> length s" "c \<noteq> NUL \<Longrightarrow> i < j" "c = CHR ''a'' \<Longrightarrow> word_at s t" using e q by auto
qed

lemma peek_Ret:
  assumes "peek s toks i = Ret b j" and "i \<le> length s"
  shows "i \<le> j" "j \<le> length s" "b \<Longrightarrow> j < length s" "b \<Longrightarrow> strchr toks (s ! j)" "skip_space s j = j"
    "\<not> b \<Longrightarrow> j < length s \<Longrightarrow> NUL \<notin> set s \<Longrightarrow> \<not> strchr toks (s ! j)"
proof -
  have j: "j = skip_space s i" and b: "b \<longleftrightarrow> at s j \<noteq> NUL \<and> strchr toks (at s j)"
    using assms(1) by (auto simp: peek_def Let_def)
  show "i \<le> j" "j \<le> length s" unfolding j using skip_while_ge skip_while_le assms(2) by blast+
  show "b \<Longrightarrow> j < length s" "b \<Longrightarrow> strchr toks (s ! j)" using b by (auto simp: at_def split: if_splits)
  show "skip_space s j = j"
    using skip_while_stop [of "strchr whitespace" s i] by (subst skip_while.simps) (auto simp: j at_def)
  show "\<not> b \<Longrightarrow> j < length s \<Longrightarrow> NUL \<notin> set s \<Longrightarrow> \<not> strchr toks (s ! j)"
    using b nth_mem by (fastforce simp: at_def)
qed

section \<open>The parser\<close>

text \<open>
  The parsing functions recurse to a depth bounded by the length of the line; they take this
  bound as fuel, and \<open>parsecmd\<close> supplies enough of it.
\<close>

primrec parseredirs :: "nat \<Rightarrow> string \<Rightarrow> cmd \<Rightarrow> nat \<Rightarrow> (nat, cmd) res" where
  "parseredirs 0 s cmd i = OutOfFuel"
| "parseredirs (Suc n) s cmd i =
     res_bind (peek s ''<>'' i) (\<lambda>b i.
     if \<not> b then Ret cmd i
     else
       res_bind (gettoken s i) (\<lambda>(tok, _) i.
       res_bind (gettoken s i) (\<lambda>(c, (q, eq)) i.
       if c \<noteq> CHR ''a'' then Panic ''missing file for redirection''
       else
         parseredirs n s
           (if tok = CHR ''<'' then redircmd cmd q eq O_RDONLY 0
            else if tok = CHR ''>'' then redircmd cmd q eq (O_WRONLY OR O_CREATE OR O_TRUNC) 1
            else if tok = CHR ''+'' then redircmd cmd q eq (O_WRONLY OR O_CREATE) 1
            else cmd) i)))"

text \<open>The \<open>while\<close> loops of \<open>parseexec\<close> and \<open>parseline\<close>\<close>

primrec parseexec_loop :: "nat \<Rightarrow> string \<Rightarrow> nat \<Rightarrow> cmd \<Rightarrow> nat \<Rightarrow> (nat, cmd) res" where
  "parseexec_loop 0 s argc cmd i = OutOfFuel"
| "parseexec_loop (Suc n) s argc cmd i =
     res_bind (peek s ''|)&;'' i) (\<lambda>b i.
     if b then Ret cmd i
     else
       res_bind (gettoken s i) (\<lambda>(tok, t) i.
       if tok = NUL then Ret cmd i
       else if tok \<noteq> CHR ''a'' then Panic ''syntax''
       else if argc + 1 \<ge> MAXARGS then Panic ''too many args''
       else
         res_bind (parseredirs n s (add_arg t cmd) i) (\<lambda>cmd i.
         parseexec_loop n s (argc + 1) cmd i)))"

primrec parseline_loop :: "nat \<Rightarrow> string \<Rightarrow> cmd \<Rightarrow> nat \<Rightarrow> (nat, cmd) res" where
  "parseline_loop 0 s cmd i = OutOfFuel"
| "parseline_loop (Suc n) s cmd i =
     res_bind (peek s ''&'' i) (\<lambda>b i.
     if \<not> b then Ret cmd i
     else res_bind (gettoken s i) (\<lambda>_ i. parseline_loop n s (backcmd cmd) i))"

fun parseline :: "nat \<Rightarrow> string \<Rightarrow> nat \<Rightarrow> (nat, cmd) res"
  and parsepipe :: "nat \<Rightarrow> string \<Rightarrow> nat \<Rightarrow> (nat, cmd) res"
  and parseblock :: "nat \<Rightarrow> string \<Rightarrow> nat \<Rightarrow> (nat, cmd) res"
  and parseexec :: "nat \<Rightarrow> string \<Rightarrow> nat \<Rightarrow> (nat, cmd) res"
where
  "parseline 0 s i = OutOfFuel"
| "parseline (Suc n) s i =
     res_bind (parsepipe n s i) (\<lambda>cmd i.
     res_bind (parseline_loop n s cmd i) (\<lambda>cmd i.
     res_bind (peek s '';'' i) (\<lambda>b i.
     if \<not> b then Ret cmd i
     else
       res_bind (gettoken s i) (\<lambda>_ i.
       res_bind (parseline n s i) (\<lambda>right i.
       Ret (listcmd cmd right) i)))))"
| "parsepipe 0 s i = OutOfFuel"
| "parsepipe (Suc n) s i =
     res_bind (parseexec n s i) (\<lambda>cmd i.
     res_bind (peek s ''|'' i) (\<lambda>b i.
     if \<not> b then Ret cmd i
     else
       res_bind (gettoken s i) (\<lambda>_ i.
       res_bind (parsepipe n s i) (\<lambda>right i.
       Ret (pipecmd cmd right) i))))"
| "parseblock 0 s i = OutOfFuel"
| "parseblock (Suc n) s i =
     res_bind (peek s ''('' i) (\<lambda>b i.
     if \<not> b then Panic ''parseblock''
     else
       res_bind (gettoken s i) (\<lambda>_ i.
       res_bind (parseline n s i) (\<lambda>cmd i.
       res_bind (peek s '')'' i) (\<lambda>b i.
       if \<not> b then Panic ''syntax - missing )''
       else
         res_bind (gettoken s i) (\<lambda>_ i.
         parseredirs n s cmd i)))))"
| "parseexec 0 s i = OutOfFuel"
| "parseexec (Suc n) s i =
     res_bind (peek s ''('' i) (\<lambda>b i.
     if b then parseblock n s i
     else
       res_bind (parseredirs n s execcmd i) (\<lambda>ret i.
       parseexec_loop n s 0 ret i))"

text \<open>The buffer behind \<open>char *s\<close>, with its NUL, is a list; \<open>*p = 0\<close> updates it.\<close>

primrec nulterminate :: "cmd \<Rightarrow> string \<Rightarrow> string" where
  "nulterminate (EXEC args) b = foldl (\<lambda>b t. b[snd t := NUL]) b args"
| "nulterminate (REDIR c f md fd) b = (nulterminate c b)[snd f := NUL]"
| "nulterminate (PIPE l r) b = nulterminate r (nulterminate l b)"
| "nulterminate (LIST l r) b = nulterminate r (nulterminate l b)"
| "nulterminate (BACK c) b = nulterminate c b"

definition parse_fuel :: "string \<Rightarrow> nat" where
  "parse_fuel s = 5 * length s + 5"

definition parsecmd :: "string \<Rightarrow> (string, cmd) res" where
  "parsecmd s =
     (case res_bind (parseline (parse_fuel s) s 0) (\<lambda>cmd i. res_bind (peek s [] i) (\<lambda>_ i.
         if i \<noteq> length s then Panic ''syntax'' else Ret cmd i)) of
        Ret cmd i \<Rightarrow> Ret cmd (nulterminate cmd (s @ [NUL]))
      | Panic msg \<Rightarrow> Panic msg
      | _ \<Rightarrow> OutOfFuel)"

section \<open>Every call returns and builds a well-formed command\<close>

text \<open>All words of a command, and the bound on the arguments of a simple command\<close>

primrec words_of :: "cmd \<Rightarrow> token set" where
  "words_of (EXEC args) = set args"
| "words_of (REDIR c f md fd) = insert f (words_of c)"
| "words_of (PIPE l r) = words_of l \<union> words_of r"
| "words_of (LIST l r) = words_of l \<union> words_of r"
| "words_of (BACK c) = words_of c"

primrec args_fit :: "cmd \<Rightarrow> bool" where
  "args_fit (EXEC args) = (length args < MAXARGS)"
| "args_fit (REDIR c f md fd) = args_fit c"
| "args_fit (PIPE l r) = (args_fit l \<and> args_fit r)"
| "args_fit (LIST l r) = (args_fit l \<and> args_fit r)"
| "args_fit (BACK c) = args_fit c"

definition cmd_ok :: "string \<Rightarrow> cmd \<Rightarrow> bool" where
  "cmd_ok s c \<longleftrightarrow> (\<forall>t\<in>words_of c. word_at s t) \<and> args_fit c"

text \<open>The command under construction in \<open>parseexec\<close>: redirections around \<open>argc\<close> arguments\<close>

primrec exec_args :: "cmd \<Rightarrow> nat option" where
  "exec_args (EXEC args) = Some (length args)"
| "exec_args (REDIR c f md fd) = exec_args c"
| "exec_args (PIPE l r) = None"
| "exec_args (LIST l r) = None"
| "exec_args (BACK c) = None"

lemma cmd_ok_simps [simp]:
  "cmd_ok s (EXEC args) \<longleftrightarrow> (\<forall>t\<in>set args. word_at s t) \<and> length args < MAXARGS"
  "cmd_ok s (REDIR c f md fd) \<longleftrightarrow> word_at s f \<and> cmd_ok s c"
  "cmd_ok s (PIPE l r) \<longleftrightarrow> cmd_ok s l \<and> cmd_ok s r"
  "cmd_ok s (LIST l r) \<longleftrightarrow> cmd_ok s l \<and> cmd_ok s r"
  "cmd_ok s (BACK c) \<longleftrightarrow> cmd_ok s c"
  by (auto simp: cmd_ok_def)

lemma cmd_ok_add_arg:
  "cmd_ok s c \<Longrightarrow> word_at s t \<Longrightarrow> exec_args c = Some k \<Longrightarrow> k + 1 < MAXARGS \<Longrightarrow>
     cmd_ok s (add_arg t c) \<and> exec_args (add_arg t c) = Some (k + 1)"
  by (induction c) auto

text \<open>
  What a parsing function does from position \<open>i\<close>: it panics, or returns further right with
  a command that satisfies \<open>P\<close>.
\<close>

definition parses :: "string \<Rightarrow> nat \<Rightarrow> (cmd \<Rightarrow> bool) \<Rightarrow> (nat, cmd) res \<Rightarrow> bool" where
  "parses s i P r \<longleftrightarrow> (case r of Ret c j \<Rightarrow> i \<le> j \<and> j \<le> length s \<and> P c | Panic _ \<Rightarrow> True | _ \<Rightarrow> False)"

lemma parses_Panic [simp]: "parses s i P (Panic m)" and
  parses_Ret [simp]: "parses s i P (Ret c j) \<longleftrightarrow> i \<le> j \<and> j \<le> length s \<and> P c"
  by (simp_all add: parses_def)

lemma parses_bind:
  assumes "parses s i P r" and "\<And>c j. r = Ret c j \<Longrightarrow> i \<le> j \<Longrightarrow> j \<le> length s \<Longrightarrow> P c \<Longrightarrow> parses s i Q (f c j)"
  shows "parses s i Q (res_bind r f)"
  using assms by (cases r) (auto simp: parses_def)

lemma parses_weaken: "parses s j P r \<Longrightarrow> i \<le> j \<Longrightarrow> parses s i P r"
  by (auto simp: parses_def split: res.splits)

lemma parses_mono: "parses s i P r \<Longrightarrow> (\<And>c. P c \<Longrightarrow> Q c) \<Longrightarrow> parses s i Q r"
  by (auto simp: parses_def split: res.splits)

lemma parses_peek:
  assumes "i \<le> length s"
    and "\<And>b j. i \<le> j \<Longrightarrow> j \<le> length s \<Longrightarrow> (b \<Longrightarrow> j < length s \<and> strchr toks (s ! j)) \<Longrightarrow> skip_space s j = j \<Longrightarrow>
      parses s j Q (f b j)"
  shows "parses s i Q (res_bind (peek s toks i) f)"
proof -
  obtain b j where p: "peek s toks i = Ret b j" by (auto simp: peek_def Let_def)
  show ?thesis
    using assms(2) [of j b] peek_Ret [OF p assms(1)] by (auto simp: p intro: parses_weaken)
qed

lemma parses_gettoken:
  assumes "i \<le> length s" and "NUL \<notin> set s"
    and "\<And>c q eq j. i \<le> j \<Longrightarrow> j \<le> length s \<Longrightarrow> (c \<noteq> NUL \<Longrightarrow> i < j) \<Longrightarrow>
      (c = CHR ''a'' \<Longrightarrow> word_at s (q, eq)) \<Longrightarrow> (skip_space s i = i \<Longrightarrow> i < length s \<Longrightarrow> i < j) \<Longrightarrow> parses s j Q (f (c, (q, eq)) j)"
  shows "parses s i Q (res_bind (gettoken s i) f)"
proof -
  obtain r j where "gettoken s i = Ret r j" by (simp add: gettoken_def Let_def case_prod_unfold)
  then obtain c q eq where g: "gettoken s i = Ret (c, (q, eq)) j" by (cases r) auto
  note R = gettoken_Ret [OF g assms(2,1)]
  have "c \<noteq> NUL" if "skip_space s i = i" "i < length s"
  proof -
    have "at s i \<noteq> NUL" using that assms(2) nth_mem by (fastforce simp: at_def)
    then show ?thesis using g that by (auto simp: gettoken_def Let_def NUL_def split: if_splits)
  qed
  then have "parses s j Q (f (c, (q, eq)) j)" using R by (intro assms(3)) auto
  then show ?thesis using parses_weaken R(1) by (simp add: g)
qed

lemma parseredirs_parses:
  assumes "NUL \<notin> set s" and "i \<le> length s" and "length s - i < n" and "cmd_ok s c"
  shows "parses s i (\<lambda>c'. cmd_ok s c' \<and> exec_args c' = exec_args c) (parseredirs n s c i)"
  using assms(2-)
proof (induction n arbitrary: c i)
  case (Suc n)
  have more: "parses s k (\<lambda>c'. cmd_ok s c' \<and> exec_args c' = exec_args c) (parseredirs n s d k)"
    if "i < k" "k \<le> length s" "cmd_ok s d" "exec_args d = exec_args c" for k d
    using Suc.IH [of k d] that Suc.prems by simp
  show ?case
    unfolding parseredirs.simps
    apply (rule parses_peek [OF Suc.prems(1)])
    subgoal for b j
      apply (cases b)
       apply (simp only: not_True_eq_False if_False)
       apply (rule parses_gettoken [OF _ assms(1)], assumption)
      subgoal for tok q eq k
        apply (simp only: prod.case)
        apply (rule parses_gettoken [OF _ assms(1)], assumption)
        using Suc.prems by (auto simp: redircmd_def intro!: more)
      using Suc.prems by simp
    done
qed simp

lemma parseexec_loop_parses:
  assumes "NUL \<notin> set s" and "i \<le> length s" and "length s - i + 1 < n" and "cmd_ok s c" and "exec_args c = Some argc"
  shows "parses s i (cmd_ok s) (parseexec_loop n s argc c i)"
  using assms(2-)
proof (induction n arbitrary: c i argc)
  case (Suc n)
  have more: "parses s k (cmd_ok s) (res_bind (parseredirs n s (add_arg t c) k) (parseexec_loop n s (argc + 1)))"
    if "i < k" "k \<le> length s" "word_at s t" "argc + 1 < MAXARGS" for k t
  proof (rule parses_bind)
    have add: "cmd_ok s (add_arg t c)" "exec_args (add_arg t c) = Some (argc + 1)"
      using cmd_ok_add_arg that Suc.prems by auto
    show "parses s k (\<lambda>c'. cmd_ok s c' \<and> exec_args c' = Some (argc + 1)) (parseredirs n s (add_arg t c) k)"
      using that Suc.prems add parseredirs_parses [OF assms(1), of k n "add_arg t c"] by simp
    show "parses s k (cmd_ok s) (parseexec_loop n s (argc + 1) c' l)"
      if "k \<le> l" "l \<le> length s" "cmd_ok s c' \<and> exec_args c' = Some (argc + 1)" for c' l
      using that \<open>i < k\<close> Suc.prems by (intro parses_weaken [OF Suc.IH]) auto
  qed
  show ?case
    unfolding parseexec_loop.simps
    apply (rule parses_peek [OF Suc.prems(1)])
    subgoal for b j
      apply (cases b)
      using Suc.prems apply simp
      apply (simp only: if_False)
      apply (rule parses_gettoken [OF _ assms(1)], assumption)
      using Suc.prems by (auto intro!: more [simplified])
    done
qed simp

lemma parseline_loop_parses:
  assumes "NUL \<notin> set s" and "i \<le> length s" and "length s - i < n" and "cmd_ok s c"
  shows "parses s i (cmd_ok s) (parseline_loop n s c i)"
  using assms(2-)
proof (induction n arbitrary: c i)
  case (Suc n)
  have more: "parses s k (cmd_ok s) (parseline_loop n s d k)"
    if "i < k" "k \<le> length s" "cmd_ok s d" for k d
    using Suc.IH [of k d] that Suc.prems by simp
  show ?case
    unfolding parseline_loop.simps
    apply (rule parses_peek [OF Suc.prems(1)])
    subgoal for b j
      apply (cases b)
       apply (simp only: not_True_eq_False if_False)
       apply (rule parses_gettoken [OF _ assms(1)], assumption)
      using Suc.prems by (auto simp: backcmd_def intro!: more)
    done
qed simp

text \<open>
  The four mutually recursive functions. Every round trip through all of them consumes a
  character.
\<close>

lemma parser_parses:
  assumes "NUL \<notin> set s"
  shows "(\<forall>i. i \<le> length s \<longrightarrow> 5 * (length s - i) + 5 \<le> n \<longrightarrow> parses s i (cmd_ok s) (parseline n s i)) \<and>
    (\<forall>i. i \<le> length s \<longrightarrow> 5 * (length s - i) + 4 \<le> n \<longrightarrow> parses s i (cmd_ok s) (parsepipe n s i)) \<and>
    (\<forall>i. i < length s \<longrightarrow> skip_space s i = i \<longrightarrow> 5 * (length s - i) + 2 \<le> n \<longrightarrow> parses s i (cmd_ok s) (parseblock n s i)) \<and>
    (\<forall>i. i \<le> length s \<longrightarrow> 5 * (length s - i) + 3 \<le> n \<longrightarrow> parses s i (cmd_ok s) (parseexec n s i))"
proof (induction n)
  case (Suc n)
  note token = parses_gettoken [OF _ assms]
  have line: "parses s i (cmd_ok s) (parseline n s i)" if "i \<le> length s" "5 * (length s - i) + 5 \<le> n" for i
    using Suc that by blast
  have pipe: "parses s i (cmd_ok s) (parsepipe n s i)" if "i \<le> length s" "5 * (length s - i) + 4 \<le> n" for i
    using Suc that by blast
  have "parses s i (cmd_ok s) (parseline (Suc n) s i)" if i: "i \<le> length s" "5 * (length s - i) + 5 \<le> Suc n" for i
    unfolding parseline.simps
    apply (rule parses_bind [OF pipe]; (use i in simp)?)
    subgoal for c j
      apply (rule parses_bind [of s _ "cmd_ok s", OF parses_weaken [OF parseline_loop_parses [OF assms]]]; (use i in simp)?)
      subgoal for c' k
        apply (rule parses_weaken [of s k], rule parses_peek, assumption)
        subgoal for b l
          apply (cases b; simp)
          apply (rule token, simp)
          apply (rule parses_bind [OF line])
          using i by (auto simp: listcmd_def)
        by simp
      done
    done
  moreover have "parses s i (cmd_ok s) (parsepipe (Suc n) s i)" if i: "i \<le> length s" "5 * (length s - i) + 4 \<le> Suc n" for i
    unfolding parsepipe.simps
    apply (rule parses_bind [where P = "cmd_ok s"])
    using Suc i apply simp
    subgoal for c j
      apply (rule parses_weaken [of s j], rule parses_peek, assumption)
      subgoal for b l
        apply (cases b; simp)
        apply (rule token, simp)
        apply (rule parses_bind [OF pipe])
        using i by (auto simp: pipecmd_def)
      by simp
    done
  moreover have "parses s i (cmd_ok s) (parseexec (Suc n) s i)" if i: "i \<le> length s" "5 * (length s - i) + 3 \<le> Suc n" for i
    unfolding parseexec.simps
    apply (rule parses_peek [OF i(1)])
    subgoal for b j
      apply (cases b)
      using Suc i apply simp
      apply (simp only: if_False)
      apply (rule parses_bind [OF parseredirs_parses [OF assms]]; (use i in \<open>simp add: execcmd_def MAXARGS_def\<close>)?)
      using i by (auto intro!: parses_weaken [OF parseexec_loop_parses [OF assms]])
    done
  moreover have "parses s i (cmd_ok s) (parseblock (Suc n) s i)"
    if i: "i < length s" "skip_space s i = i" "5 * (length s - i) + 2 \<le> Suc n" for i
    unfolding parseblock.simps
    apply (rule parses_peek, use i in simp)
    subgoal for b j
      apply (cases b; simp)
      apply (rule token, simp)
      subgoal for c q eq k
        apply (rule parses_bind [OF line]; (use i in simp)?)
        subgoal for c' l
          apply (rule parses_weaken [of s l], rule parses_peek, assumption)
          subgoal for b m
            apply (cases b; simp)
            apply (rule token, simp)
            subgoal for c'' q' eq' p
              using i by (intro parses_mono [OF parseredirs_parses [OF assms]]) auto
            done
          by simp
        done
      done
    done
  ultimately show ?case by blast
qed simp

section \<open>The strings the shell executes\<close>

text \<open>The C string at an index of the buffer, and the characters between two pointers\<close>

definition cstr :: "string \<Rightarrow> nat \<Rightarrow> string" where
  "cstr b q = takeWhile (\<lambda>c. c \<noteq> NUL) (drop q b)"

definition substr :: "string \<Rightarrow> token \<Rightarrow> string" where
  "substr s t = take (snd t - fst t) (drop (fst t) s)"

lemma foldl_terminate:
  "length (foldl (\<lambda>b t. b[snd t := NUL]) b ts) = length b \<and>
   (k < length b \<longrightarrow> foldl (\<lambda>b t. b[snd t := NUL]) b ts ! k = (if k \<in> snd ` set ts then NUL else b ! k))"
  by (induction ts arbitrary: b) (auto simp: nth_list_update)

lemma nulterminate_nth:
  "length (nulterminate c b) = length b \<and>
   (k < length b \<longrightarrow> nulterminate c b ! k = (if k \<in> snd ` words_of c then NUL else b ! k))"
proof -
  have upd: "j < length xs \<Longrightarrow> xs[i := NUL] ! j = (if i = j then NUL else xs ! j)" for xs :: string and i j by auto
  show ?thesis by (induction c arbitrary: b) (simp_all add: foldl_terminate upd image_Un)
qed

lemma cstr_nulterminate:
  assumes "\<forall>t\<in>words_of c. word_at s t" and "NUL \<notin> set s" and "t \<in> words_of c"
  shows "cstr (nulterminate c (s @ [NUL])) (fst t) = substr s t"
proof -
  let ?b = "nulterminate c (s @ [NUL])"
  have t: "fst t < snd t" "snd t \<le> length s" using assms by (auto simp: word_at_def)
  have len: "length ?b = length s + 1" using nulterminate_nth by simp
  have inner: "?b ! k = s ! k \<and> ?b ! k \<noteq> NUL" if "fst t \<le> k" "k < snd t" for k
  proof -
    have "wordchar (s ! k)" using assms that by (auto simp: word_at_def)
    then have "k \<notin> snd ` words_of c" using assms(1) that t by (fastforce simp: word_at_def)
    moreover have "s ! k \<noteq> NUL" using that t assms(2) by (metis less_le_trans nth_mem)
    ultimately show ?thesis using nulterminate_nth [of c "s @ [NUL]" k] assms(2) that t
      by (auto simp: nth_append)
  qed
  have stop: "?b ! snd t = NUL" using nulterminate_nth [of c "s @ [NUL]" "snd t"] t assms(3) by auto
  have ls: "length (substr s t) = snd t - fst t" using t by (simp add: substr_def)
  have b: "drop (fst t) ?b = substr s t @ NUL # drop (Suc (snd t)) ?b"
  proof (rule nth_equalityI)
    show "length (drop (fst t) ?b) = length (substr s t @ NUL # drop (Suc (snd t)) ?b)"
      using t len by (simp add: ls)
  next
    fix k assume "k < length (drop (fst t) ?b)"
    then show "drop (fst t) ?b ! k = (substr s t @ NUL # drop (Suc (snd t)) ?b) ! k"
      using t len inner [of "fst t + k"] stop
      by (cases k "snd t - fst t" rule: linorder_cases) (auto simp: nth_append nth_Cons' ls substr_def add.commute)
  qed
  have "\<forall>c\<in>set (substr s t). c \<noteq> NUL" using assms(2) by (auto simp: substr_def dest!: in_set_takeD in_set_dropD)
  then show ?thesis by (simp add: cstr_def b takeWhile_tail)
qed

lemma parsecmd_cases:
  assumes "NUL \<notin> set s"
  shows "(\<exists>c. parsecmd s = Ret c (nulterminate c (s @ [NUL])) \<and> cmd_ok s c) \<or> (\<exists>m. parsecmd s = Panic m)"
proof -
  have "parses s 0 (cmd_ok s) (parseline (parse_fuel s) s 0)"
    using parser_parses [OF assms, of "parse_fuel s"] by (simp add: parse_fuel_def)
  then show ?thesis
    by (auto simp: parsecmd_def parses_def peek_def Let_def split: res.splits)
qed

text \<open>
  C23. Parsing a line always ends: the shell gets a command, or it reports a syntax error; the
  recursion is bounded by the length of the line. No simple command has \<open>MAXARGS\<close> or more
  words, so that the terminating null pointers of \<open>argv\<close> and \<open>eargv\<close> are inside the arrays.
\<close>

theorem parsecmd_returns:
  assumes "NUL \<notin> set s"
  shows "(\<exists>c b. parsecmd s = Ret c b \<and> args_fit c) \<or> (\<exists>m. parsecmd s = Panic m)"
  using parsecmd_cases [OF assms] by (auto simp: cmd_ok_def)

theorem parsecmd_returns_witness:
  "(\<exists>c b. parsecmd ''a | (b; c) > d &'' = Ret c b \<and> args_fit c) \<or> (\<exists>m. parsecmd ''a | (b; c) > d &'' = Panic m)"
  by (rule parsecmd_returns) (simp add: NUL_def)

text \<open>
  C11. After parsing, every word of the command (argument or file name) is a C string of the
  buffer that consists of exactly the characters the scanner took for the word: it is not
  empty, and it has no blank and no operator. The zero bytes that \<open>nulterminate\<close> writes
  behind the words never cut another word.
\<close>

theorem parsecmd_words:
  assumes "NUL \<notin> set s" and "parsecmd s = Ret c b" and "t \<in> words_of c"
  shows "cstr b (fst t) = substr s t \<and> substr s t \<noteq> [] \<and> (\<forall>x\<in>set (substr s t). wordchar x)"
proof -
  have c: "cmd_ok s c" "b = nulterminate c (s @ [NUL])" using parsecmd_cases [OF assms(1)] assms(2) by auto
  then have w: "word_at s t" using assms(3) by (simp add: cmd_ok_def)
  then have "\<forall>x\<in>set (substr s t). wordchar x"
    by (auto simp: word_at_def substr_def in_set_conv_nth)
  moreover have "substr s t \<noteq> []" using w by (auto simp: substr_def word_at_def)
  ultimately show ?thesis using c cstr_nulterminate [OF _ assms(1,3)] by (simp add: cmd_ok_def)
qed

lemma parsecmd_example:
  "parsecmd ''ls>f|wc &'' =
     Ret (BACK (PIPE (REDIR (EXEC [(0, 2)]) (3, 4) 1537 1) (EXEC [(5, 7)])))
         ([CHR ''l'', CHR ''s'', NUL, CHR ''f'', NUL, CHR ''w'', CHR ''c'', NUL, CHR ''&'', NUL])"
  by code_simp

theorem parsecmd_words_witness:
  "\<exists>c b. parsecmd ''ls>f|wc &'' = Ret c b \<and> cstr b 3 = ''f''"
  using parsecmd_words [OF _ parsecmd_example, of "(3, 4)"] parsecmd_example
  by (simp add: NUL_def substr_def)

end
