(* ===== verification/User.thy ===== *)
theory User
  imports Fs
begin

text \<open>
  User programs as trees of system calls. A program either exits or makes a call and goes on
  with its result; \<open>fork\<close> is a call that returns in two processes, so the same tree
  describes parent and child. Loops whose length depends on the results of calls take fuel, and
  \<open>Fuel\<close> marks where it ran out; a program that runs forever is described by its trees for
  all amounts of fuel. This theory holds the library \<open>user/ulib.c\<close> and the small programs.
\<close>

section \<open>Programs\<close>

type_synonym bstr = "byte list"

datatype req =
    Fork | Wait | Pipe | Sleep int | Kill int | Dup int | Close int | Fstat int
  | Read int nat | Write int bstr | Exec bstr "bstr list" | Open bstr int | Mknod bstr int int
  | Unlink bstr | Link bstr bstr | Mkdir bstr | Chdir bstr

text \<open>What a call returns: its value, and what it stored through pointers\<close>

record resp =
  r_val :: int
  r_data :: bstr
  r_fds :: "int \<times> int"
  r_stat :: stat

datatype prog = Exit int | Call req "resp \<Rightarrow> prog" | Fuel

text \<open>The bytes that a \<open>read\<close> has put into the buffer\<close>

definition got :: "resp \<Rightarrow> bstr" where
  "got r = take (nat (r_val r)) (r_data r)"

definition puts :: "int \<Rightarrow> bstr \<Rightarrow> prog \<Rightarrow> prog" where
  "puts fd bs k = foldr (\<lambda>c k. Call (Write fd [c]) (\<lambda>_. k)) bs k"

definition ufprintf :: "int \<Rightarrow> string \<Rightarrow> va list \<Rightarrow> prog \<Rightarrow> prog" where
  "ufprintf fd fmt ap k = puts fd (fprintf (bytes fmt) ap) k"

definition uprintf :: "string \<Rightarrow> va list \<Rightarrow> prog \<Rightarrow> prog" where
  "uprintf fmt ap k = ufprintf 1 fmt ap k"

section \<open>Library\<close>

text \<open>
  Functions on strings without system calls. A \<open>char *\<close> is an array that is read from
  index 0 on; a terminated string is the list of the characters in front of its 0.
\<close>

primrec ustrcpy_loop :: "nat \<Rightarrow> nat \<Rightarrow> cptr \<Rightarrow> cptr \<Rightarrow> cptr" where
  "ustrcpy_loop 0 i s t = s"
| "ustrcpy_loop (Suc n) i s t = (if t i = 0 then s(i := 0) else ustrcpy_loop n (i + 1) (s(i := t i)) t)"

definition ustrcpy :: "cptr \<Rightarrow> bstr \<Rightarrow> cptr" where
  "ustrcpy s t = ustrcpy_loop (length t + 1) 0 s (arr t)"

fun strcmp :: "bstr \<Rightarrow> bstr \<Rightarrow> int" where
  "strcmp (p # ps) (q # qs) = (if p = q then strcmp ps qs else int (unat p) - int (unat q))"
| "strcmp (p # ps) [] = int (unat p)"
| "strcmp [] (q # qs) = - int (unat q)"
| "strcmp [] [] = 0"

text \<open>\<open>strlen\<close> has the same loop as the kernel's.\<close>

definition ustrlen :: "cptr \<Rightarrow> nat option" where
  "ustrlen s = strlen_from s 0"

definition umemset :: "cptr \<Rightarrow> byte \<Rightarrow> uint \<Rightarrow> cptr" where
  "umemset dst c n = write_at dst 0 (replicate (unat n) c)"

text \<open>\<open>strchr\<close>: the rest of the string from the first \<open>c\<close> on\<close>

primrec ustrchr :: "bstr \<Rightarrow> byte \<Rightarrow> bstr option" where
  "ustrchr [] c = None"
| "ustrchr (x # s) c = (if x = c then Some (x # s) else ustrchr s c)"

primrec gets_loop :: "nat \<Rightarrow> bstr \<Rightarrow> (bstr \<Rightarrow> prog) \<Rightarrow> prog" where
  "gets_loop 0 buf k = k buf"
| "gets_loop (Suc n) buf k =
     Call (Read 0 1) (\<lambda>r.
       if r_val r < 1 then k buf
       else
         let c = hd (r_data r);
             buf = buf @ [c]
         in if c = 10 \<or> c = 13 then k buf else gets_loop n buf k)"

text \<open>\<open>gets\<close> passes on the characters it stored in front of the terminating 0.\<close>

definition gets :: "int \<Rightarrow> (bstr \<Rightarrow> prog) \<Rightarrow> prog" where
  "gets mx k = gets_loop (nat (mx - 1)) [] k"

definition ustat :: "bstr \<Rightarrow> (int \<Rightarrow> stat \<Rightarrow> prog) \<Rightarrow> prog" where
  "ustat n k =
     Call (Open n 0) (\<lambda>r.
       if r_val r < 0 then k (-1) (r_stat r)
       else
         let fd = r_val r in
         Call (Fstat fd) (\<lambda>f. Call (Close fd) (\<lambda>_. k (r_val f) (r_stat f))))"

primrec atoi_loop :: "bstr \<Rightarrow> 32 word \<Rightarrow> 32 word" where
  "atoi_loop [] n = n"
| "atoi_loop (c # s) n = (if 48 \<le> c \<and> c \<le> 57 then atoi_loop s (n * 10 + ucast c - 48) else n)"

definition atoi :: "bstr \<Rightarrow> 32 word" where
  "atoi s = atoi_loop s 0"

text \<open>The two loops of \<open>memmove\<close> on one array, with \<open>n\<close> bytes to go\<close>

primrec umove_up :: "nat \<Rightarrow> nat \<Rightarrow> nat \<Rightarrow> cptr \<Rightarrow> cptr" where
  "umove_up 0 dst src m = m"
| "umove_up (Suc n) dst src m = umove_up n (dst + 1) (src + 1) (m(dst := m src))"

primrec umove_down :: "nat \<Rightarrow> nat \<Rightarrow> nat \<Rightarrow> cptr \<Rightarrow> cptr" where
  "umove_down 0 dst src m = m"
| "umove_down (Suc n) dst src m = umove_down n dst src (m(dst + n := m (src + n)))"

definition umemmove :: "nat \<Rightarrow> nat \<Rightarrow> int \<Rightarrow> cptr \<Rightarrow> cptr" where
  "umemmove dst src n m = (if src > dst then umove_up (nat n) dst src m else umove_down (nat n) dst src m)"

primrec umemcmp_loop :: "nat \<Rightarrow> cptr \<Rightarrow> cptr \<Rightarrow> nat \<Rightarrow> int" where
  "umemcmp_loop 0 p1 p2 i = 0"
| "umemcmp_loop (Suc n) p1 p2 i =
     (if p1 i \<noteq> p2 i then int (unat (p1 i)) - int (unat (p2 i)) else umemcmp_loop n p1 p2 (i + 1))"

definition umemcmp :: "cptr \<Rightarrow> cptr \<Rightarrow> uint \<Rightarrow> int" where
  "umemcmp s1 s2 n = umemcmp_loop (unat n) s1 s2 0"

definition umemcpy :: "nat \<Rightarrow> nat \<Rightarrow> uint \<Rightarrow> cptr \<Rightarrow> cptr" where
  "umemcpy dst src n m = umemmove dst src (sint n) m"

section \<open>cat\<close>

primrec cat :: "nat \<Rightarrow> int \<Rightarrow> prog \<Rightarrow> prog" where
  "cat 0 fd k = Fuel"
| "cat (Suc f) fd k =
     Call (Read fd 512) (\<lambda>r.
       if 0 < r_val r then
         Call (Write 1 (got r)) (\<lambda>w.
           if r_val w \<noteq> r_val r then ufprintf 2 (''cat: write error'' @ [CHR 0x0A]) [] (Exit 1)
           else cat f fd k)
       else if r_val r < 0 then ufprintf 2 (''cat: read error'' @ [CHR 0x0A]) [] (Exit 1)
       else k)"

primrec cat_files :: "nat \<Rightarrow> bstr list \<Rightarrow> prog" where
  "cat_files f [] = Exit 0"
| "cat_files f (a # argv) =
     Call (Open a 0) (\<lambda>r.
       if r_val r < 0 then ufprintf 2 (''cat: cannot open %s'' @ [CHR 0x0A]) [VStr (Some a)] (Exit 1)
       else cat f (r_val r) (Call (Close (r_val r)) (\<lambda>_. cat_files f argv)))"

definition cat_main :: "nat \<Rightarrow> bstr list \<Rightarrow> prog" where
  "cat_main f argv = (if length argv \<le> 1 then cat f 0 (Exit 0) else cat_files f (tl argv))"

section \<open>echo, kill, ln, mkdir, rm, zombie\<close>

primrec echo_args :: "bstr list \<Rightarrow> prog" where
  "echo_args [] = Exit 0"
| "echo_args (a # argv) =
     Call (Write 1 a) (\<lambda>_. Call (Write 1 (if argv \<noteq> [] then [32] else [10])) (\<lambda>_. echo_args argv))"

definition echo_main :: "bstr list \<Rightarrow> prog" where
  "echo_main argv = echo_args (tl argv)"

definition kill_main :: "bstr list \<Rightarrow> prog" where
  "kill_main argv =
     (if length argv < 2 then ufprintf 2 (''usage: kill pid...'' @ [CHR 0x0A]) [] (Exit 1)
      else foldr (\<lambda>a k. Call (Kill (sint (atoi a))) (\<lambda>_. k)) (tl argv) (Exit 0))"

definition ln_main :: "bstr list \<Rightarrow> prog" where
  "ln_main argv =
     (if length argv \<noteq> 3 then ufprintf 2 (''Usage: ln old new'' @ [CHR 0x0A]) [] (Exit 1)
      else
        Call (Link (argv ! 1) (argv ! 2)) (\<lambda>r.
          if r_val r < 0
          then ufprintf 2 (''link %s %s: failed'' @ [CHR 0x0A]) [VStr (Some (argv ! 1)), VStr (Some (argv ! 2))] (Exit 0)
          else Exit 0))"

primrec mkdir_args :: "bstr list \<Rightarrow> prog" where
  "mkdir_args [] = Exit 0"
| "mkdir_args (a # argv) =
     Call (Mkdir a) (\<lambda>r.
       if r_val r < 0 then ufprintf 2 (''mkdir: %s failed to create'' @ [CHR 0x0A]) [VStr (Some a)] (Exit 0)
       else mkdir_args argv)"

definition mkdir_main :: "bstr list \<Rightarrow> prog" where
  "mkdir_main argv =
     (if length argv < 2 then ufprintf 2 (''Usage: mkdir files...'' @ [CHR 0x0A]) [] (Exit 1)
      else mkdir_args (tl argv))"

primrec rm_args :: "bstr list \<Rightarrow> prog" where
  "rm_args [] = Exit 0"
| "rm_args (a # argv) =
     Call (Unlink a) (\<lambda>r.
       if r_val r < 0 then ufprintf 2 (''rm: %s failed to delete'' @ [CHR 0x0A]) [VStr (Some a)] (Exit 0)
       else rm_args argv)"

definition rm_main :: "bstr list \<Rightarrow> prog" where
  "rm_main argv =
     (if length argv < 2 then ufprintf 2 (''Usage: rm files...'' @ [CHR 0x0A]) [] (Exit 1)
      else rm_args (tl argv))"

definition zombie_main :: prog where
  "zombie_main = Call Fork (\<lambda>r. if r_val r > 0 then Call (Sleep 5) (\<lambda>_. Exit 0) else Exit 0)"

section \<open>wc\<close>

text \<open>Lines, words, characters, and whether the last character was part of a word\<close>

type_synonym counts = "uint \<times> uint \<times> uint \<times> bool"

definition wc_byte :: "byte \<Rightarrow> counts \<Rightarrow> counts" where
  "wc_byte b x =
     (case x of (l, w, c, inword) \<Rightarrow>
        let c = c + 1;
            l = (if b = 10 then l + 1 else l)
        in if ustrchr [32, 13, 9, 10, 11] b \<noteq> None then (l, w, c, False)
           else if \<not> inword then (l, w + 1, c, True) else (l, w, c, inword))"

primrec wc :: "nat \<Rightarrow> int \<Rightarrow> bstr \<Rightarrow> counts \<Rightarrow> prog \<Rightarrow> prog" where
  "wc 0 fd name x k = Fuel"
| "wc (Suc f) fd name x k =
     Call (Read fd 512) (\<lambda>r.
       if 0 < r_val r then wc f fd name (fold wc_byte (got r) x) k
       else if r_val r < 0 then uprintf (''wc: read error'' @ [CHR 0x0A]) [] (Exit 1)
       else
         case x of (l, w, c, _) \<Rightarrow>
           uprintf (''%d %d %d %s'' @ [CHR 0x0A]) [VInt l, VInt w, VInt c, VStr (Some name)] k)"

primrec wc_files :: "nat \<Rightarrow> bstr list \<Rightarrow> prog" where
  "wc_files f [] = Exit 0"
| "wc_files f (a # argv) =
     Call (Open a 0) (\<lambda>r.
       if r_val r < 0 then uprintf (''wc: cannot open %s'' @ [CHR 0x0A]) [VStr (Some a)] (Exit 1)
       else wc f (r_val r) a (0, 0, 0, False) (Call (Close (r_val r)) (\<lambda>_. wc_files f argv)))"

definition wc_main :: "nat \<Rightarrow> bstr list \<Rightarrow> prog" where
  "wc_main f argv =
     (if length argv \<le> 1 then wc f 0 [] (0, 0, 0, False) (Exit 0) else wc_files f (tl argv))"

section \<open>ls\<close>

definition fmtname :: "bstr \<Rightarrow> bstr" where
  "fmtname path =
     (let p = rev (takeWhile (\<lambda>c. c \<noteq> 47) (rev path))
      in if length p \<ge> DIRSIZ then p else p @ replicate (DIRSIZ - length p) 32)"

text \<open>The line for one file; \<open>fsize\<close> is the conversion used for the size.\<close>

definition ls_line :: "string \<Rightarrow> bstr \<Rightarrow> stat \<Rightarrow> prog \<Rightarrow> prog" where
  "ls_line fsize path st k =
     uprintf (''%s %d %d '' @ fsize @ [CHR 0x0A])
       [VStr (Some (fmtname path)), VInt (scast (st_type st)), VInt (st_ino st),
        if fsize = ''%l'' then VPtr (st_size st) else VInt (ucast (st_size st))] k"

primrec ls_dir :: "nat \<Rightarrow> int \<Rightarrow> bstr \<Rightarrow> prog \<Rightarrow> prog" where
  "ls_dir 0 fd path k = Fuel"
| "ls_dir (Suc f) fd path k =
     Call (Read fd dirent_size) (\<lambda>r.
       if r_val r \<noteq> int dirent_size then k
       else if take 2 (got r) = [0, 0] then ls_dir f fd path k
       else
         let buf = path @ [47] @ takeWhile (\<lambda>c. c \<noteq> 0) (take DIRSIZ (drop dirent_name (got r))) in
         ustat buf (\<lambda>v st.
           if v < 0 then uprintf (''ls: cannot stat %s'' @ [CHR 0x0A]) [VStr (Some buf)] (ls_dir f fd path k)
           else ls_line ''%d'' buf st (ls_dir f fd path k)))"

definition ls :: "nat \<Rightarrow> bstr \<Rightarrow> prog \<Rightarrow> prog" where
  "ls f path k =
     Call (Open path 0) (\<lambda>r.
       if r_val r < 0 then ufprintf 2 (''ls: cannot open %s'' @ [CHR 0x0A]) [VStr (Some path)] k
       else
         let fd = r_val r in
         Call (Fstat fd) (\<lambda>r.
           if r_val r < 0 then
             ufprintf 2 (''ls: cannot stat %s'' @ [CHR 0x0A]) [VStr (Some path)] (Call (Close fd) (\<lambda>_. k))
           else
             let st = r_stat r; fin = Call (Close fd) (\<lambda>_. k) in
             if st_type st = T_FILE then ls_line ''%l'' path st fin
             else if st_type st = T_DIR then
               (if length path + 1 + DIRSIZ + 1 > 512 then uprintf (''ls: path too long'' @ [CHR 0x0A]) [] fin
                else ls_dir f fd path fin)
             else fin))"

definition ls_main :: "nat \<Rightarrow> bstr list \<Rightarrow> prog" where
  "ls_main f argv =
     (if length argv < 2 then ls f [46] (Exit 0) else foldr (\<lambda>a k. ls f a k) (tl argv) (Exit 0))"

section \<open>init\<close>

primrec init_wait :: "nat \<Rightarrow> int \<Rightarrow> prog \<Rightarrow> prog" where
  "init_wait 0 pid k = Fuel"
| "init_wait (Suc f) pid k =
     Call Wait (\<lambda>r.
       if r_val r = pid then k
       else if r_val r < 0 then uprintf (''init: wait returned an error'' @ [CHR 0x0A]) [] (Exit 1)
       else init_wait f pid k)"

primrec init_loop :: "nat \<Rightarrow> nat \<Rightarrow> prog" where
  "init_loop 0 f = Fuel"
| "init_loop (Suc n) f =
     uprintf (''init: starting sh'' @ [CHR 0x0A]) [] (Call Fork (\<lambda>r.
       if r_val r < 0 then uprintf (''init: fork failed'' @ [CHR 0x0A]) [] (Exit 1)
       else if r_val r = 0 then
         Call (Exec (bytes ''sh'') [bytes ''sh'']) (\<lambda>_.
           uprintf (''init: exec sh failed'' @ [CHR 0x0A]) [] (Exit 1))
       else init_wait f (r_val r) (init_loop n f)))"

definition init_main :: "nat \<Rightarrow> nat \<Rightarrow> prog" where
  "init_main n f =
     (let go = Call (Dup 0) (\<lambda>_. Call (Dup 0) (\<lambda>_. init_loop n f)) in
      Call (Open (bytes ''console'') 2) (\<lambda>r.
        if r_val r < 0 then
          Call (Mknod (bytes ''console'') 1 0) (\<lambda>_. Call (Open (bytes ''console'') 2) (\<lambda>_. go))
        else go))"

section \<open>Test programs\<close>

text \<open>\<open>forktest\<close>: it forks until \<open>fork\<close> fails and then waits for all the children.\<close>

definition print :: "string \<Rightarrow> prog \<Rightarrow> prog" where
  "print s k = Call (Write 1 (bytes s)) (\<lambda>_. k)"

definition FORKTEST_N :: nat where "FORKTEST_N = 1000"

primrec forktest_forks :: "nat \<Rightarrow> nat \<Rightarrow> (nat \<Rightarrow> prog) \<Rightarrow> prog" where
  "forktest_forks 0 n k = k n"
| "forktest_forks (Suc f) n k =
     Call Fork (\<lambda>r.
       if r_val r < 0 then k n
       else if r_val r = 0 then Exit 0
       else forktest_forks f (n + 1) k)"

primrec forktest_waits :: "nat \<Rightarrow> prog \<Rightarrow> prog" where
  "forktest_waits 0 k = k"
| "forktest_waits (Suc n) k =
     Call Wait (\<lambda>r.
       if r_val r < 0 then print (''wait stopped early'' @ [CHR 0x0A]) (Exit 1)
       else forktest_waits n k)"

definition forktest :: "prog \<Rightarrow> prog" where
  "forktest k =
     print (''fork test'' @ [CHR 0x0A])
       (forktest_forks FORKTEST_N 0 (\<lambda>n.
          if n = FORKTEST_N then print (''fork claimed to work N times!'' @ [CHR 0x0A]) (Exit 1)
          else
            forktest_waits n
              (Call Wait (\<lambda>r.
                 if r_val r \<noteq> -1 then print (''wait got too many'' @ [CHR 0x0A]) (Exit 1)
                 else print (''fork test OK'' @ [CHR 0x0A]) k))))"

definition forktest_main :: prog where
  "forktest_main = forktest (Exit 0)"

text \<open>\<open>stressfs\<close>: five processes write and read a file each.\<close>

primrec stressfs_forks :: "nat \<Rightarrow> nat \<Rightarrow> (nat \<Rightarrow> prog) \<Rightarrow> prog" where
  "stressfs_forks 0 i k = k i"
| "stressfs_forks (Suc n) i k = Call Fork (\<lambda>r. if r_val r > 0 then k i else stressfs_forks n (i + 1) k)"

definition stressfs_main :: prog where
  "stressfs_main =
     uprintf (''stressfs starting'' @ [CHR 0x0A]) []
       (stressfs_forks 4 0 (\<lambda>i.
          uprintf (''write %d'' @ [CHR 0x0A]) [VInt (of_nat i)]
            (let path = bytes ''stressfs'' @ [48 + of_nat i] in
             Call (Open path 0x202) (\<lambda>r.
             foldr (\<lambda>_ k. Call (Write (r_val r) (replicate 512 97)) (\<lambda>_. k)) [0..<20]
               (Call (Close (r_val r)) (\<lambda>_.
                uprintf (''read'' @ [CHR 0x0A]) []
                  (Call (Open path 0) (\<lambda>r.
                   foldr (\<lambda>_ k. Call (Read (r_val r) 512) (\<lambda>_. k)) [0..<20]
                     (Call (Close (r_val r)) (\<lambda>_. Call Wait (\<lambda>_. Exit 0)))))))))))"

end
