(* ===== verification/Sh_Run.thy ===== *)
theory Sh_Run
  imports Sh User
begin

text \<open>
  The shell around its parser, \<open>user/sh.c\<close>: running a parsed command, reading a line, and
  the main loop, as programs in the sense of theory \<open>User\<close>. The words of a command are read
  from the buffer in which \<open>nulterminate\<close> has put their ends.
\<close>

definition sh_panic :: "string \<Rightarrow> prog" where
  "sh_panic s = ufprintf 2 (''%s'' @ [CHR 0x0A]) [VStr (Some (bytes s))] (Exit 1)"

definition fork1 :: "(int \<Rightarrow> prog) \<Rightarrow> prog" where
  "fork1 k = Call Fork (\<lambda>r. if r_val r = -1 then sh_panic ''fork'' else k (r_val r))"

definition word :: "string \<Rightarrow> token \<Rightarrow> bstr" where
  "word b t = bytes (Sh.cstr b (fst t))"

text \<open>The child's end of a pipe: \<open>p\<close> becomes descriptor \<open>fd\<close>.\<close>

definition pipe_end :: "int \<Rightarrow> int \<Rightarrow> int \<times> int \<Rightarrow> prog \<Rightarrow> prog" where
  "pipe_end fd p ps k =
     Call (Close fd) (\<lambda>_. Call (Dup p) (\<lambda>_. Call (Close (fst ps)) (\<lambda>_. Call (Close (snd ps)) (\<lambda>_. k))))"

primrec runcmd :: "string \<Rightarrow> cmd \<Rightarrow> prog" where
  "runcmd b (EXEC args) =
     (if args = [] then Exit 1
      else
        Call (Exec (word b (hd args)) (map (word b) args)) (\<lambda>_.
          ufprintf 2 (''exec %s failed'' @ [CHR 0x0A]) [VStr (Some (word b (hd args)))] (Exit 0)))"
| "runcmd b (REDIR c f md fd) =
     Call (Close fd) (\<lambda>_. Call (Open (word b f) md) (\<lambda>r.
       if r_val r < 0 then ufprintf 2 (''open %s failed'' @ [CHR 0x0A]) [VStr (Some (word b f))] (Exit 1)
       else runcmd b c))"
| "runcmd b (LIST l r) =
     fork1 (\<lambda>pid. if pid = 0 then runcmd b l else Call Wait (\<lambda>_. runcmd b r))"
| "runcmd b (PIPE l r) =
     Call Pipe (\<lambda>q.
       if r_val q < 0 then sh_panic ''pipe''
       else
         let p = r_fds q in
         fork1 (\<lambda>pid.
           if pid = 0 then pipe_end 1 (snd p) p (runcmd b l)
           else
             fork1 (\<lambda>pid.
               if pid = 0 then pipe_end 0 (fst p) p (runcmd b r)
               else
                 Call (Close (fst p)) (\<lambda>_. Call (Close (snd p)) (\<lambda>_.
                   Call Wait (\<lambda>_. Call Wait (\<lambda>_. Exit 0)))))))"
| "runcmd b (BACK c) = fork1 (\<lambda>pid. if pid = 0 then runcmd b c else Exit 0)"

text \<open>\<open>getcmd\<close> passes on the line, or \<open>None\<close> at the end of the input.\<close>

definition getcmd :: "int \<Rightarrow> (bstr option \<Rightarrow> prog) \<Rightarrow> prog" where
  "getcmd nbuf k =
     ufprintf 2 ''$ '' [] (gets nbuf (\<lambda>buf.
       let s = takeWhile (\<lambda>c. c \<noteq> 0) buf in
       if s = [] then k None else k (Some s)))"

definition run_line :: "bstr \<Rightarrow> prog" where
  "run_line s =
     (case parsecmd (map (\<lambda>b. char_of (unat b)) s) of
        Ret c b \<Rightarrow> runcmd b c
      | Panic msg \<Rightarrow> sh_panic msg
      | _ \<Rightarrow> Fuel)"

primrec sh_loop :: "nat \<Rightarrow> prog" where
  "sh_loop 0 = Fuel"
| "sh_loop (Suc n) =
     getcmd 100 (\<lambda>line.
       case line of None \<Rightarrow> Exit 0
       | Some s \<Rightarrow>
           if take 3 s = bytes ''cd '' then
             let dir = drop 3 (butlast s) in
             Call (Chdir dir) (\<lambda>r.
               if r_val r < 0 then ufprintf 2 (''cannot cd %s'' @ [CHR 0x0A]) [VStr (Some dir)] (sh_loop n)
               else sh_loop n)
           else fork1 (\<lambda>pid. if pid = 0 then run_line s else Call Wait (\<lambda>_. sh_loop n)))"

primrec sh_open :: "nat \<Rightarrow> prog \<Rightarrow> prog" where
  "sh_open 0 k = Fuel"
| "sh_open (Suc n) k =
     Call (Open (bytes ''console'') 2) (\<lambda>r.
       if r_val r < 0 then k
       else if r_val r \<ge> 3 then Call (Close (r_val r)) (\<lambda>_. k)
       else sh_open n k)"

definition sh_main :: "nat \<Rightarrow> prog" where
  "sh_main n = sh_open n (sh_loop n)"

end
