(* ===== verification/Trap.thy ===== *)
theory Trap
  imports Sysfile
begin

text \<open>
  Traps and interrupts, \<open>kernel/trap.c\<close>, \<open>kernel/plic.c\<close> and the control registers of
  \<open>kernel/riscv.h\<close>; the system calls on processes, \<open>kernel/sysproc.c\<close>; and the dispatch
  of system calls in \<open>kernel/syscall.c\<close>.
\<close>

section \<open>State\<close>

text \<open>
  The control registers of each hart. Two of them are kept elsewhere: \<open>satp\<close> with the page
  tables, and bit \<open>SIE\<close> of \<open>sstatus\<close> with the spin locks.
\<close>

datatype csr =
    Mstatus | Mepc | Sstatus | Sip | Sie | Mie | Sepc | Medeleg | Mideleg | Stvec | Mtvec | Sscratch
  | Mscratch | Scause | Stval

text \<open>
  \<open>plic_regs\<close> holds what the kernel has written to the interrupt controller and
  \<open>plic_irqs\<close> the interrupts that the controller will answer to the next claims of each
  hart. The addresses of assembly code come from the linker.
\<close>

record trap_state = file_state +
  ticks :: uint
  csrs :: "nat \<Rightarrow> csr \<Rightarrow> uint64"
  plic_regs :: "uint64 \<Rightarrow> uint"
  plic_irqs :: "nat \<Rightarrow> uint list"
  forkret_first :: bool
  kernelvec_addr :: uint64
  uservec_addr :: uint64
  userret_addr :: uint64
  usertrap_addr :: uint64

definition r_csr :: "csr \<Rightarrow> 'a trap_state_scheme \<Rightarrow> uint64" where
  "r_csr c s = csrs s (hart s) c"

definition set_csr :: "nat \<Rightarrow> csr \<Rightarrow> uint64 \<Rightarrow> 'a trap_state_scheme \<Rightarrow> 'a trap_state_scheme" where
  "set_csr h c v s = s\<lparr>csrs := (csrs s)(h := (csrs s h)(c := v))\<rparr>"

definition w_csr :: "csr \<Rightarrow> uint64 \<Rightarrow> 'a trap_state_scheme \<Rightarrow> 'a trap_state_scheme" where
  "w_csr c v s = set_csr (hart s) c v s"

section \<open>Control registers\<close>

definition SSTATUS_SPP :: uint64 where "SSTATUS_SPP = push_bit 8 1"
definition SSTATUS_SPIE :: uint64 where "SSTATUS_SPIE = push_bit 5 1"
definition SSTATUS_SIE :: uint64 where "SSTATUS_SIE = push_bit 1 1"

definition r_sstatus :: "'a trap_state_scheme \<Rightarrow> uint64" where
  "r_sstatus s = (if sie s (hart s) then r_csr Sstatus s OR SSTATUS_SIE else r_csr Sstatus s AND NOT SSTATUS_SIE)"

definition w_sstatus :: "uint64 \<Rightarrow> 'a trap_state_scheme \<Rightarrow> 'a trap_state_scheme" where
  "w_sstatus x s = (w_csr Sstatus x s)\<lparr>sie := (sie s)(hart s := (x AND SSTATUS_SIE \<noteq> 0))\<rparr>"

definition r_sip :: "'a trap_state_scheme \<Rightarrow> uint64" where "r_sip s = r_csr Sip s"
definition w_sip :: "uint64 \<Rightarrow> 'a trap_state_scheme \<Rightarrow> 'a trap_state_scheme" where "w_sip x s = w_csr Sip x s"
definition w_sepc :: "uint64 \<Rightarrow> 'a trap_state_scheme \<Rightarrow> 'a trap_state_scheme" where "w_sepc x s = w_csr Sepc x s"
definition r_sepc :: "'a trap_state_scheme \<Rightarrow> uint64" where "r_sepc s = r_csr Sepc s"
definition w_stvec :: "uint64 \<Rightarrow> 'a trap_state_scheme \<Rightarrow> 'a trap_state_scheme" where "w_stvec x s = w_csr Stvec x s"
definition r_scause :: "'a trap_state_scheme \<Rightarrow> uint64" where "r_scause s = r_csr Scause s"
definition r_stval :: "'a trap_state_scheme \<Rightarrow> uint64" where "r_stval s = r_csr Stval s"
definition r_satp :: "'a vm_state_scheme \<Rightarrow> uint64" where "r_satp s = satp s (hart s)"
definition w_satp :: "uint64 \<Rightarrow> 'a vm_state_scheme \<Rightarrow> 'a vm_state_scheme" where "w_satp x s = s\<lparr>satp := (satp s)(hart s := x)\<rparr>"
definition r_tp :: "'a mach_scheme \<Rightarrow> uint64" where "r_tp s = of_nat (hart s)"

section \<open>Interrupt controller\<close>

definition UART0_IRQ :: nat where "UART0_IRQ = 10"
definition VIRTIO0_IRQ :: nat where "VIRTIO0_IRQ = 1"

definition PLIC_SENABLE :: "nat \<Rightarrow> uint64" where "PLIC_SENABLE h = PLIC + 0x2080 + of_nat h * 0x100"
definition PLIC_SPRIORITY :: "nat \<Rightarrow> uint64" where "PLIC_SPRIORITY h = PLIC + 0x201000 + of_nat h * 0x2000"
definition PLIC_SCLAIM :: "nat \<Rightarrow> uint64" where "PLIC_SCLAIM h = PLIC + 0x201004 + of_nat h * 0x2000"

definition plic_write :: "uint64 \<Rightarrow> uint \<Rightarrow> 'a trap_state_scheme \<Rightarrow> 'a trap_state_scheme" where
  "plic_write a v s = s\<lparr>plic_regs := (plic_regs s)(a := v)\<rparr>"

definition plicinit :: "'a trap_state_scheme \<Rightarrow> 'a trap_state_scheme" where
  "plicinit s =
     (let s = plic_write (PLIC + of_nat (UART0_IRQ * 4)) 1 s
      in plic_write (PLIC + of_nat (VIRTIO0_IRQ * 4)) 1 s)"

definition plicinithart :: "'a trap_state_scheme \<Rightarrow> 'a trap_state_scheme" where
  "plicinithart s =
     (let h = cpuid s;
          s = plic_write (PLIC_SENABLE h) (push_bit UART0_IRQ 1 OR push_bit VIRTIO0_IRQ 1) s
      in plic_write (PLIC_SPRIORITY h) 0 s)"

text \<open>The claim register reads 0 when no interrupt is pending.\<close>

definition plic_claim :: "'a trap_state_scheme \<Rightarrow> uint \<times> 'a trap_state_scheme" where
  "plic_claim s =
     (let h = cpuid s in
      case plic_irqs s h of
        [] \<Rightarrow> (0, s)
      | irq # irqs \<Rightarrow> (irq, s\<lparr>plic_irqs := (plic_irqs s)(h := irqs)\<rparr>))"

definition plic_complete :: "uint \<Rightarrow> 'a trap_state_scheme \<Rightarrow> 'a trap_state_scheme" where
  "plic_complete irq s = plic_write (PLIC_SCLAIM (cpuid s)) irq s"

section \<open>Device interrupts\<close>

definition trapinit :: "'a trap_state_scheme \<Rightarrow> 'a trap_state_scheme" where
  "trapinit s = initlock Tickslock ''time'' s"

definition trapinithart :: "'a trap_state_scheme \<Rightarrow> 'a trap_state_scheme" where
  "trapinithart s = w_stvec (kernelvec_addr s) s"

definition clockintr :: "'a trap_state_scheme \<Rightarrow> ('a trap_state_scheme, unit) res" where
  "clockintr s =
     res_bind (acquire Tickslock s) (\<lambda>_ s.
     res_bind (wakeup Chan_ticks (s\<lparr>ticks := ticks s + 1\<rparr>)) (\<lambda>_ s.
     release Tickslock s))"

definition devintr :: "'a trap_state_scheme \<Rightarrow> ('a trap_state_scheme, nat) res" where
  "devintr s =
     (let scause = r_scause s in
      if scause AND 0x8000000000000000 \<noteq> 0 \<and> scause AND 0xff = 9 then
        case plic_claim s of (irq, s) \<Rightarrow>
          res_bind
            (if irq = of_nat UART0_IRQ then uartintr s
             else if irq = of_nat VIRTIO0_IRQ then virtio_disk_intr s
             else if irq \<noteq> 0 then printf (bytes ''unexpected interrupt irq=%d'' @ [10]) [VInt irq] s
             else Ret () s) (\<lambda>_ s.
          Ret 1 (if irq \<noteq> 0 then plic_complete irq s else s))
      else if scause = 0x8000000000000001 then
        res_bind (if cpuid s = 0 then clockintr s else Ret () s) (\<lambda>_ s.
        Ret 2 (w_sip (r_sip s AND NOT 2) s))
      else Ret 0 s)"

section \<open>System calls on processes\<close>

definition sys_exit :: "'a trap_state_scheme \<Rightarrow> ('a trap_state_scheme, uint64) res" where
  "sys_exit s = res_bind (argint 0 s) (\<lambda>n s. exit n s)"

definition sys_getpid :: "'a trap_state_scheme \<Rightarrow> ('a trap_state_scheme, uint64) res" where
  "sys_getpid s = res_bind (myproc s) (\<lambda>cur s. Ret (scast (p_pid (proc s (the cur)))) s)"

definition sys_fork :: "'a trap_state_scheme \<Rightarrow> ('a trap_state_scheme, uint64) res" where
  "sys_fork s = res_bind (fork s) (\<lambda>r s. Ret (of_int r) s)"

definition sys_wait :: "'a trap_state_scheme \<Rightarrow> ('a trap_state_scheme, uint64) res" where
  "sys_wait s =
     res_bind (argaddr 0 s) (\<lambda>p s.
     res_bind (wait p s) (\<lambda>r s. Ret (of_int r) s))"

text \<open>The old size is kept in an \<open>int\<close> and sign-extended when it is returned.\<close>

definition sys_sbrk :: "'a trap_state_scheme \<Rightarrow> ('a trap_state_scheme, uint64) res" where
  "sys_sbrk s =
     res_bind (argint 0 s) (\<lambda>n s.
     res_bind (myproc s) (\<lambda>cur s.
     let addr = (ucast (p_sz (proc s (the cur))) :: 32 word) in
     res_bind (growproc n s) (\<lambda>r s.
     Ret (if r < 0 then -1 else scast addr) s)))"

text \<open>
  The loop of \<open>sys_sleep\<close>. The comparison is of unsigned numbers: \<open>n\<close> is converted.
\<close>

definition sys_sleep_loop :: "32 word \<Rightarrow> uint \<Rightarrow> 'a trap_state_scheme \<Rightarrow> ('a trap_state_scheme, uint64) res" where
  "sys_sleep_loop n ticks0 s =
     (if ticks s - ticks0 < n then
        res_bind (myproc s) (\<lambda>cur s.
        if p_killed (proc s (the cur)) \<noteq> 0 then res_bind (release Tickslock s) (\<lambda>_ s. Ret (-1) s)
        else sleep Chan_ticks Tickslock s)
      else res_bind (release Tickslock s) (\<lambda>_ s. Ret 0 s))"

definition sys_sleep :: "'a trap_state_scheme \<Rightarrow> ('a trap_state_scheme, uint64) res" where
  "sys_sleep s =
     res_bind (argint 0 s) (\<lambda>n s.
     res_bind (acquire Tickslock s) (\<lambda>_ s.
     sys_sleep_loop n (ticks s) s))"

definition sys_sleep_back :: "bool \<Rightarrow> nat \<Rightarrow> 32 word \<Rightarrow> uint \<Rightarrow> 'a trap_state_scheme \<Rightarrow> ('a trap_state_scheme, uint64) res" where
  "sys_sleep_back ie p n ticks0 s =
     res_bind (sleep_back ie p Tickslock s) (\<lambda>_ s. sys_sleep_loop n ticks0 s)"

definition sys_kill :: "'a trap_state_scheme \<Rightarrow> ('a trap_state_scheme, uint64) res" where
  "sys_kill s =
     res_bind (argint 0 s) (\<lambda>pid s.
     res_bind (kill pid s) (\<lambda>r s. Ret (of_int r) s))"

definition sys_uptime :: "'a trap_state_scheme \<Rightarrow> ('a trap_state_scheme, uint64) res" where
  "sys_uptime s =
     res_bind (acquire Tickslock s) (\<lambda>_ s.
     let xticks = ticks s in
     res_bind (release Tickslock s) (\<lambda>_ s. Ret (ucast xticks) s))"

section \<open>Dispatch\<close>

text \<open>\<open>syscalls[]\<close>, indexed by the numbers of \<open>kernel/syscall.h\<close>\<close>

definition syscalls :: "cptr \<Rightarrow> ('a trap_state_scheme \<Rightarrow> ('a trap_state_scheme, uint64) res) option list" where
  "syscalls junk =
     [None, Some sys_fork, Some sys_exit, Some sys_wait, Some sys_pipe, Some sys_read, Some sys_kill,
      Some sys_exec, Some (sys_fstat junk), Some sys_chdir, Some sys_dup, Some sys_getpid, Some sys_sbrk,
      Some sys_sleep, Some sys_uptime, Some sys_open, Some sys_write, Some sys_mknod, Some sys_unlink,
      Some sys_link, Some sys_mkdir, Some sys_close]"

definition unknown_syscall :: "nat \<Rightarrow> uint \<Rightarrow> 'a trap_state_scheme \<Rightarrow> ('a trap_state_scheme, unit) res" where
  "unknown_syscall p num s =
     res_bind (printf (bytes ''%d %s: unknown sys call %d'' @ [10])
       [VInt (p_pid (proc s p)), VStr (Some (takeWhile (\<lambda>b. b \<noteq> 0) (p_name (proc s p)))), VInt num] s) (\<lambda>_ s.
     Ret () (set_tf p ''a0'' (-1) s))"

definition syscall :: "cptr \<Rightarrow> 'a trap_state_scheme \<Rightarrow> ('a trap_state_scheme, unit) res" where
  "syscall junk s =
     res_bind (myproc s) (\<lambda>cur s.
     let p = the cur;
         num = (ucast (get_tf p ''a7'' s) :: 32 word)
     in if sint num > 0 \<and> sint num < int (length (syscalls junk :: ('a trap_state_scheme \<Rightarrow> _) option list)) then
          (case syscalls junk ! unat num of
             Some f \<Rightarrow> res_bind (f s) (\<lambda>r s. Ret () (set_tf p ''a0'' r s))
           | None \<Rightarrow> unknown_syscall p num s)
        else unknown_syscall p num s)"

section \<open>Traps\<close>

text \<open>
  \<open>usertrapret\<close> ends in a jump to \<open>userret\<close> of the trampoline: the result is the address
  and the two arguments.
\<close>

definition usertrapret :: "'a trap_state_scheme \<Rightarrow> ('a trap_state_scheme, uint64 \<times> uint64 \<times> uint64) res" where
  "usertrapret s =
     res_bind (myproc s) (\<lambda>cur s.
     let p = the cur;
         s = intr_off s;
         s = w_stvec (TRAMPOLINE + (uservec_addr s - trampoline s)) s;
         s = set_tf p ''kernel_satp'' (r_satp s) s;
         s = set_tf p ''kernel_sp'' (p_kstack (proc s p) + PGSIZE) s;
         s = set_tf p ''kernel_trap'' (usertrap_addr s) s;
         s = set_tf p ''kernel_hartid'' (r_tp s) s;
         x = r_sstatus s;
         x = x AND NOT SSTATUS_SPP;
         x = x OR SSTATUS_SPIE;
         s = w_sstatus x s;
         s = w_sepc (get_tf p ''epc'' s) s
     in Ret (TRAMPOLINE + (userret_addr s - trampoline s), TRAPFRAME, MAKE_SATP (p_pagetable (proc s p))) s)"

text \<open>The end of \<open>usertrap\<close>, from the second test of \<open>killed\<close> on\<close>

definition usertrap_end :: "nat \<Rightarrow> nat \<Rightarrow> 'a trap_state_scheme \<Rightarrow> ('a trap_state_scheme, uint64 \<times> uint64 \<times> uint64) res" where
  "usertrap_end p which_dev s =
     res_bind (if p_killed (proc s p) \<noteq> 0 then exit (-1) s else Ret () s) (\<lambda>_ s.
     res_bind (if which_dev = 2 then yield s else Ret () s) (\<lambda>_ s.
     usertrapret s))"

text \<open>What follows when a process that gave up the CPU in \<open>usertrap\<close> runs again\<close>

definition usertrap_back :: "bool \<Rightarrow> nat \<Rightarrow> 'a trap_state_scheme \<Rightarrow> ('a trap_state_scheme, uint64 \<times> uint64 \<times> uint64) res" where
  "usertrap_back ie p s = res_bind (yield_back ie p s) (\<lambda>_ s. usertrapret s)"

definition usertrap :: "cptr \<Rightarrow> 'a trap_state_scheme \<Rightarrow> ('a trap_state_scheme, uint64 \<times> uint64 \<times> uint64) res" where
  "usertrap junk s =
     (if r_sstatus s AND SSTATUS_SPP \<noteq> 0 then Panic ''usertrap: not from user mode''
      else
        res_bind (myproc (w_stvec (kernelvec_addr s) s)) (\<lambda>cur s.
        let p = the cur;
            s = set_tf p ''epc'' (r_sepc s) s
        in if r_scause s = 8 then
             res_bind (if p_killed (proc s p) \<noteq> 0 then exit (-1) s else Ret () s) (\<lambda>_ s.
             let s = set_tf p ''epc'' (get_tf p ''epc'' s + 4) s;
                 s = intr_on s in
             res_bind (syscall junk s) (\<lambda>_ s. usertrap_end p 0 s))
           else
             res_bind (devintr s) (\<lambda>which_dev s.
             if which_dev \<noteq> 0 then usertrap_end p which_dev s
             else
               res_bind (printf (bytes ''usertrap(): unexpected scause %p pid=%d'' @ [10])
                 [VPtr (r_scause s), VInt (p_pid (proc s p))] s) (\<lambda>_ s.
               res_bind (printf (bytes ''            sepc=%p stval=%p'' @ [10]) [VPtr (r_sepc s), VPtr (r_stval s)] s) (\<lambda>_ s.
               usertrap_end p 0 (upd_proc p (\<lambda>q. q\<lparr>p_killed := 1\<rparr>) s))))))"

definition kerneltrap_end :: "uint64 \<Rightarrow> uint64 \<Rightarrow> 'a trap_state_scheme \<Rightarrow> 'a trap_state_scheme" where
  "kerneltrap_end sepc sstatus s = w_sstatus sstatus (w_sepc sepc s)"

definition kerneltrap :: "'a trap_state_scheme \<Rightarrow> ('a trap_state_scheme, unit) res" where
  "kerneltrap s =
     (let sepc = r_sepc s;
          sstatus = r_sstatus s;
          scause = r_scause s
      in if sstatus AND SSTATUS_SPP = 0 then Panic ''kerneltrap: not from supervisor mode''
         else if intr_get s then Panic ''kerneltrap: interrupts enabled''
         else
           res_bind (devintr s) (\<lambda>which_dev s.
           if which_dev = 0 then
             res_bind (printf (bytes ''scause %p'' @ [10]) [VPtr scause] s) (\<lambda>_ s.
             res_bind (printf (bytes ''sepc=%p stval=%p'' @ [10]) [VPtr (r_sepc s), VPtr (r_stval s)] s) (\<lambda>_ s.
             Panic ''kerneltrap''))
           else
             res_bind (myproc s) (\<lambda>cur s.
             res_bind (if which_dev = 2 \<and> cur \<noteq> None \<and> p_state (proc s (the cur)) = RUNNING then yield s else Ret () s) (\<lambda>_ s.
             Ret () (kerneltrap_end sepc sstatus s)))))"

definition kerneltrap_back :: "bool \<Rightarrow> nat \<Rightarrow> uint64 \<Rightarrow> uint64 \<Rightarrow> 'a trap_state_scheme \<Rightarrow> ('a trap_state_scheme, unit) res" where
  "kerneltrap_back ie p sepc sstatus s =
     res_bind (yield_back ie p s) (\<lambda>_ s. Ret () (kerneltrap_end sepc sstatus s))"

text \<open>Where a new process starts: it still holds the lock that the scheduler took.\<close>

definition forkret :: "'a trap_state_scheme \<Rightarrow> ('a trap_state_scheme, uint64 \<times> uint64 \<times> uint64) res" where
  "forkret s =
     res_bind (myproc s) (\<lambda>cur s.
     res_bind (release (Proc_lock (the cur)) s) (\<lambda>_ s.
     res_bind (if forkret_first s then fsinit ROOTDEV (s\<lparr>forkret_first := False\<rparr>) else Ret () s) (\<lambda>_ s.
     usertrapret s)))"

end
