(* ===== verification/Boot.thy ===== *)
theory Boot
  imports Trap
begin

text \<open>
  Starting the machine: \<open>kernel/start.c\<close>, which every hart runs in machine mode, and
  \<open>kernel/main.c\<close>.
\<close>

section \<open>Machine mode\<close>

definition MSTATUS_MPP_MASK :: uint64 where "MSTATUS_MPP_MASK = push_bit 11 3"
definition MSTATUS_MPP_S :: uint64 where "MSTATUS_MPP_S = push_bit 11 1"
definition MSTATUS_MIE :: uint64 where "MSTATUS_MIE = push_bit 3 1"
definition SIE_SEIE :: uint64 where "SIE_SEIE = push_bit 9 1"
definition SIE_STIE :: uint64 where "SIE_STIE = push_bit 5 1"
definition SIE_SSIE :: uint64 where "SIE_SSIE = push_bit 1 1"
definition MIE_MTIE :: uint64 where "MIE_MTIE = push_bit 7 1"

definition CLINT :: uint64 where "CLINT = 0x2000000"
definition CLINT_MTIMECMP :: "nat \<Rightarrow> uint64" where "CLINT_MTIMECMP h = CLINT + 0x4000 + 8 * of_nat h"
definition CLINT_MTIME :: uint64 where "CLINT_MTIME = CLINT + 0xBFF8"

text \<open>
  The registers of the CLINT, the scratch areas of the timer, and the flag \<open>started\<close>; the
  addresses of \<open>main\<close>, \<open>timervec\<close> and \<open>timer_scratch\<close> come from the linker.
\<close>

record boot_state = trap_state +
  clint :: "uint64 \<Rightarrow> uint64"
  timer_scratch :: "nat \<Rightarrow> nat \<Rightarrow> uint64"
  started :: bool
  main_addr :: uint64
  timervec_addr :: uint64
  timer_scratch_addr :: "nat \<Rightarrow> uint64"
  etext_addr :: uint64

text \<open>The registers of the hart with the given number\<close>

definition r_mstatus :: "nat \<Rightarrow> 'a trap_state_scheme \<Rightarrow> uint64" where
  "r_mstatus hid s = csrs s hid Mstatus"

definition r_sie :: "nat \<Rightarrow> 'a trap_state_scheme \<Rightarrow> uint64" where
  "r_sie hid s = csrs s hid Sie"

definition r_mie :: "nat \<Rightarrow> 'a trap_state_scheme \<Rightarrow> uint64" where
  "r_mie hid s = csrs s hid Mie"

definition w_mstatus :: "nat \<Rightarrow> uint64 \<Rightarrow> 'a trap_state_scheme \<Rightarrow> 'a trap_state_scheme" where
  "w_mstatus hid x s = set_csr hid Mstatus x s"

definition w_mepc :: "nat \<Rightarrow> uint64 \<Rightarrow> 'a trap_state_scheme \<Rightarrow> 'a trap_state_scheme" where
  "w_mepc hid x s = set_csr hid Mepc x s"

definition w_sie :: "nat \<Rightarrow> uint64 \<Rightarrow> 'a trap_state_scheme \<Rightarrow> 'a trap_state_scheme" where
  "w_sie hid x s = set_csr hid Sie x s"

definition w_mie :: "nat \<Rightarrow> uint64 \<Rightarrow> 'a trap_state_scheme \<Rightarrow> 'a trap_state_scheme" where
  "w_mie hid x s = set_csr hid Mie x s"

definition w_medeleg :: "nat \<Rightarrow> uint64 \<Rightarrow> 'a trap_state_scheme \<Rightarrow> 'a trap_state_scheme" where
  "w_medeleg hid x s = set_csr hid Medeleg x s"

definition w_mideleg :: "nat \<Rightarrow> uint64 \<Rightarrow> 'a trap_state_scheme \<Rightarrow> 'a trap_state_scheme" where
  "w_mideleg hid x s = set_csr hid Mideleg x s"

definition w_mtvec :: "nat \<Rightarrow> uint64 \<Rightarrow> 'a trap_state_scheme \<Rightarrow> 'a trap_state_scheme" where
  "w_mtvec hid x s = set_csr hid Mtvec x s"

definition w_mscratch :: "nat \<Rightarrow> uint64 \<Rightarrow> 'a trap_state_scheme \<Rightarrow> 'a trap_state_scheme" where
  "w_mscratch hid x s = set_csr hid Mscratch x s"

definition timerinit :: "nat \<Rightarrow> 'a boot_state_scheme \<Rightarrow> 'a boot_state_scheme" where
  "timerinit hid s =
     (let interval = 1000000;
          s = s\<lparr>clint := (clint s)(CLINT_MTIMECMP hid := clint s CLINT_MTIME + interval)\<rparr>;
          s = s\<lparr>timer_scratch := (timer_scratch s)(hid := (timer_scratch s hid)(3 := CLINT_MTIMECMP hid, 4 := interval))\<rparr>;
          s = w_mscratch hid (timer_scratch_addr s hid) s;
          s = w_mtvec hid (timervec_addr s) s;
          s = w_mstatus hid (r_mstatus hid s OR MSTATUS_MIE) s
      in w_mie hid (r_mie hid s OR MIE_MTIE) s)"

text \<open>\<open>start\<close> on the hart with the given \<open>mhartid\<close>; it makes that number the \<open>tp\<close>.\<close>

definition start :: "nat \<Rightarrow> 'a boot_state_scheme \<Rightarrow> 'a boot_state_scheme" where
  "start hid s =
     (let x = r_mstatus hid s;
          x = x AND NOT MSTATUS_MPP_MASK;
          x = x OR MSTATUS_MPP_S;
          s = w_mstatus hid x s;
          s = w_mepc hid (main_addr s) s;
          s = s\<lparr>satp := (satp s)(hid := 0)\<rparr>;
          s = w_medeleg hid 0xffff s;
          s = w_mideleg hid 0xffff s;
          s = w_sie hid (r_sie hid s OR SIE_SEIE OR SIE_STIE OR SIE_SSIE) s;
          s = timerinit hid s
      in s\<lparr>hart := hid\<rparr>)"

section \<open>main\<close>

definition main_first :: "'a boot_state_scheme \<Rightarrow> ('a boot_state_scheme, unit) res" where
  "main_first s =
     (let s = consoleinit s;
          s = printfinit s in
      res_bind (printf [10] [] s) (\<lambda>_ s.
      res_bind (printf (bytes ''xv6 kernel is booting'' @ [10]) [] s) (\<lambda>_ s.
      res_bind (printf [10] [] s) (\<lambda>_ s.
      res_bind (kinit s) (\<lambda>_ s.
      res_bind (kvminit (etext_addr s) (trampoline s) s) (\<lambda>_ s.
      let s = kvminithart s;
          s = procinit s;
          s = trapinit s;
          s = trapinithart s;
          s = plicinit s;
          s = plicinithart s;
          s = binit s;
          s = iinit s;
          s = fileinit s in
      res_bind (virtio_disk_init s) (\<lambda>_ s.
      res_bind (userinit s) (\<lambda>_ s.
      Ret () (s\<lparr>started := True\<rparr>)))))))))"

definition main_other :: "'a boot_state_scheme \<Rightarrow> ('a boot_state_scheme, unit) res" where
  "main_other s =
     (if \<not> started s then Spins
      else
        res_bind (printf (bytes ''hart %d starting'' @ [10]) [VInt (of_nat (cpuid s))] s) (\<lambda>_ s.
        let s = kvminithart s;
            s = trapinithart s
        in Ret () (plicinithart s)))"

text \<open>\<open>main\<close> up to the scheduler's endless loop\<close>

definition main :: "'a boot_state_scheme \<Rightarrow> ('a boot_state_scheme, unit) res" where
  "main s =
     res_bind (if cpuid s = 0 then main_first s else main_other s) (\<lambda>_ s.
     Ret () (scheduler_init s))"

end
