(* ===== verification/Asm.thy ===== *)
theory Asm
  imports Proc
begin

text \<open>
  The assembly code of the kernel: \<open>kernel/trampoline.S\<close>, \<open>kernel/kernelvec.S\<close>,
  \<open>kernel/swtch.S\<close> and \<open>kernel/entry.S\<close>, as lists of the instructions and an interpreter
  of the instructions they use. Memory is the address space that the code sees, so the trap
  frame is at the address in \<open>sscratch\<close>. The call of \<open>kerneltrap\<close> splits \<open>kernelvec\<close> in
  two lists.
\<close>

section \<open>Instructions\<close>

datatype reg =
    Ra | Sp | Gp | Tp | T0 | T1 | T2 | S0 | S1 | A0 | A1 | A2 | A3 | A4 | A5 | A6 | A7
  | S2 | S3 | S4 | S5 | S6 | S7 | S8 | S9 | S10 | S11 | T3 | T4 | T5 | T6

datatype creg = Csscratch | Csatp | Cmscratch | Csip | Cmhartid | Csepc | Cmepc

datatype instr =
    Sd reg nat reg | Ld reg nat reg | Addi reg reg int | Add reg reg reg | Mul reg reg reg
  | Li reg int | La reg uint64 | Csrrw reg creg reg | Csrr reg creg | Csrw creg reg | Sfence_vma
  | Jr reg | Sret | Mret

record hartst =
  regs :: "reg \<Rightarrow> uint64"
  cregs :: "creg \<Rightarrow> uint64"
  pc :: uint64
  amem :: mem

definition set_reg :: "reg \<Rightarrow> uint64 \<Rightarrow> hartst \<Rightarrow> hartst" where
  "set_reg r v c = c\<lparr>regs := (regs c)(r := v)\<rparr>"

definition set_creg :: "creg \<Rightarrow> uint64 \<Rightarrow> hartst \<Rightarrow> hartst" where
  "set_creg r v c = c\<lparr>cregs := (cregs c)(r := v)\<rparr>"

primrec instr_step :: "instr \<Rightarrow> hartst \<Rightarrow> hartst" where
  "instr_step (Sd r off b) c = c\<lparr>amem := store64 (amem c) (regs c b + of_nat off) (regs c r)\<rparr>"
| "instr_step (Ld r off b) c = set_reg r (load64 (amem c) (regs c b + of_nat off)) c"
| "instr_step (Addi r a i) c = set_reg r (regs c a + of_int i) c"
| "instr_step (Add r a b) c = set_reg r (regs c a + regs c b) c"
| "instr_step (Mul r a b) c = set_reg r (regs c a * regs c b) c"
| "instr_step (Li r i) c = set_reg r (of_int i) c"
| "instr_step (La r a) c = set_reg r a c"
| "instr_step (Csrrw r k a) c = set_reg r (cregs c k) (set_creg k (regs c a) c)"
| "instr_step (Csrr r k) c = set_reg r (cregs c k) c"
| "instr_step (Csrw k a) c = set_creg k (regs c a) c"
| "instr_step Sfence_vma c = c"
| "instr_step (Jr r) c = c\<lparr>pc := regs c r\<rparr>"
| "instr_step Sret c = c\<lparr>pc := cregs c Csepc\<rparr>"
| "instr_step Mret c = c\<lparr>pc := cregs c Cmepc\<rparr>"

definition run :: "instr list \<Rightarrow> hartst \<Rightarrow> hartst" where
  "run is c = fold instr_step is c"

section \<open>The programs\<close>

definition uservec :: "instr list" where
  "uservec =
    [Csrrw A0 Csscratch A0, Sd Ra 40 A0, Sd Sp 48 A0, Sd Gp 56 A0, Sd Tp 64 A0, Sd T0 72 A0,
     Sd T1 80 A0, Sd T2 88 A0, Sd S0 96 A0, Sd S1 104 A0, Sd A1 120 A0, Sd A2 128 A0, Sd A3 136 A0,
     Sd A4 144 A0, Sd A5 152 A0, Sd A6 160 A0, Sd A7 168 A0, Sd S2 176 A0, Sd S3 184 A0,
     Sd S4 192 A0, Sd S5 200 A0, Sd S6 208 A0, Sd S7 216 A0, Sd S8 224 A0, Sd S9 232 A0,
     Sd S10 240 A0, Sd S11 248 A0, Sd T3 256 A0, Sd T4 264 A0, Sd T5 272 A0, Sd T6 280 A0,
     Csrr T0 Csscratch, Sd T0 112 A0, Ld Sp 8 A0, Ld Tp 32 A0, Ld T0 16 A0, Ld T1 0 A0,
     Csrw Csatp T1, Sfence_vma, Jr T0]"

definition userret :: "instr list" where
  "userret =
    [Csrw Csatp A1, Sfence_vma, Ld T0 112 A0, Csrw Csscratch T0, Ld Ra 40 A0, Ld Sp 48 A0,
     Ld Gp 56 A0, Ld Tp 64 A0, Ld T0 72 A0, Ld T1 80 A0, Ld T2 88 A0, Ld S0 96 A0, Ld S1 104 A0,
     Ld A1 120 A0, Ld A2 128 A0, Ld A3 136 A0, Ld A4 144 A0, Ld A5 152 A0, Ld A6 160 A0,
     Ld A7 168 A0, Ld S2 176 A0, Ld S3 184 A0, Ld S4 192 A0, Ld S5 200 A0, Ld S6 208 A0,
     Ld S7 216 A0, Ld S8 224 A0, Ld S9 232 A0, Ld S10 240 A0, Ld S11 248 A0, Ld T3 256 A0,
     Ld T4 264 A0, Ld T5 272 A0, Ld T6 280 A0, Csrrw A0 Csscratch A0, Sret]"

definition kernelvec_save :: "instr list" where
  "kernelvec_save =
    [Addi Sp Sp (-256), Sd Ra 0 Sp, Sd Sp 8 Sp, Sd Gp 16 Sp, Sd Tp 24 Sp, Sd T0 32 Sp, Sd T1 40 Sp,
     Sd T2 48 Sp, Sd S0 56 Sp, Sd S1 64 Sp, Sd A0 72 Sp, Sd A1 80 Sp, Sd A2 88 Sp, Sd A3 96 Sp,
     Sd A4 104 Sp, Sd A5 112 Sp, Sd A6 120 Sp, Sd A7 128 Sp, Sd S2 136 Sp, Sd S3 144 Sp,
     Sd S4 152 Sp, Sd S5 160 Sp, Sd S6 168 Sp, Sd S7 176 Sp, Sd S8 184 Sp, Sd S9 192 Sp,
     Sd S10 200 Sp, Sd S11 208 Sp, Sd T3 216 Sp, Sd T4 224 Sp, Sd T5 232 Sp, Sd T6 240 Sp]"

definition kernelvec_restore :: "instr list" where
  "kernelvec_restore =
    [Ld Ra 0 Sp, Ld Sp 8 Sp, Ld Gp 16 Sp, Ld T0 32 Sp, Ld T1 40 Sp, Ld T2 48 Sp, Ld S0 56 Sp,
     Ld S1 64 Sp, Ld A0 72 Sp, Ld A1 80 Sp, Ld A2 88 Sp, Ld A3 96 Sp, Ld A4 104 Sp, Ld A5 112 Sp,
     Ld A6 120 Sp, Ld A7 128 Sp, Ld S2 136 Sp, Ld S3 144 Sp, Ld S4 152 Sp, Ld S5 160 Sp,
     Ld S6 168 Sp, Ld S7 176 Sp, Ld S8 184 Sp, Ld S9 192 Sp, Ld S10 200 Sp, Ld S11 208 Sp,
     Ld T3 216 Sp, Ld T4 224 Sp, Ld T5 232 Sp, Ld T6 240 Sp, Addi Sp Sp 256, Sret]"

definition timervec :: "instr list" where
  "timervec =
    [Csrrw A0 Cmscratch A0, Sd A1 0 A0, Sd A2 8 A0, Sd A3 16 A0, Ld A1 24 A0, Ld A2 32 A0,
     Ld A3 0 A1, Add A3 A3 A2, Sd A3 0 A1, Li A1 2, Csrw Csip A1, Ld A3 16 A0, Ld A2 8 A0,
     Ld A1 0 A0, Csrrw A0 Cmscratch A0, Mret]"

definition swtch :: "instr list" where
  "swtch =
    [Sd Ra 0 A0, Sd Sp 8 A0, Sd S0 16 A0, Sd S1 24 A0, Sd S2 32 A0, Sd S3 40 A0, Sd S4 48 A0,
     Sd S5 56 A0, Sd S6 64 A0, Sd S7 72 A0, Sd S8 80 A0, Sd S9 88 A0, Sd S10 96 A0, Sd S11 104 A0,
     Ld Ra 0 A1, Ld Sp 8 A1, Ld S0 16 A1, Ld S1 24 A1, Ld S2 32 A1, Ld S3 40 A1, Ld S4 48 A1,
     Ld S5 56 A1, Ld S6 64 A1, Ld S7 72 A1, Ld S8 80 A1, Ld S9 88 A1, Ld S10 96 A1, Ld S11 104 A1,
     Jr Ra]"

definition entry_S :: "uint64 \<Rightarrow> instr list" where
  "entry_S stack0 =
    [La Sp stack0, Li A0 4096, Csrr A1 Cmhartid, Addi A1 A1 1, Mul A0 A0 A1, Add Sp Sp A0]"

text \<open>\<open>kernelvec\<close> with the effect of \<open>kerneltrap\<close> as a parameter\<close>

definition kernelvec :: "(hartst \<Rightarrow> hartst) \<Rightarrow> hartst \<Rightarrow> hartst" where
  "kernelvec kerneltrap c = run kernelvec_restore (kerneltrap (run kernelvec_save c))"

section \<open>Saving and loading registers\<close>

lemma run_Nil [simp]: "run [] c = c"
  by (simp add: run_def)

lemma run_Cons [simp]: "run (i # is) c = run is (instr_step i c)"
  by (simp add: run_def)

lemma run_append: "run (is @ js) c = run js (run is c)"
  by (simp add: run_def)

definition saves :: "reg \<Rightarrow> (reg \<times> nat) list \<Rightarrow> instr list" where
  "saves b L = map (\<lambda>(r, off). Sd r off b) L"

definition loads :: "reg \<Rightarrow> (reg \<times> nat) list \<Rightarrow> instr list" where
  "loads b L = map (\<lambda>(r, off). Ld r off b) L"

text \<open>Offsets of 64-bit slots in one frame\<close>

definition slot :: "nat \<Rightarrow> bool" where
  "slot k \<longleftrightarrow> 8 dvd k \<and> k < 4096"

lemma slots_disjoint:
  assumes "slot i" and "slot j" and "i \<noteq> j"
  shows "disjoint_ranges (a + of_nat i) 8 (a + of_nat j) 8"
  unfolding disjoint_ranges_def
proof (intro allI impI)
  fix k :: nat assume k: "k < 8"
  have e: "a + of_nat i + of_nat k - (a + of_nat j) = (of_nat (i + k) - of_nat j :: uint64)" by simp
  have ui: "unat (of_nat (i + k) :: uint64) = i + k" and uj: "unat (of_nat j :: uint64) = j"
    using assms k by (simp_all add: unat_of_nat slot_def del: of_nat_add)
  have "8 dvd i" "8 dvd j" using assms by (simp_all add: slot_def)
  then obtain x y where "i = 8 * x" "j = 8 * y" by (elim dvdE) blast
  then consider "i \<ge> j + 8" | "j \<ge> i + 8" using assms(3) by (cases "x < y") auto
  then show "8 \<le> unat (a + of_nat i + of_nat k - (a + of_nat j))"
  proof cases
    case 1
    then show ?thesis unfolding e by (subst unat_sub) (simp_all add: word_le_nat_alt ui uj del: of_nat_add)
  next
    case 2
    then have "unat (of_nat (i + k) - of_nat j :: uint64) = i + k + 2 ^ 64 - j" using k
      by (simp add: unat_sub_if' word_le_nat_alt ui uj del: of_nat_add)
    moreover have "j < 4096" using assms by (simp add: slot_def)
    ultimately show ?thesis unfolding e by simp
  qed
qed

lemma load64_slot:
  "slot i \<Longrightarrow> slot j \<Longrightarrow>
     load64 (store64 m (a + of_nat j) v) (a + of_nat i) = (if i = j then v else load64 m (a + of_nat i))"
  by (simp add: mem_simps load64_store64_other slots_disjoint)

lemma run_saves:
  assumes "\<forall>(r, off) \<in> set L. slot off" and "distinct (map snd L)"
  shows "run (saves b L) c = c\<lparr>amem := amem (run (saves b L) c)\<rparr> \<and>
    (\<forall>k. slot k \<longrightarrow> load64 (amem (run (saves b L) c)) (regs c b + of_nat k) =
      (case map_of (map (\<lambda>(r, off). (off, r)) L) k of
         None \<Rightarrow> load64 (amem c) (regs c b + of_nat k) | Some r \<Rightarrow> regs c r))"
  using assms
proof (induction L arbitrary: c)
  case Nil
  show ?case by (simp add: saves_def)
next
  case (Cons p L)
  obtain r off where p: "p = (r, off)" by (cases p)
  define c' where "c' = c\<lparr>amem := store64 (amem c) (regs c b + of_nat off) (regs c r)\<rparr>"
  have c': "regs c' = regs c" "cregs c' = cregs c" "pc c' = pc c" by (simp_all add: c'_def)
  have run: "run (saves b (p # L)) c = run (saves b L) c'" by (simp add: saves_def p c'_def)
  note IH = Cons.IH [of c']
  have "off \<notin> set (map snd L)" using Cons.prems(2) by (simp add: p)
  then have out: "map_of (map (\<lambda>(r, off). (off, r)) L) off = None"
    by (auto simp: map_of_eq_None_iff image_image split_beta)
  show ?case unfolding run
  proof (intro conjI allI impI)
    show "run (saves b L) c' = c\<lparr>amem := amem (run (saves b L) c')\<rparr>"
      using IH Cons.prems by (simp add: c'_def)
  next
    fix k assume k: "slot k"
    have "slot off" using Cons.prems(1) by (simp add: p)
    then show "load64 (amem (run (saves b L) c')) (regs c b + of_nat k) =
      (case map_of (map (\<lambda>(r, off). (off, r)) (p # L)) k of
         None \<Rightarrow> load64 (amem c) (regs c b + of_nat k) | Some r \<Rightarrow> regs c r)"
      using IH Cons.prems k out by (auto simp: c' p c'_def load64_slot split: option.splits)
  qed
qed

lemma run_loads:
  assumes "b \<notin> fst ` set L" and "distinct (map fst L)"
  shows "run (loads b L) c = c\<lparr>regs := \<lambda>r. case map_of L r of
      None \<Rightarrow> regs c r | Some off \<Rightarrow> load64 (amem c) (regs c b + of_nat off)\<rparr>"
  using assms
proof (induction L arbitrary: c)
  case Nil
  show ?case by (simp add: loads_def)
next
  case (Cons p L)
  obtain r off where p: "p = (r, off)" by (cases p)
  define c' where "c' = set_reg r (load64 (amem c) (regs c b + of_nat off)) c"
  have run: "run (loads b (p # L)) c = run (loads b L) c'" by (simp add: loads_def p c'_def)
  have "regs c' b = regs c b" using Cons.prems(1) by (auto simp: p c'_def set_reg_def)
  moreover have "map_of L r = None" using Cons.prems(2) by (simp add: p map_of_eq_None_iff)
  ultimately show ?case unfolding run using Cons.IH [of c'] Cons.prems
    by (auto simp: p c'_def set_reg_def fun_eq_iff split: option.splits)
qed

section \<open>Traps from user mode\<close>

primrec reg_field :: "reg \<Rightarrow> string" where
  "reg_field Ra = ''ra''" | "reg_field Sp = ''sp''" | "reg_field Gp = ''gp''" | "reg_field Tp = ''tp''"
| "reg_field T0 = ''t0''" | "reg_field T1 = ''t1''" | "reg_field T2 = ''t2''" | "reg_field S0 = ''s0''"
| "reg_field S1 = ''s1''" | "reg_field A0 = ''a0''" | "reg_field A1 = ''a1''" | "reg_field A2 = ''a2''"
| "reg_field A3 = ''a3''" | "reg_field A4 = ''a4''" | "reg_field A5 = ''a5''" | "reg_field A6 = ''a6''"
| "reg_field A7 = ''a7''" | "reg_field S2 = ''s2''" | "reg_field S3 = ''s3''" | "reg_field S4 = ''s4''"
| "reg_field S5 = ''s5''" | "reg_field S6 = ''s6''" | "reg_field S7 = ''s7''" | "reg_field S8 = ''s8''"
| "reg_field S9 = ''s9''" | "reg_field S10 = ''s10''" | "reg_field S11 = ''s11''" | "reg_field T3 = ''t3''"
| "reg_field T4 = ''t4''" | "reg_field T5 = ''t5''" | "reg_field T6 = ''t6''"

definition user_slots :: "(reg \<times> nat) list" where
  "user_slots = [(Ra, 40), (Sp, 48), (Gp, 56), (Tp, 64), (T0, 72), (T1, 80), (T2, 88), (S0, 96), (S1, 104),
     (A1, 120), (A2, 128), (A3, 136), (A4, 144), (A5, 152), (A6, 160), (A7, 168), (S2, 176), (S3, 184),
     (S4, 192), (S5, 200), (S6, 208), (S7, 216), (S8, 224), (S9, 232), (S10, 240), (S11, 248), (T3, 256),
     (T4, 264), (T5, 272), (T6, 280)]"

lemma uservec_eq: "uservec = Csrrw A0 Csscratch A0 # saves A0 user_slots @
  [Csrr T0 Csscratch, Sd T0 112 A0, Ld Sp 8 A0, Ld Tp 32 A0, Ld T0 16 A0, Ld T1 0 A0, Csrw Csatp T1, Sfence_vma, Jr T0]"
  by (simp add: uservec_def saves_def user_slots_def)

lemma userret_eq: "userret = [Csrw Csatp A1, Sfence_vma, Ld T0 112 A0, Csrw Csscratch T0] @ loads A0 user_slots @
  [Csrrw A0 Csscratch A0, Sret]"
  by (simp add: userret_def loads_def user_slots_def)

lemma user_slots_ok:
  "\<forall>(r, off) \<in> set user_slots. slot off" "distinct (map snd user_slots)"
  "A0 \<notin> fst ` set user_slots" "distinct (map fst user_slots)"
  by (simp_all add: user_slots_def slot_def)

definition user_off :: "reg \<Rightarrow> nat" where
  "user_off r = (if r = A0 then 112 else the (map_of user_slots r))"

lemma tf_reg: "tf (reg_field r) = of_nat (user_off r)"
  by (cases r) (simp_all add: tf_def trapframe_def user_off_def user_slots_def)

lemma user_off_A0: "user_off A0 = 112"
  by (simp add: user_off_def)

lemma tf_kernel:
  "tf ''kernel_satp'' = 0" "tf ''kernel_sp'' = 8" "tf ''kernel_trap'' = 16" "tf ''kernel_hartid'' = 32"
  by (simp_all add: tf_def trapframe_def)

lemma user_slot_of:
  "r \<noteq> A0 \<Longrightarrow> map_of user_slots r = Some (user_off r)"
  "r \<noteq> A0 \<Longrightarrow> map_of (map (\<lambda>(r, off). (off, r)) user_slots) (user_off r) = Some r"
  "slot (user_off r)" "r \<noteq> A0 \<Longrightarrow> user_off r \<noteq> 112"
  by (cases r; simp add: user_off_def user_slots_def slot_def)+

lemma uservec_frame:
  fixes u :: hartst
  defines "f \<equiv> cregs u Csscratch"
  shows "load64 (amem (run uservec u)) (f + tf (reg_field r)) = regs u r"
    and "regs (run uservec u) Sp = load64 (amem u) (f + tf ''kernel_sp'')"
    and "regs (run uservec u) Tp = load64 (amem u) (f + tf ''kernel_hartid'')"
    and "cregs (run uservec u) Csatp = load64 (amem u) (f + tf ''kernel_satp'')"
    and "pc (run uservec u) = load64 (amem u) (f + tf ''kernel_trap'')"
proof -
  define c where "c = set_reg A0 f (set_creg Csscratch (regs u A0) u)"
  have c: "regs c = (regs u)(A0 := f)" "cregs c = (cregs u)(Csscratch := regs u A0)" "amem c = amem u"
    by (simp_all add: c_def set_reg_def set_creg_def)
  define m where "m = amem (run (saves A0 user_slots) c)"
  define m' where "m' = store64 m (f + 112) (regs u A0)"
  have sv: "run (saves A0 user_slots) c = c\<lparr>amem := m\<rparr>"
    and m: "slot k \<Longrightarrow> load64 m (f + of_nat k) = (case map_of (map (\<lambda>(r, off). (off, r)) user_slots) k of
      None \<Rightarrow> load64 (amem u) (f + of_nat k) | Some r \<Rightarrow> ((regs u)(A0 := f)) r)" for k
    using run_saves [OF user_slots_ok(1,2), of A0 c] by (simp_all add: c m_def cong: option.case_cong)
  have s112: "slot 112" by (simp add: slot_def)
  have m': "slot k \<Longrightarrow> load64 m' (f + of_nat k) = (if k = 112 then regs u A0 else load64 m (f + of_nat k))" for k
    using load64_slot [OF _ s112, of k m f "regs u A0"] by (simp add: m'_def)
  have r1: "run uservec u = run [Ld Sp 8 A0, Ld Tp 32 A0, Ld T0 16 A0, Ld T1 0 A0, Csrw Csatp T1, Sfence_vma, Jr T0]
      (set_reg T0 (regs u A0) (c\<lparr>amem := m'\<rparr>))"
    using sv by (simp add: uservec_eq run_append c_def [symmetric] f_def set_reg_def c m'_def)
      (simp add: c_def set_reg_def set_creg_def f_def)
  have ld: "load64 m' (f + of_nat k) = load64 (amem u) (f + of_nat k)" if "k \<in> {0, 8, 16, 32}" for k
    using that m' [of k] m [of k] by (auto simp: slot_def user_slots_def)
  note l = ld [of 0] ld [of 8] ld [of 16] ld [of 32]
  have e: "amem (run uservec u) = m'" "regs (run uservec u) Sp = load64 m' (f + 8)"
    "regs (run uservec u) Tp = load64 m' (f + 32)" "cregs (run uservec u) Csatp = load64 m' f"
    "pc (run uservec u) = load64 m' (f + 16)"
    unfolding r1 by (simp_all add: set_reg_def set_creg_def c)
  show "load64 (amem (run uservec u)) (f + tf (reg_field r)) = regs u r"
    unfolding e(1) tf_reg using m' [OF user_slot_of(3) [of r]] m [OF user_slot_of(3) [of r]] user_slot_of(2,4) [of r]
    by (cases "r = A0") (simp_all add: user_off_A0)
  show "regs (run uservec u) Sp = load64 (amem u) (f + tf ''kernel_sp'')"
    "regs (run uservec u) Tp = load64 (amem u) (f + tf ''kernel_hartid'')"
    "cregs (run uservec u) Csatp = load64 (amem u) (f + tf ''kernel_satp'')"
    "pc (run uservec u) = load64 (amem u) (f + tf ''kernel_trap'')"
    using l by (simp_all add: e tf_kernel)
qed

lemma userret_frame:
  "regs (run userret k) r = load64 (amem k) (regs k A0 + tf (reg_field r))"
  "cregs (run userret k) Csscratch = regs k A0"
  "cregs (run userret k) Csatp = regs k A1"
  "pc (run userret k) = cregs k Csepc"
proof -
  let ?f = "regs k A0"
  define v where "v = load64 (amem k) (?f + 112)"
  define c where "c = set_creg Csscratch v (set_reg T0 v (set_creg Csatp (regs k A1) k))"
  have c: "regs c = (regs k)(T0 := v)" "cregs c = (cregs k)(Csatp := regs k A1, Csscratch := v)" "amem c = amem k"
    by (simp_all add: c_def set_reg_def set_creg_def)
  have "run userret k = run [Csrrw A0 Csscratch A0, Sret] (run (loads A0 user_slots) c)"
    by (simp add: userret_eq run_append set_creg_def set_reg_def c_def v_def)
  also have "run (loads A0 user_slots) c = c\<lparr>regs := \<lambda>r. case map_of user_slots r of
      None \<Rightarrow> regs c r | Some off \<Rightarrow> load64 (amem k) (?f + of_nat off)\<rparr>"
    using run_loads [OF user_slots_ok(3,4), of c] c(1,3) by (simp cong: option.case_cong)
  finally have run: "run userret k = run [Csrrw A0 Csscratch A0, Sret] \<dots>" .
  have a0: "map_of user_slots A0 = None" by (simp add: user_slots_def)
  show "regs (run userret k) r = load64 (amem k) (?f + tf (reg_field r))"
    unfolding tf_reg using user_slot_of(1) [of r]
    by (cases "r = A0") (simp_all add: run set_reg_def set_creg_def c v_def user_off_A0)
  show "cregs (run userret k) Csscratch = ?f" "cregs (run userret k) Csatp = regs k A1"
    "pc (run userret k) = cregs k Csepc"
    by (simp_all add: run set_reg_def set_creg_def c a0)
qed

text \<open>
  C38. Registers survive a trap. On a trap from user mode the trampoline saves every user
  register in the field of \<open>struct trapframe\<close> that the kernel reads it from, and enters
  \<open>usertrap\<close> with the kernel stack, hart number and page table that the frame holds. If the
  kernel then changes nothing in the saved registers but \<open>a0\<close>, returning through the
  trampoline gives back exactly the user's registers with that \<open>a0\<close>, at the address in
  \<open>sepc\<close>, on the user page table, and with \<open>sscratch\<close> ready for the next trap.
\<close>

theorem trap_round_trip:
  fixes u :: hartst
  defines "f \<equiv> cregs u Csscratch" and "v \<equiv> run uservec u"
  assumes "regs k A0 = f"
    and "\<forall>r. load64 (amem k) (f + tf (reg_field r)) = (if r = A0 then a else load64 (amem v) (f + tf (reg_field r)))"
  shows "(\<forall>r. load64 (amem v) (f + tf (reg_field r)) = regs u r)
    \<and> regs v Sp = load64 (amem u) (f + tf ''kernel_sp'')
    \<and> regs v Tp = load64 (amem u) (f + tf ''kernel_hartid'')
    \<and> cregs v Csatp = load64 (amem u) (f + tf ''kernel_satp'')
    \<and> pc v = load64 (amem u) (f + tf ''kernel_trap'')
    \<and> regs (run userret k) = (regs u)(A0 := a)
    \<and> pc (run userret k) = cregs k Csepc
    \<and> cregs (run userret k) Csatp = regs k A1
    \<and> cregs (run userret k) Csscratch = f"
  using assms(3,4) unfolding f_def v_def by (auto simp: uservec_frame userret_frame fun_eq_iff)

definition demo_hart :: hartst where
  "demo_hart = \<lparr>regs = (\<lambda>_. 7), cregs = (\<lambda>_. 4096), pc = 0, amem = (\<lambda>_. 0)\<rparr>"

theorem trap_round_trip_witness:
  "\<exists>k. regs (run userret k) = (regs demo_hart)(A0 := 5)"
proof -
  define v where "v = run uservec demo_hart"
  define k where "k = v\<lparr>regs := (regs v)(A0 := 4096), amem := store64 (amem v) (4096 + of_nat 112) 5\<rparr>"
  have f: "cregs demo_hart Csscratch = 4096" by (simp add: demo_hart_def)
  have s: "slot 112" by (simp add: slot_def)
  have 1: "load64 (amem k) (4096 + tf (reg_field r)) = (if r = A0 then 5 else load64 (amem v) (4096 + tf (reg_field r)))" for r
    unfolding tf_reg k_def using load64_slot [OF user_slot_of(3) [of r] s, of "amem v" 4096 5] user_slot_of(4) [of r]
    by (cases "r = A0") (simp_all add: user_off_A0)
  have 2: "regs k A0 = 4096" by (simp add: k_def)
  show ?thesis using trap_round_trip [of k demo_hart 5, unfolded f, folded v_def, OF 2] 1 by blast
qed

section \<open>Traps from the kernel\<close>

definition kernel_slots :: "(reg \<times> nat) list" where
  "kernel_slots = [(Ra, 0), (Sp, 8), (Gp, 16), (Tp, 24), (T0, 32), (T1, 40), (T2, 48), (S0, 56), (S1, 64),
     (A0, 72), (A1, 80), (A2, 88), (A3, 96), (A4, 104), (A5, 112), (A6, 120), (A7, 128), (S2, 136), (S3, 144),
     (S4, 152), (S5, 160), (S6, 168), (S7, 176), (S8, 184), (S9, 192), (S10, 200), (S11, 208), (T3, 216),
     (T4, 224), (T5, 232), (T6, 240)]"

lemma kernelvec_save_eq: "kernelvec_save = Addi Sp Sp (-256) # saves Sp kernel_slots"
  by (simp add: kernelvec_save_def saves_def kernel_slots_def)

lemma kernelvec_restore_eq: "kernelvec_restore = [Ld Ra 0 Sp, Ld Sp 8 Sp] @
  loads Sp (filter (\<lambda>(r, off). r \<notin> {Ra, Sp, Tp}) kernel_slots) @ [Addi Sp Sp 256, Sret]"
  by (simp add: kernelvec_restore_def loads_def kernel_slots_def)

lemma kernel_slots_ok:
  "\<forall>(r, off) \<in> set kernel_slots. slot off" "distinct (map snd kernel_slots)" "distinct (map fst kernel_slots)"
  by (simp_all add: kernel_slots_def slot_def)

definition kernel_off :: "reg \<Rightarrow> nat" where
  "kernel_off r = the (map_of kernel_slots r)"

lemma kernel_slot_of:
  "r \<notin> {Ra, Sp, Tp} \<Longrightarrow> map_of (filter (\<lambda>(r, off). r \<notin> {Ra, Sp, Tp}) kernel_slots) r = Some (kernel_off r)"
  "r \<in> {Ra, Sp, Tp} \<Longrightarrow> map_of (filter (\<lambda>(r, off). r \<notin> {Ra, Sp, Tp}) kernel_slots) r = None"
  "map_of (map (\<lambda>(r, off). (off, r)) kernel_slots) (kernel_off r) = Some r"
  "slot (kernel_off r)" "kernel_off r < 256"
  by (cases r; simp add: kernel_off_def kernel_slots_def slot_def)+

lemma kernelvec_save_frame:
  "regs (run kernelvec_save c) Sp = regs c Sp - 256"
  "load64 (amem (run kernelvec_save c)) (regs c Sp - 256 + of_nat (kernel_off r)) =
     (if r = Sp then regs c Sp - 256 else regs c r)"
proof -
  define d where "d = set_reg Sp (regs c Sp - 256) c"
  have run: "run kernelvec_save c = run (saves Sp kernel_slots) d"
    by (simp add: kernelvec_save_eq d_def)
  have d: "regs d = (regs c)(Sp := regs c Sp - 256)" by (simp add: d_def set_reg_def)
  note s = run_saves [OF kernel_slots_ok(1,2), of Sp d]
  show "regs (run kernelvec_save c) Sp = regs c Sp - 256"
    unfolding run by (subst conjunct1 [OF s]) (simp add: d)
  have "load64 (amem (run (saves Sp kernel_slots) d)) (regs d Sp + of_nat (kernel_off r)) = regs d r"
    using conjunct2 [OF s] kernel_slot_of(3,4) by simp
  then show "load64 (amem (run kernelvec_save c)) (regs c Sp - 256 + of_nat (kernel_off r)) =
     (if r = Sp then regs c Sp - 256 else regs c r)"
    unfolding run d by simp
qed

text \<open>
  C39. An interrupt in the kernel is invisible to the code it interrupts. Whatever
  \<open>kerneltrap\<close> does, if it keeps to the calling convention (the stack pointer and the 256
  bytes of its caller's frame come back unchanged), \<open>kernelvec\<close> returns to the address in
  \<open>sepc\<close> with every register as it was, except \<open>tp\<close>, which stays that of the hart it is on.
\<close>

theorem kernelvec_transparent:
  fixes c :: hartst
  defines "v \<equiv> run kernelvec_save c"
  assumes "regs (H v) Sp = regs v Sp"
    and "\<forall>i<256. amem (H v) (regs v Sp + of_nat i) = amem v (regs v Sp + of_nat i)"
  shows "(\<forall>r. r \<noteq> Tp \<longrightarrow> regs (kernelvec H c) r = regs c r)
    \<and> regs (kernelvec H c) Tp = regs (H v) Tp \<and> pc (kernelvec H c) = cregs (H v) Csepc"
proof -
  define sp where "sp = regs c Sp - 256"
  define h where "h = H v"
  let ?L = "filter (\<lambda>(r, off). r \<notin> {Ra, Sp, Tp}) kernel_slots"
  have sp: "regs v Sp = sp" "regs h Sp = sp" using assms(2) by (simp_all add: v_def sp_def kernelvec_save_frame h_def)
  have ld: "load64 (amem h) (sp + of_nat (kernel_off r)) = (if r = Sp then sp else regs c r)" for r
  proof -
    have "kernel_off r + 8 \<le> 256" by (cases r) (simp_all add: kernel_off_def kernel_slots_def)
    then have "get (amem h) (sp + of_nat (kernel_off r)) 8 = get (amem v) (sp + of_nat (kernel_off r)) 8"
      using assms(3) sp by (intro get_cong) (simp add: h_def add.assoc flip: of_nat_add)
    then show ?thesis using kernelvec_save_frame(2) [of c r] by (simp add: load64_def v_def sp_def)
  qed
  define d where "d = set_reg Ra (regs c Ra) h"
  have d: "regs d = (regs h)(Ra := regs c Ra)" "amem d = amem h" "cregs d = cregs h"
    by (simp_all add: d_def set_reg_def)
  have off: "kernel_off Ra = 0" "kernel_off Sp = 8" by (simp_all add: kernel_off_def kernel_slots_def)
  have "run [Ld Ra 0 Sp, Ld Sp 8 Sp] h = d"
    using ld [of Ra] ld [of Sp] sp by (simp add: off set_reg_def d_def fun_upd_idem)
  then have "kernelvec H c = run [Addi Sp Sp 256, Sret] (run (loads Sp ?L) d)"
    by (simp only: kernelvec_def v_def [symmetric] h_def [symmetric] kernelvec_restore_eq run_append)
  moreover have "Sp \<notin> fst ` set ?L" "distinct (map fst ?L)" by (simp_all add: kernel_slots_def)
  ultimately have run: "kernelvec H c = run [Addi Sp Sp 256, Sret] (d\<lparr>regs := \<lambda>r. case map_of ?L r of
      None \<Rightarrow> regs d r | Some off \<Rightarrow> load64 (amem h) (sp + of_nat off)\<rparr>)"
    using run_loads [of Sp ?L d] by (simp add: d sp del: run_Cons cong: option.case_cong)
  have "regs (kernelvec H c) r = regs c r" if "r \<noteq> Tp" for r
    using that kernel_slot_of(1,2) [of r] ld [of r] sp
    by (cases "r \<in> {Ra, Sp, Tp}") (auto simp: run set_reg_def d sp_def)
  moreover have "regs (kernelvec H c) Tp = regs h Tp" "pc (kernelvec H c) = cregs h Csepc"
    using kernel_slot_of(2) [of Tp] by (simp_all add: run set_reg_def d)
  ultimately show ?thesis by (simp add: h_def)
qed

theorem kernelvec_transparent_witness:
  "regs (kernelvec (set_reg A0 1) demo_hart) A0 = 7"
  using kernelvec_transparent [of "set_reg A0 1" demo_hart] by (simp add: set_reg_def demo_hart_def)

section \<open>Context switch\<close>

definition ctx_slots :: "(reg \<times> nat) list" where
  "ctx_slots = [(Ra, 0), (Sp, 8), (S0, 16), (S1, 24), (S2, 32), (S3, 40), (S4, 48), (S5, 56), (S6, 64),
     (S7, 72), (S8, 80), (S9, 88), (S10, 96), (S11, 104)]"

lemma swtch_eq: "swtch = saves A0 ctx_slots @ loads A1 ctx_slots @ [Jr Ra]"
  by (simp add: swtch_def saves_def loads_def ctx_slots_def)

lemma ctx_slots_ok:
  "\<forall>(r, off) \<in> set ctx_slots. slot off" "distinct (map snd ctx_slots)" "distinct (map fst ctx_slots)"
  "A1 \<notin> fst ` set ctx_slots"
  by (simp_all add: ctx_slots_def slot_def)

lemma ctx_slot_of:
  "(r, off) \<in> set ctx_slots \<Longrightarrow> map_of ctx_slots r = Some off"
  "(r, off) \<in> set ctx_slots \<Longrightarrow> map_of (map (\<lambda>(r, off). (off, r)) ctx_slots) off = Some r"
  "(r, off) \<in> set ctx_slots \<Longrightarrow> slot off" "(r, off) \<in> set ctx_slots \<Longrightarrow> off + 8 \<le> 112"
  by (auto simp: ctx_slots_def slot_def)

lemma saves_outside:
  "\<forall>(r, off) \<in> set L. 8 \<le> unat (x - (regs c b + of_nat off)) \<Longrightarrow> amem (run (saves b L) c) x = amem c x"
proof (induction L arbitrary: c)
  case (Cons p L)
  obtain r off where p: "p = (r, off)" by (cases p)
  define d where "d = c\<lparr>amem := store64 (amem c) (regs c b + of_nat off) (regs c r)\<rparr>"
  have "run (saves b (p # L)) c = run (saves b L) d" by (simp add: saves_def p d_def)
  moreover have "amem (run (saves b L) d) x = amem d x" using Cons by (simp add: d_def)
  moreover have "amem d x = amem c x" using Cons.prems by (simp add: d_def p store64_def put_outside)
  ultimately show ?case by simp
qed (simp add: saves_def)

text \<open>The contexts of 112 bytes at two addresses do not overlap.\<close>

definition ctx_apart :: "uint64 \<Rightarrow> uint64 \<Rightarrow> bool" where
  "ctx_apart a b \<longleftrightarrow> (\<forall>i<112. 112 \<le> unat (b + of_nat i - a))"

lemma swtch_frame:
  assumes "ctx_apart (regs c A0) (regs c A1)" and "(r, off) \<in> set ctx_slots"
  shows "load64 (amem (run swtch c)) (regs c A0 + of_nat off) = regs c r"
    and "regs (run swtch c) r = load64 (amem c) (regs c A1 + of_nat off)"
    and "pc (run swtch c) = load64 (amem c) (regs c A1)"
proof -
  define d where "d = run (saves A0 ctx_slots) c"
  note s = run_saves [OF ctx_slots_ok(1,2), of A0 c, folded d_def]
  have d: "regs d = regs c" by (subst conjunct1 [OF s]) simp
  have l: "run (loads A1 ctx_slots) d = d\<lparr>regs := \<lambda>r. case map_of ctx_slots r of
      None \<Rightarrow> regs c r | Some off \<Rightarrow> load64 (amem d) (regs c A1 + of_nat off)\<rparr>"
    using run_loads [OF ctx_slots_ok(4,3), of d] unfolding d .
  have run: "run swtch c = instr_step (Jr Ra) (d\<lparr>regs := \<lambda>r. case map_of ctx_slots r of
      None \<Rightarrow> regs c r | Some off \<Rightarrow> load64 (amem d) (regs c A1 + of_nat off)\<rparr>)"
    by (simp only: swtch_eq run_append d_def [symmetric] l run_Cons run_Nil)
  have ld: "load64 (amem d) (regs c A1 + of_nat k) = load64 (amem c) (regs c A1 + of_nat k)" if k: "k + 8 \<le> 112" for k
    unfolding load64_def
  proof (rule arg_cong [of _ _ le_word], rule get_cong)
    fix i :: nat assume i: "i < 8"
    let ?x = "regs c A1 + of_nat k + of_nat i"
    have "112 \<le> unat (?x - regs c A0)"
      using assms(1) [unfolded ctx_apart_def, rule_format, of "k + i"] k i by (simp add: add.assoc)
    moreover have "8 \<le> unat (?x - (regs c A0 + of_nat off))" if "off + 8 \<le> 112" and "112 \<le> unat (?x - regs c A0)" for off
    proof -
      have o: "unat (of_nat off :: uint64) = off" using that by (simp add: unat_of_nat)
      have e: "?x - (regs c A0 + of_nat off) = (?x - regs c A0) - of_nat off" by simp
      have "unat ((?x - regs c A0) - of_nat off) = unat (?x - regs c A0) - off"
        using that by (subst unat_sub) (simp_all add: word_le_nat_alt o)
      then show ?thesis unfolding e using that by simp
    qed
    ultimately show "amem d ?x = amem c ?x"
      unfolding d_def using ctx_slot_of(4) by (intro saves_outside) auto
  qed
  show "load64 (amem (run swtch c)) (regs c A0 + of_nat off) = regs c r"
    using conjunct2 [OF s] ctx_slot_of(2,3) [OF assms(2)] by (simp add: run)
  show "regs (run swtch c) r = load64 (amem c) (regs c A1 + of_nat off)"
    using ctx_slot_of(1,4) [OF assms(2)] ld by (simp add: run)
  have "map_of ctx_slots Ra = Some 0" by (simp add: ctx_slots_def)
  then show "pc (run swtch c) = load64 (amem c) (regs c A1)" using ld [of 0] by (simp add: run)
qed

text \<open>
  C40. The context switch is a round trip: when a thread has switched away with \<open>swtch\<close> and
  later some thread switches to the context it saved, whose bytes have not changed, the first
  thread continues behind its call, at the address in its \<open>ra\<close>, with its stack pointer and
  every callee-saved register as they were.
\<close>

theorem swtch_round_trip:
  assumes "ctx_apart (regs c A0) (regs c A1)" and "ctx_apart (regs d A0) (regs d A1)"
    and "regs d A1 = regs c A0"
    and "\<forall>i<112. amem d (regs c A0 + of_nat i) = amem (run swtch c) (regs c A0 + of_nat i)"
  shows "pc (run swtch d) = regs c Ra
    \<and> (\<forall>r \<in> {Ra, Sp, S0, S1, S2, S3, S4, S5, S6, S7, S8, S9, S10, S11}. regs (run swtch d) r = regs c r)"
proof -
  have ld: "load64 (amem d) (regs c A0 + of_nat off) = regs c r" if "(r, off) \<in> set ctx_slots" for r off
  proof -
    have "get (amem d) (regs c A0 + of_nat off) 8 = get (amem (run swtch c)) (regs c A0 + of_nat off) 8"
      using assms(4) ctx_slot_of(4) [OF that] by (intro get_cong) (simp add: add.assoc flip: of_nat_add)
    then show ?thesis using swtch_frame(1) [OF assms(1) that] by (simp add: load64_def)
  qed
  have "regs (run swtch d) r = regs c r" if "(r, off) \<in> set ctx_slots" for r off
    using swtch_frame(2) [OF assms(2) that] ld [OF that] assms(3) by simp
  then have "regs (run swtch d) r = regs c r" if "r \<in> fst ` set ctx_slots" for r using that by auto
  moreover have "fst ` set ctx_slots = {Ra, Sp, S0, S1, S2, S3, S4, S5, S6, S7, S8, S9, S10, S11}"
    by (simp add: ctx_slots_def)
  moreover have "pc (run swtch d) = regs c Ra"
    using swtch_frame(3) [OF assms(2), of Ra 0] ld [of Ra 0] assms(3) by (simp add: ctx_slots_def)
  ultimately show ?thesis by simp
qed

theorem swtch_round_trip_witness:
  "\<exists>(c :: hartst) d. regs d A1 = regs c A0 \<and> pc (run swtch d) = regs c Ra"
proof -
  define c where "c = demo_hart\<lparr>regs := (\<lambda>_. 7)(A0 := 4096, A1 := 8192)\<rparr>"
  define d where "d = (run swtch c)\<lparr>regs := (\<lambda>_. 9)(A0 := 8192, A1 := 4096)\<rparr>"
  have "ctx_apart 4096 8192"
    unfolding ctx_apart_def by (auto simp: unat_word_ariths unat_of_nat)
  moreover have "ctx_apart 8192 4096"
    unfolding ctx_apart_def by (auto simp: unat_sub_if' unat_of_nat word_le_nat_alt)
  ultimately have "pc (run swtch d) = regs c Ra"
    using swtch_round_trip [of c d] by (simp add: c_def d_def)
  moreover have "regs d A1 = regs c A0" by (simp add: c_def d_def)
  ultimately show ?thesis by blast
qed

end
