(* ===== verification/Grep.thy ===== *)
theory Grep
  imports User
begin

text \<open>
  \<open>user/grep.c\<close>: the matcher for patterns with \<open>^ . * $\<close>, and the loop that cuts the input
  into lines. Strings are lists of the bytes in front of the terminating 0.
\<close>

section \<open>The matcher\<close>

abbreviation STAR :: byte where "STAR \<equiv> 42"
abbreviation DOT :: byte where "DOT \<equiv> 46"
abbreviation CARET :: byte where "CARET \<equiv> 94"
abbreviation DOLLAR :: byte where "DOLLAR \<equiv> 36"

function (sequential) matchhere :: "bstr \<Rightarrow> bstr \<Rightarrow> bool"
  and matchstar :: "byte \<Rightarrow> bstr \<Rightarrow> bstr \<Rightarrow> bool" where
  "matchhere [] text = True"
| "matchhere (r # re) text =
     (if re \<noteq> [] \<and> hd re = STAR then matchstar r (tl re) text
      else if r = DOLLAR \<and> re = [] then text = []
      else if text \<noteq> [] \<and> (r = DOT \<or> r = hd text) then matchhere re (tl text)
      else False)"
| "matchstar c re text =
     (if matchhere re text then True
      else if text \<noteq> [] \<and> (hd text = c \<or> c = DOT) then matchstar c re (tl text)
      else False)"
  by pat_completeness auto
termination
  by (relation "measures [\<lambda>x. case x of Inl (re, t) \<Rightarrow> length re + length t | Inr (c, re, t) \<Rightarrow> length re + length t,
        \<lambda>x. case x of Inl (re, t) \<Rightarrow> 0 | Inr (c, re, t) \<Rightarrow> 1]")
    (auto simp: length_tl neq_Nil_conv)

declare matchhere.simps(2) [simp del] matchstar.simps [simp del]

primrec match_anywhere :: "bstr \<Rightarrow> bstr \<Rightarrow> bool" where
  "match_anywhere re [] = matchhere re []"
| "match_anywhere re (c # text) = (if matchhere re (c # text) then True else match_anywhere re text)"

definition match :: "bstr \<Rightarrow> bstr \<Rightarrow> bool" where
  "match re text = (if re \<noteq> [] \<and> hd re = CARET then matchhere (tl re) text else match_anywhere re text)"

section \<open>Lines\<close>

text \<open>
  The inner loop over the lines in the buffer, which \<open>strchr\<close> looks for up to the first 0:
  the lines to print and what is left.
\<close>

function grep_scan :: "bstr \<Rightarrow> bstr \<Rightarrow> bstr list \<times> bstr" where
  "grep_scan pattern p =
     (case ustrchr (takeWhile (\<lambda>c. c \<noteq> 0) p) 10 of
        None \<Rightarrow> ([], p)
      | Some _ \<Rightarrow>
          let line = takeWhile (\<lambda>c. c \<noteq> 10) p;
              (out, rest) = grep_scan pattern (drop (length line + 1) p)
          in (if match pattern line then (line @ [10]) # out else out, rest))"
  by pat_completeness auto
termination
proof (relation "measure (\<lambda>(pattern, p). length p)", goal_cases)
  case (2 pattern p a x)
  then have "p \<noteq> []" by auto
  then show ?case by simp
qed simp

declare grep_scan.simps [simp del]

definition grep_bufsize :: nat where "grep_bufsize = 1024"

primrec grep :: "nat \<Rightarrow> bstr \<Rightarrow> int \<Rightarrow> bstr \<Rightarrow> prog \<Rightarrow> prog" where
  "grep 0 pattern fd buf k = Fuel"
| "grep (Suc f) pattern fd buf k =
     Call (Read fd (grep_bufsize - length buf - 1)) (\<lambda>r.
       if 0 < r_val r then
         (case grep_scan pattern (buf @ got r) of (out, rest) \<Rightarrow>
            foldr (\<lambda>l k. Call (Write 1 l) (\<lambda>_. k)) out (grep f pattern fd rest k))
       else k)"

primrec grep_files :: "nat \<Rightarrow> bstr \<Rightarrow> bstr list \<Rightarrow> prog" where
  "grep_files f pattern [] = Exit 0"
| "grep_files f pattern (a # argv) =
     Call (Open a 0) (\<lambda>r.
       if r_val r < 0 then uprintf (''grep: cannot open %s'' @ [CHR 0x0A]) [VStr (Some a)] (Exit 1)
       else grep f pattern (r_val r) [] (Call (Close (r_val r)) (\<lambda>_. grep_files f pattern argv)))"

definition grep_main :: "nat \<Rightarrow> bstr list \<Rightarrow> prog" where
  "grep_main f argv =
     (if length argv \<le> 1 then ufprintf 2 (''usage: grep pattern [file ...]'' @ [CHR 0x0A]) [] (Exit 1)
      else if length argv \<le> 2 then grep f (argv ! 1) 0 [] (Exit 0)
      else grep_files f (argv ! 1) (drop 2 argv))"

section \<open>What a pattern means\<close>

text \<open>
  The reference: a pattern is a sequence of items, each a character (where the dot stands for
  any), a repeated character, or the end of the text.
\<close>

datatype item = One byte | Many byte | End

definition accepts :: "byte \<Rightarrow> byte \<Rightarrow> bool" where
  "accepts c x \<longleftrightarrow> c = DOT \<or> c = x"

fun items :: "bstr \<Rightarrow> item list" where
  "items [] = []"
| "items (c # d # re) =
     (if d = STAR then Many c # items re else One c # items (d # re))"
| "items [c] = (if c = DOLLAR then [End] else [One c])"

text \<open>\<open>u\<close> is spelled by the items when the text goes on with \<open>v\<close>.\<close>

primrec spells :: "item list \<Rightarrow> bstr \<Rightarrow> bstr \<Rightarrow> bool" where
  "spells [] u v \<longleftrightarrow> u = []"
| "spells (i # is) u v \<longleftrightarrow>
     (case i of
        One c \<Rightarrow> \<exists>x w. u = x # w \<and> accepts c x \<and> spells is w v
      | Many c \<Rightarrow> \<exists>a b. u = a @ b \<and> (\<forall>x \<in> set a. accepts c x) \<and> spells is b v
      | End \<Rightarrow> u = [] \<and> v = [])"

lemma spells_One: "(\<exists>u v. t = u @ v \<and> spells (One c # is) u v) \<longleftrightarrow>
  (\<exists>x t'. t = x # t' \<and> accepts c x \<and> (\<exists>u v. t' = u @ v \<and> spells is u v))"
  (is "?l \<longleftrightarrow> ?r")
proof
  assume ?r
  then obtain x u v where "t = (x # u) @ v" "spells (One c # is) (x # u) v" by auto
  then show ?l by blast
next
  assume ?l
  then obtain x w v where "t = x # w @ v" "accepts c x" "spells is w v" by auto
  then show ?r by blast
qed

lemma spells_ManyI: "\<forall>x \<in> set a. accepts c x \<Longrightarrow> spells is b v \<Longrightarrow> spells (Many c # is) (a @ b) v"
  by auto

lemma spells_Many: "(\<exists>u v. t = u @ v \<and> spells (Many c # is) u v) \<longleftrightarrow>
  (\<exists>u v. t = u @ v \<and> spells is u v) \<or>
  (\<exists>x t'. t = x # t' \<and> accepts c x \<and> (\<exists>u v. t' = u @ v \<and> spells (Many c # is) u v))"
  (is "?l \<longleftrightarrow> ?a \<or> ?b")
proof
  assume ?l
  then obtain a b v where *: "t = a @ b @ v" "\<forall>x \<in> set a. accepts c x" "spells is b v" by auto
  show "?a \<or> ?b"
  proof (cases a)
    case Nil
    then show ?thesis using * by auto
  next
    case (Cons x a')
    then have "t = x # (a' @ b) @ v" "accepts c x" "spells (Many c # is) (a' @ b) v" using * by auto
    then show ?thesis by blast
  qed
next
  assume "?a \<or> ?b"
  then show ?l
  proof
    assume ?a
    then obtain u v where "t = u @ v" "spells is u v" by blast
    moreover then have "spells (Many c # is) u v" by (auto intro: exI [of _ "[]"])
    ultimately show ?l by blast
  next
    assume ?b
    then obtain x t' a b v where *: "t = x # t'" "accepts c x" "t' = (a @ b) @ v" "\<forall>x \<in> set a. accepts c x" "spells is b v"
      by auto
    then have "t = ((x # a) @ b) @ v" by simp
    moreover have "spells (Many c # is) ((x # a) @ b) v" using * by (intro spells_ManyI) auto
    ultimately show ?l by blast
  qed
qed

lemma matchhere_iff:
  "matchhere re t \<longleftrightarrow> (\<exists>u v. t = u @ v \<and> spells (items re) u v)"
  "matchstar c re t \<longleftrightarrow> (\<exists>u v. t = u @ v \<and> spells (Many c # items re) u v)"
proof (induction re t and c re t rule: matchhere_matchstar.induct)
  case (1 t)
  then show ?case by simp
next
  case (2 r re t)
  show ?case
  proof (cases re)
    case Nil
    show ?thesis
    proof (cases "r = DOLLAR")
      case True
      then show ?thesis using Nil by (simp add: matchhere.simps(2))
    next
      case False
      then have "matchhere (r # re) t \<longleftrightarrow> (\<exists>x t'. t = x # t' \<and> accepts r x)"
        using Nil by (cases t) (auto simp: matchhere.simps(2) accepts_def)
      then show ?thesis using Nil False spells_One [of t r "[]"] by simp
    qed
  next
    case (Cons d re')
    show ?thesis
    proof (cases "d = STAR")
      case True
      then show ?thesis using 2(1) Cons by (simp add: matchhere.simps(2))
    next
      case False
      then have "matchhere (r # re) t \<longleftrightarrow> (\<exists>x t'. t = x # t' \<and> accepts r x \<and> matchhere re t')"
        using Cons by (cases t) (auto simp: matchhere.simps(2) accepts_def)
      moreover have "matchhere re t' \<longleftrightarrow> (\<exists>u v. t' = u @ v \<and> spells (items re) u v)"
        if "t = x # t'" "accepts r x" for x t'
        using 2(2) that False Cons by (simp add: accepts_def)
      ultimately show ?thesis using False Cons spells_One [of t r "items re"] by auto
    qed
  qed
next
  case (3 c re t)
  let ?S = "\<lambda>t. \<exists>u v. t = u @ v \<and> spells (Many c # items re) u v"
  have step: "matchstar c re t \<longleftrightarrow> matchhere re t \<or> (\<exists>x t'. t = x # t' \<and> accepts c x \<and> matchstar c re t')"
    by (subst matchstar.simps) (cases t; auto simp: accepts_def)
  have ih: "matchstar c re t' \<longleftrightarrow> ?S t'" if "\<not> matchhere re t" "t = x # t'" "accepts c x" for x t'
  proof -
    have "t \<noteq> [] \<and> (hd t = c \<or> c = DOT)" using that by (auto simp: accepts_def)
    from 3(2) [OF that(1) this] show ?thesis unfolding that(2) list.sel .
  qed
  show ?case
  proof (cases "matchhere re t")
    case True
    then show ?thesis unfolding spells_Many [of t c "items re"] using step 3(1) by (simp only: simp_thms)
  next
    case False
    have "(\<exists>x t'. t = x # t' \<and> accepts c x \<and> matchstar c re t') \<longleftrightarrow> (\<exists>x t'. t = x # t' \<and> accepts c x \<and> ?S t')"
      by (intro ex_cong1 conj_cong refl) (rule ih [OF False])
    then have "matchstar c re t \<longleftrightarrow> (\<exists>x t'. t = x # t' \<and> accepts c x \<and> ?S t')"
      unfolding step using False by (simp only: simp_thms)
    then show ?thesis unfolding spells_Many [of t c "items re"] using False 3(1) by (simp only: simp_thms)
  qed
qed

lemma match_anywhere_iff: "match_anywhere re t \<longleftrightarrow> (\<exists>p s. t = p @ s \<and> matchhere re s)"
proof (induction t)
  case (Cons c t)
  show ?case unfolding match_anywhere.simps Cons.IH by (auto simp: Cons_eq_append_conv)
qed simp

text \<open>
  C25. The matcher of \<open>grep\<close> decides what its patterns mean: \<open>match\<close> returns true exactly
  when the text contains a part that is spelled by the items of the pattern, at the start of
  the text if the pattern begins with a caret, and with nothing behind it if the pattern ends
  in a dollar sign.
\<close>

theorem match_iff_spells:
  "match re text \<longleftrightarrow>
     (if re \<noteq> [] \<and> hd re = CARET then \<exists>u v. text = u @ v \<and> spells (items (tl re)) u v
      else \<exists>p u v. text = p @ u @ v \<and> spells (items re) u v)"
  by (auto simp: match_def match_anywhere_iff matchhere_iff)

section \<open>What grep prints\<close>

text \<open>
  The complete lines of an input, without their newlines, and the rest behind the last newline
\<close>

primrec split_lines :: "bstr \<Rightarrow> bstr list \<times> bstr" where
  "split_lines [] = ([], [])"
| "split_lines (c # s) =
     (case split_lines s of (lns, r) \<Rightarrow>
        if c = 10 then ([] # lns, r)
        else (case lns of [] \<Rightarrow> ([], c # r) | l # lns' \<Rightarrow> ((c # l) # lns', r)))"

definition print_lines :: "bstr \<Rightarrow> bstr list \<Rightarrow> bstr list" where
  "print_lines pattern lns = map (\<lambda>l. l @ [10]) (filter (match pattern) lns)"

text \<open>
  Running a program whose reads are answered by \<open>rd\<close>: what it writes to descriptor 1, and its
  exit status. Other calls return 0.
\<close>

definition answer :: "bstr \<Rightarrow> resp" where
  "answer bs = \<lparr>r_val = int (length bs), r_data = bs, r_fds = (0, 0),
     r_stat = \<lparr>st_dev = 0, st_ino = 0, st_type = 0, st_nlink = 0, st_size = 0\<rparr>\<rparr>"

primrec drive :: "(nat \<Rightarrow> 's \<Rightarrow> bstr \<times> 's) \<Rightarrow> prog \<Rightarrow> 's \<Rightarrow> bstr \<times> int option" where
  "drive rd (Exit v) s = ([], Some v)"
| "drive rd Fuel s = ([], None)"
| "drive rd (Call q k) s =
     (case q of
        Read fd n \<Rightarrow> (case rd n s of (bs, s) \<Rightarrow> drive rd (k (answer bs)) s)
      | Write fd bs \<Rightarrow> (case drive rd (k (answer bs)) s of (out, e) \<Rightarrow> (if fd = 1 then bs @ out else out, e))
      | _ \<Rightarrow> drive rd (k (answer [])) s)"

lemma split_lines_append:
  "split_lines (a @ b) = (case split_lines a of (lns, r) \<Rightarrow> case split_lines (r @ b) of (lns', r') \<Rightarrow> (lns @ lns', r'))"
  by (induction a) (auto split: prod.splits list.splits)

lemma split_lines_line: "10 \<notin> set l \<Longrightarrow> split_lines (l @ 10 # s) = (case split_lines s of (lns, r) \<Rightarrow> (l # lns, r))"
  by (induction l) (auto split: prod.splits)

lemma split_lines_rest: "10 \<notin> set l \<Longrightarrow> split_lines l = ([], l)"
  by (induction l) auto

lemma split_lines_no_newline: "10 \<notin> set (snd (split_lines s))"
  by (induction s) (auto split: prod.splits list.splits)

lemma ustrchr_iff: "ustrchr s c = None \<longleftrightarrow> c \<notin> set s"
  by (induction s) auto

lemma split_lines_rest_set: "set (snd (split_lines s)) \<subseteq> set s"
  by (induction s) (auto split: prod.splits list.splits)

lemma first_line_long:
  assumes "10 \<notin> set buf"
  shows "\<exists>l \<in> insert (snd (split_lines (buf @ s))) (set (fst (split_lines (buf @ s)))). length buf \<le> length l"
proof (cases "10 \<in> set s")
  case True
  then obtain a b where s: "s = a @ 10 # b" "10 \<notin> set a" using split_list_first by metis
  have "split_lines (buf @ s) = (case split_lines b of (lns, r) \<Rightarrow> ((buf @ a) # lns, r))"
    using split_lines_line [of "buf @ a" b] assms s by simp
  then show ?thesis by (auto split: prod.splits)
next
  case False
  then show ?thesis using split_lines_rest [of "buf @ s"] assms by simp
qed

lemma grep_scan_split:
  "0 \<notin> set p \<Longrightarrow> grep_scan pattern p = (case split_lines p of (lns, r) \<Rightarrow> (print_lines pattern lns, r))"
proof (induction pattern p rule: grep_scan.induct)
  case (1 pattern p)
  have p: "takeWhile (\<lambda>c. c \<noteq> 0) p = p" using 1(2) by (auto simp: takeWhile_eq_all_conv)
  show ?case
  proof (cases "10 \<in> set p")
    case False
    then have "ustrchr p 10 = None" by (simp add: ustrchr_iff)
    then show ?thesis using False by (simp add: grep_scan.simps [of pattern p] p split_lines_rest print_lines_def)
  next
    case True
    then obtain l s where s: "p = l @ 10 # s" and l: "10 \<notin> set l" using split_list_first by metis
    have tw: "takeWhile (\<lambda>c. c \<noteq> 10) p = l" unfolding s using l by (subst takeWhile_append2) auto
    have d: "drop (Suc (length l)) p = s" by (simp add: s)
    obtain y where y: "ustrchr p 10 = Some y" using True ustrchr_iff [of p 10] by (cases "ustrchr p 10") auto
    have z: "0 \<notin> set s" using 1(2) s by simp
    have ih: "grep_scan pattern s = (case split_lines s of (lns, r) \<Rightarrow> (print_lines pattern lns, r))"
      using 1(1) [of y l] z by (simp add: p y tw d)
    have "grep_scan pattern p = (case grep_scan pattern s of (out, rest) \<Rightarrow>
        (if match pattern l then (l @ [10]) # out else out, rest))"
      using y by (simp add: grep_scan.simps [of pattern p] p tw d Let_def)
    also have "\<dots> = (case split_lines p of (lns, r) \<Rightarrow> (print_lines pattern lns, r))"
      unfolding ih s split_lines_line [OF l] by (simp add: print_lines_def split: prod.splits)
    finally show ?thesis .
  qed
qed

text \<open>
  What a program relies on when it reads: a read returns a piece of at most the asked length
  from the front of what is left, and not an empty one before the end.
\<close>

locale reader =
  fixes rd :: "nat \<Rightarrow> 's \<Rightarrow> bstr \<times> 's"
    and left :: "'s \<Rightarrow> bstr"
  assumes rd_front: "rd n s = (bs, t) \<Longrightarrow> left s = bs @ left t"
    and rd_bound: "rd n s = (bs, t) \<Longrightarrow> length bs \<le> n"
    and rd_progress: "rd n s = (bs, t) \<Longrightarrow> 0 < n \<Longrightarrow> left s \<noteq> [] \<Longrightarrow> bs \<noteq> []"
begin

lemma drive_writes:
  "drive rd (foldr (\<lambda>l k. Call (Write 1 l) (\<lambda>_. k)) lns k) s =
     (case drive rd k s of (out, e) \<Rightarrow> (concat lns @ out, e))"
  by (induction lns) (auto split: prod.splits)

lemma grep_lines:
  assumes "0 \<notin> set (buf @ left s)" and "10 \<notin> set buf"
    and "\<forall>l \<in> insert (snd (split_lines (buf @ left s))) (set (fst (split_lines (buf @ left s)))). length l < grep_bufsize - 1"
    and "length (left s) < fuel"
  shows "drive rd (grep fuel pattern fd buf (Exit v)) s =
    (concat (print_lines pattern (fst (split_lines (buf @ left s)))), Some v)"
  using assms
proof (induction fuel arbitrary: buf s)
  case (Suc fuel)
  obtain bs t where rd: "rd (grep_bufsize - length buf - 1) s = (bs, t)" by fastforce
  note front = rd_front [OF rd]
  show ?case
  proof (cases "bs = []")
    case True
    have "length buf < grep_bufsize - 1"
      using first_line_long [OF Suc.prems(2), of "left s"] Suc.prems(3) by (meson le_less_trans)
    then have "0 < grep_bufsize - length buf - 1" by linarith
    then have "left s = []" using rd_progress [OF rd] True by auto
    then show ?thesis using True rd Suc.prems(2) by (simp add: answer_def split_lines_rest print_lines_def)
  next
    case False
    obtain lns r where sp: "split_lines (buf @ bs) = (lns, r)" by fastforce
    obtain lns' r' where sp': "split_lines (r @ left t) = (lns', r')" by fastforce
    have all: "split_lines (buf @ left s) = (lns @ lns', r')"
      using split_lines_append [of "buf @ bs" "left t"] sp sp' front by simp
    have r: "10 \<notin> set r" "set r \<subseteq> set (buf @ bs)"
      using split_lines_no_newline [of "buf @ bs"] split_lines_rest_set [of "buf @ bs"] sp by simp_all
    have z: "0 \<notin> set (buf @ bs)" "0 \<notin> set (r @ left t)" using Suc.prems(1) r(2) front by auto
    have short: "\<forall>l \<in> insert (snd (split_lines (r @ left t))) (set (fst (split_lines (r @ left t)))). length l < grep_bufsize - 1"
      using Suc.prems(3) all sp' by simp
    have fuel: "length (left t) < fuel" using Suc.prems(4) front False by (cases bs) auto
    have ih: "drive rd (grep fuel pattern fd r (Exit v)) t = (concat (print_lines pattern lns'), Some v)"
      using Suc.IH [OF z(2) r(1) short fuel] sp' by simp
    have scan: "grep_scan pattern (buf @ bs) = (print_lines pattern lns, r)"
      using grep_scan_split [OF z(1)] sp by simp
    have "drive rd (grep (Suc fuel) pattern fd buf (Exit v)) s =
        drive rd (foldr (\<lambda>l k. Call (Write 1 l) (\<lambda>_. k)) (print_lines pattern lns) (grep fuel pattern fd r (Exit v))) t"
      using False scan rd by (simp add: answer_def got_def)
    then show ?thesis by (simp add: drive_writes ih all print_lines_def)
  qed
qed simp

end

text \<open>
  Two sources of standard input: a regular file, read as \<open>fileread\<close> and \<open>readi\<close> do from an
  offset that advances by what was copied, and the console, whose reads end with a line.
\<close>

definition file_read :: "nat \<Rightarrow> bstr \<times> nat \<Rightarrow> bstr \<times> (bstr \<times> nat)" where
  "file_read n = (\<lambda>(c, off). let n = if off + n > length c then length c - off else n in
     (take n (drop off c), (c, off + n)))"

definition console_read :: "nat \<Rightarrow> bstr \<Rightarrow> bstr \<times> bstr" where
  "console_read n s = (let k = min n (Suc (length (takeWhile (\<lambda>c. c \<noteq> 10) s))) in (take k s, drop k s))"

interpretation regular: reader file_read "\<lambda>(c, off). drop off c"
proof unfold_locales
  show "(case s of (c, off) \<Rightarrow> drop off c) = bs @ (case t of (c, off) \<Rightarrow> drop off c)"
    if "file_read n s = (bs, t)" for n s bs t
    using that append_take_drop_id [of n "drop (snd s) (fst s)"]
    by (cases s) (auto simp: file_read_def Let_def add.commute split: if_splits)
qed (auto simp: file_read_def Let_def split: if_splits)

interpretation terminal: reader console_read "\<lambda>s. s"
  by unfold_locales (auto simp: console_read_def Let_def)



end
