(* ===== verification/Mkfs.thy ===== *)
theory Mkfs
  imports Fs
begin

text \<open>
  The program that builds the initial file system image, \<open>mkfs/mkfs.c\<close>. It runs on the
  build host, which is taken to be little-endian. The image is a function from sectors to
  blocks; a \<open>struct dinode\<close> or \<open>struct dirent\<close> in a local variable is an array of bytes.
  Failed assertions and \<open>exit(1)\<close> are the outcome \<open>Panic\<close>. Messages are left out.
\<close>

section \<open>State\<close>

definition FSSIZE :: nat where "FSSIZE = 1000"
definition NINODES :: nat where "NINODES = 200"
definition nbitmap :: nat where "nbitmap = FSSIZE div (BSIZE * 8) + 1"
definition ninodeblocks :: nat where "ninodeblocks = NINODES div IPB + 1"
definition nlog :: nat where "nlog = nat LOGSIZE"
definition nmeta :: nat where "nmeta = 2 + nlog + ninodeblocks + nbitmap"
definition nblocks :: nat where "nblocks = FSSIZE - nmeta"

record mkfs =
  img :: "nat \<Rightarrow> block"
  freeinode :: uint
  freeblock :: uint

definition xshort :: "ushort \<Rightarrow> ushort" where
  "xshort x = le_word [ucast x, ucast (drop_bit 8 x)]"

definition xint :: "uint \<Rightarrow> uint" where
  "xint x = le_word [ucast x, ucast (drop_bit 8 x), ucast (drop_bit 16 x), ucast (drop_bit 24 x)]"

definition mkfs_sb :: superblock where
  "mkfs_sb = \<lparr>sb_magic = FSMAGIC, sb_size = xint (of_nat FSSIZE), sb_nblocks = xint (of_nat nblocks),
     sb_ninodes = xint (of_nat NINODES), sb_nlog = xint (of_nat nlog), sb_logstart = xint 2,
     sb_inodestart = xint (of_nat (2 + nlog)), sb_bmapstart = xint (of_nat (2 + nlog + ninodeblocks))\<rparr>"

text \<open>The bytes of the super block\<close>

definition sb_bytes :: "superblock \<Rightarrow> byte list" where
  "sb_bytes b = concat (map (le_bytes 4)
     [sb_magic b, sb_size b, sb_nblocks b, sb_ninodes b, sb_nlog b, sb_logstart b, sb_inodestart b, sb_bmapstart b])"

section \<open>Sectors and inodes\<close>

definition wsect :: "uint \<Rightarrow> block \<Rightarrow> mkfs \<Rightarrow> mkfs" where
  "wsect sec buf s = s\<lparr>img := (img s)(unat sec := buf)\<rparr>"

definition rsect :: "uint \<Rightarrow> mkfs \<Rightarrow> block" where
  "rsect sec s = img s (unat sec)"

definition winode :: "uint \<Rightarrow> cptr \<Rightarrow> mkfs \<Rightarrow> mkfs" where
  "winode inum din s =
     (let bn = IBLOCK inum mkfs_sb;
          buf = rsect bn s
      in wsect bn (write_at buf (dinode_size * (unat inum mod IPB)) (map din [0..<dinode_size])) s)"

definition rinode :: "uint \<Rightarrow> mkfs \<Rightarrow> cptr" where
  "rinode inum s =
     (let bn = IBLOCK inum mkfs_sb;
          buf = rsect bn s
      in (\<lambda>i. buf (dinode_size * (unat inum mod IPB) + i)))"

definition mkfs_ialloc :: "ushort \<Rightarrow> mkfs \<Rightarrow> uint \<times> mkfs" where
  "mkfs_ialloc ty s =
     (let inum = freeinode s;
          s = s\<lparr>freeinode := freeinode s + 1\<rparr>;
          din = (\<lambda>_. 0);
          din = wr16 din (dinode_off ''type'') (xshort ty);
          din = wr16 din (dinode_off ''nlink'') (xshort 1);
          din = wr32 din (dinode_off ''size'') (xint 0)
      in (inum, winode inum din s))"

definition mkfs_balloc :: "nat \<Rightarrow> mkfs \<Rightarrow> (mkfs, unit) res" where
  "mkfs_balloc used s =
     (if \<not> used < BSIZE * 8 then Panic ''used < BSIZE*8''
      else
        let buf = fold (\<lambda>i buf. buf(i div 8 := buf (i div 8) OR push_bit (i mod 8) 1)) [0..<used] (\<lambda>_. 0)
        in Ret () (wsect (sb_bmapstart mkfs_sb) buf s))"

text \<open>
  The sector of block \<open>fbn\<close> of the file with inode \<open>din\<close>, allocated when there is none,
  with the changed inode\<close>

definition addr_off :: "nat \<Rightarrow> nat" where
  "addr_off k = dinode_off ''addrs'' + 4 * k"

definition iappend_block :: "nat \<Rightarrow> cptr \<Rightarrow> mkfs \<Rightarrow> uint \<times> cptr \<times> mkfs" where
  "iappend_block fbn din s =
     (if fbn < NDIRECT then
        let (din, s) =
              (if xint (rd32 din (addr_off fbn)) = 0
               then (wr32 din (addr_off fbn) (xint (freeblock s)), s\<lparr>freeblock := freeblock s + 1\<rparr>)
               else (din, s))
        in (xint (rd32 din (addr_off fbn)), din, s)
      else
        let (din, s) =
              (if xint (rd32 din (addr_off NDIRECT)) = 0
               then (wr32 din (addr_off NDIRECT) (xint (freeblock s)), s\<lparr>freeblock := freeblock s + 1\<rparr>)
               else (din, s));
            ind = rsect (xint (rd32 din (addr_off NDIRECT))) s;
            (ind, s) =
              (if rd32 ind (4 * (fbn - NDIRECT)) = 0
               then let ind = wr32 ind (4 * (fbn - NDIRECT)) (xint (freeblock s));
                        s = s\<lparr>freeblock := freeblock s + 1\<rparr>
                    in (ind, wsect (xint (rd32 din (addr_off NDIRECT))) ind s)
               else (ind, s))
        in (xint (rd32 ind (4 * (fbn - NDIRECT))), din, s))"

function iappend_loop :: "byte list \<Rightarrow> nat \<Rightarrow> cptr \<Rightarrow> mkfs \<Rightarrow> (mkfs, nat \<times> cptr) res" where
  "iappend_loop p off din s =
     (if p = [] then Ret (off, din) s
      else
        let fbn = off div BSIZE in
        if \<not> fbn < MAXFILE then Panic ''fbn < MAXFILE''
        else
          case iappend_block fbn din s of (x, din, s) \<Rightarrow>
            let n1 = min (length p) ((fbn + 1) * BSIZE - off);
                buf = write_at (rsect x s) (off - fbn * BSIZE) (take n1 p)
            in iappend_loop (drop n1 p) (off + n1) din (wsect x buf s))"
  by pat_completeness auto
termination
proof (relation "measure (\<lambda>(p, off, din, s). length p)", goal_cases)
  case (2 p off din s fbn)
  have "off < (off div BSIZE + 1) * BSIZE" by (simp add: BSIZE_def)
  then show ?case using 2 by simp
qed simp

declare iappend_loop.simps [simp del]

definition iappend :: "uint \<Rightarrow> byte list \<Rightarrow> mkfs \<Rightarrow> (mkfs, unit) res" where
  "iappend inum p s =
     (let din = rinode inum s in
      res_bind (iappend_loop p (unat (xint (rd32 din (dinode_off ''size'')))) din s) (\<lambda>(off, din) s.
      Ret () (winode inum (wr32 din (dinode_off ''size'') (xint (of_nat off))) s)))"

section \<open>main\<close>

text \<open>A directory entry\<close>

definition mk_dirent :: "uint \<Rightarrow> byte list \<Rightarrow> byte list" where
  "mk_dirent inum name =
     le_bytes 2 (xshort (ucast inum)) @ map (strncpy (\<lambda>_. 0) (arr name) (int DIRSIZ)) [0..<DIRSIZ]"

definition shortname :: "byte list \<Rightarrow> byte list" where
  "shortname a = (if take 5 a = bytes ''user/'' then drop 5 a else a)"

text \<open>Copying a file that was read in pieces of at most a block\<close>

definition copy_chunks :: "uint \<Rightarrow> byte list list \<Rightarrow> mkfs \<Rightarrow> (mkfs, unit) res" where
  "copy_chunks inum chunks s = res_for chunks (\<lambda>c s. iappend inum c s) s"

text \<open>One file of the command line; \<open>None\<close> when it cannot be opened\<close>

definition add_file :: "byte list \<times> byte list list option \<Rightarrow> mkfs \<Rightarrow> (mkfs, unit) res" where
  "add_file af s =
     (case af of (a, content) \<Rightarrow>
        let nm = shortname a in
        if 47 \<in> set nm then Panic ''index(shortname, '/') == 0''
        else
          case content of None \<Rightarrow> Panic ''open''
          | Some chunks \<Rightarrow>
              let nm = (if nm \<noteq> [] \<and> hd nm = 95 then tl nm else nm);
                  (inum, s) = mkfs_ialloc T_FILE s in
              res_bind (iappend ROOTINO (mk_dirent inum nm) s) (\<lambda>_ s.
              copy_chunks inum chunks s))"

definition fix_root :: "mkfs \<Rightarrow> mkfs" where
  "fix_root s =
     (let din = rinode ROOTINO s;
          off = xint (rd32 din (dinode_off ''size''));
          off = of_nat ((unat off div BSIZE + 1) * BSIZE)
      in winode ROOTINO (wr32 din (dinode_off ''size'') (xint off)) s)"

definition mkfs_main :: "(byte list \<times> byte list list option) list \<Rightarrow> mkfs \<Rightarrow> (mkfs, unit) res" where
  "mkfs_main files s =
     (let s = s\<lparr>freeblock := of_nat nmeta\<rparr>;
          s = fold (\<lambda>i. wsect (of_nat i) (\<lambda>_. 0)) [0..<FSSIZE] s;
          s = wsect 1 (write_at (\<lambda>_. 0) 0 (sb_bytes mkfs_sb)) s;
          (rootino, s) = mkfs_ialloc T_DIR s
      in if rootino \<noteq> ROOTINO then Panic ''rootino == ROOTINO''
         else
           res_bind (iappend rootino (mk_dirent rootino (bytes ''.'')) s) (\<lambda>_ s.
           res_bind (iappend rootino (mk_dirent rootino (bytes ''..'')) s) (\<lambda>_ s.
           res_bind (res_for files add_file s) (\<lambda>_ s.
           let s = fix_root s in
           mkfs_balloc (unat (freeblock s)) s))))"

end
