(* ===== verification/Umalloc.thy ===== *)
theory Umalloc
  imports Prelude
begin

text \<open>
  The memory allocator of user programs, \<open>user/umalloc.c\<close>: a circular list of free blocks
  ordered by address. A block starts with a header of 16 bytes; \<open>hptr\<close> and \<open>hsize\<close> are its
  fields by address. The system call \<open>sbrk\<close> is a parameter: it gets the number of bytes
  as an \<open>int\<close> and works on a part \<open>uos\<close> of the state of its own. The loops over the list
  are partial functions: they do not return when the list is not circular.
\<close>

record 'o umem =
  hptr :: "uint64 \<Rightarrow> uint64"
  hsize :: "uint64 \<Rightarrow> uint"
  ufreep :: uint64
  ubase :: uint64
  uos :: 'o

definition HDR :: uint64 where "HDR = 16"

definition set_ptr :: "uint64 \<Rightarrow> uint64 \<Rightarrow> 'o umem \<Rightarrow> 'o umem" where
  "set_ptr p v m = m\<lparr>hptr := (hptr m)(p := v)\<rparr>"

definition set_size :: "uint64 \<Rightarrow> uint \<Rightarrow> 'o umem \<Rightarrow> 'o umem" where
  "set_size p v m = m\<lparr>hsize := (hsize m)(p := v)\<rparr>"

text \<open>The block \<open>n\<close> headers behind \<open>p\<close>\<close>

definition plus_units :: "uint64 \<Rightarrow> uint \<Rightarrow> uint64" where
  "plus_units p n = p + ucast n * HDR"

partial_function (option) free_find :: "(uint64 \<Rightarrow> uint64) \<Rightarrow> uint64 \<Rightarrow> uint64 \<Rightarrow> uint64 option" where
  "free_find ptr bp p =
     (if p < bp \<and> bp < ptr p then Some p
      else if ptr p \<le> p \<and> (p < bp \<or> bp < ptr p) then Some p
      else free_find ptr bp (ptr p))"

definition free_link :: "uint64 \<Rightarrow> uint64 \<Rightarrow> 'o umem \<Rightarrow> 'o umem" where
  "free_link bp p m =
     (let m = (if plus_units bp (hsize m bp) = hptr m p
               then set_ptr bp (hptr m (hptr m p)) (set_size bp (hsize m bp + hsize m (hptr m p)) m)
               else set_ptr bp (hptr m p) m);
          m = (if plus_units p (hsize m p) = bp
               then set_ptr p (hptr m bp) (set_size p (hsize m p + hsize m bp) m)
               else set_ptr p bp m)
      in m\<lparr>ufreep := p\<rparr>)"

definition ufree :: "uint64 \<Rightarrow> 'o umem \<Rightarrow> 'o umem option" where
  "ufree ap m =
     (let bp = ap - HDR in
      case free_find (hptr m) bp (ufreep m) of None \<Rightarrow> None | Some p \<Rightarrow> Some (free_link bp p m))"

text \<open>The product is computed in 64 bits and passed to \<open>sbrk\<close> as an \<open>int\<close>.\<close>

definition morecore :: "(32 word \<Rightarrow> 'o \<Rightarrow> uint64 \<times> 'o) \<Rightarrow> uint \<Rightarrow> 'o umem \<Rightarrow> (uint64 \<times> 'o umem) option" where
  "morecore sbrk nu m =
     (let nu = (if nu < 4096 then 4096 else nu) in
      case sbrk (ucast (ucast nu * HDR)) (uos m) of (p, os) \<Rightarrow>
        let m = m\<lparr>uos := os\<rparr> in
        if p = -1 then Some (0, m)
        else
          let hp = p;
              m = set_size hp nu m
          in case ufree (hp + HDR) m of None \<Rightarrow> None | Some m \<Rightarrow> Some (ufreep m, m))"

partial_function (option) malloc_loop :: "(32 word \<Rightarrow> 'o \<Rightarrow> uint64 \<times> 'o) \<Rightarrow> uint \<Rightarrow> uint64 \<Rightarrow> uint64 \<Rightarrow> 'o umem \<Rightarrow>
    (uint64 \<times> 'o umem) option" where
  "malloc_loop sbrk nunits prevp p m =
     (if nunits \<le> hsize m p then
        if hsize m p = nunits then Some (p + HDR, (set_ptr prevp (hptr m p) m)\<lparr>ufreep := prevp\<rparr>)
        else
          let m = set_size p (hsize m p - nunits) m;
              p = plus_units p (hsize m p);
              m = set_size p nunits m
          in Some (p + HDR, m\<lparr>ufreep := prevp\<rparr>)
      else if p = ufreep m then
        (case morecore sbrk nunits m of
           None \<Rightarrow> None
         | Some (q, m) \<Rightarrow> if q = 0 then Some (0, m) else malloc_loop sbrk nunits q (hptr m q) m)
      else malloc_loop sbrk nunits p (hptr m p) m)"

definition nunits_of :: "uint \<Rightarrow> uint" where
  "nunits_of nbytes = ucast ((ucast nbytes + HDR - 1) div HDR + 1)"

definition malloc :: "(32 word \<Rightarrow> 'o \<Rightarrow> uint64 \<times> 'o) \<Rightarrow> uint \<Rightarrow> 'o umem \<Rightarrow> (uint64 \<times> 'o umem) option" where
  "malloc sbrk nbytes m =
     (let nunits = nunits_of nbytes;
          m = (if ufreep m = 0
               then set_size (ubase m) 0 (set_ptr (ubase m) (ubase m) (m\<lparr>ufreep := ubase m\<rparr>))
               else m);
          prevp = ufreep m
      in malloc_loop sbrk nunits prevp (hptr m prevp) m)"

end
